(* ===== verification/Prelude.thy ===== *)
theory Prelude
  imports Main "HOL-Library.Word" "HOL-Library.Signed_Division"
begin

unbundle bit_operations_syntax

text \<open>
  Shared vocabulary of the development: bytes and machine integers, the error values of the
  three packages, the two I/O endpoints the code writes to and reads from, and the generic
  list lemmas the component theories use.

  Conventions.  A Go \<open>[]byte\<close> is a \<open>bytes\<close>; a Go \<open>string\<close> is an Isabelle \<open>string\<close>, whose
  characters are bytes as in Go.  An \<open>int\<close>/\<open>int64\<close> is an \<open>int\<close>; \<open>i64\<close> wraps to the signed
  64-bit range and is written wherever the source's arithmetic can leave it.  Go's \<open>/\<close> and
  \<open>%\<close> on signed integers truncate towards zero: \<open>sdiv\<close> and \<open>smod\<close>.  A \<open>uint32\<close> is a
  \<open>32 word\<close>.
\<close>

type_synonym byte = "8 word"
type_synonym bytes = "8 word list"
type_synonym u32 = "32 word"

text \<open>
  Errors.  A Go error is modelled by what \<open>errors.Is\<close>/\<open>errors.As\<close> can observe of it: the
  sentinel at the root of its chain (wrapping with \<open>%w\<close> keeps it, so a wrapped error is the
  same value here), the \<open>OffsetMismatch\<close> struct with its three fields, or, for an error
  with no sentinel, \<open>Other\<close> with the leading words of its message.  \<open>Panic\<close> is a run-time
  panic.
\<close>

datatype err =
    CryptoCorrupt            \<comment> \<open>cryptobox.ErrCorrupt\<close>
  | CryptoWrongPassword      \<comment> \<open>cryptobox.ErrWrongPassword\<close>
  | CryptoUnaligned          \<comment> \<open>cryptobox.ErrUnaligned\<close>
  | StoreNotFound            \<comment> \<open>store.ErrNotFound\<close>
  | ErrNotFound              \<comment> \<open>service.ErrNotFound\<close>
  | ErrWrongPassword         \<comment> \<open>service.ErrWrongPassword\<close>
  | ErrTooLarge              \<comment> \<open>service.ErrTooLarge\<close>
  | ErrStorageFull           \<comment> \<open>service.ErrStorageFull\<close>
  | ErrInvalid               \<comment> \<open>service.ErrInvalid\<close>
  | OffsetMismatch (om_FileID: int) (om_Expected: int) (om_Got: int)
  | EOF                      \<comment> \<open>io.EOF\<close>
  | UnexpectedEOF            \<comment> \<open>io.ErrUnexpectedEOF\<close>
  | Other string
  | Panic string

type_synonym 'a res = "err + 'a"

text \<open>Signed 64-bit wrap-around.\<close>

definition i64 :: "int \<Rightarrow> int" where
  "i64 x = (x + 2 ^ 63) mod 2 ^ 64 - 2 ^ 63"

lemma i64_id [simp]: "- (2 ^ 63) \<le> x \<Longrightarrow> x < 2 ^ 63 \<Longrightarrow> i64 x = x"
  by (simp add: i64_def)

lemma i64_bounds: "- (2 ^ 63) \<le> i64 x" "i64 x < 2 ^ 63"
proof -
  have "0 \<le> (x + 2 ^ 63) mod 2 ^ 64" "(x + 2 ^ 63) mod 2 ^ 64 < (2 ^ 64 :: int)"
    by simp_all
  then show "- (2 ^ 63) \<le> i64 x" "i64 x < 2 ^ 63" by (simp_all add: i64_def)
qed

text \<open>
  \<open>io.Writer\<close> over a file: the bytes appended so far, and how many more the disk takes
  (\<open>None\<close>: no limit).  A write past the limit stores what fits and reports an error, which
  is how a torn chunk comes about.
\<close>

record sink =
  sink_data :: bytes
  sink_room :: "nat option"

definition sink_write :: "sink \<Rightarrow> bytes \<Rightarrow> sink \<times> bool" where
  "sink_write s p =
     (case sink_room s of
        None \<Rightarrow> (s\<lparr>sink_data := sink_data s @ p\<rparr>, True)
      | Some r \<Rightarrow>
          if length p \<le> r
          then (s\<lparr>sink_data := sink_data s @ p, sink_room := Some (r - length p)\<rparr>, True)
          else (s\<lparr>sink_data := sink_data s @ take r p, sink_room := Some 0\<rparr>, False))"

lemma sink_write_unlimited [simp]:
  "sink_room s = None \<Longrightarrow> sink_write s p = (s\<lparr>sink_data := sink_data s @ p\<rparr>, True)"
  by (simp add: sink_write_def)

lemma sink_write_prefix:
  assumes "sink_write s p = (s', ok)"
  shows "\<exists>q. sink_data s' = sink_data s @ q \<and> (ok \<longrightarrow> q = p) \<and> (\<exists>t. p = q @ t)"
proof (cases "sink_room s")
  case None
  with assms show ?thesis by auto
next
  case (Some r)
  show ?thesis
  proof (cases "length p \<le> r")
    case True
    with Some assms show ?thesis by (auto simp: sink_write_def)
  next
    case False
    with Some assms have "sink_data s' = sink_data s @ take r p" "\<not> ok"
      by (auto simp: sink_write_def)
    moreover have "p = take r p @ drop r p" by simp
    ultimately show ?thesis by blast
  qed
qed

text \<open>
  \<open>io.Reader\<close>: the bytes still to come, and whether the stream then ends with a transport
  error instead of a clean end of file.
\<close>

record source =
  src_data :: bytes
  src_fail :: bool

text \<open>
  \<open>io.ReadFull(src, buf)\<close> with \<open>len(buf) = n\<close>: the bytes read, the error if fewer than
  \<open>n\<close>, and the rest of the source.
\<close>

definition ReadFull :: "source \<Rightarrow> nat \<Rightarrow> bytes \<times> err option \<times> source" where
  "ReadFull s n =
     (let got = take n (src_data s); s' = s\<lparr>src_data := drop n (src_data s)\<rparr> in
      if n \<le> length (src_data s) then (got, None, s')
      else if src_fail s then (got, Some (Other ''read''), s')
      else if got = [] then (got, Some EOF, s')
      else (got, Some UnexpectedEOF, s'))"

text \<open>Go's built-in \<open>copy(dst[i:], src)\<close>, on a destination of fixed length.\<close>

definition copy_at :: "'a list \<Rightarrow> nat \<Rightarrow> 'a list \<Rightarrow> 'a list" where
  "copy_at dst i src =
     (let k = min (length dst - i) (length src) in take i dst @ take k src @ drop (i + k) dst)"

lemma length_copy_at [simp]: "i \<le> length dst \<Longrightarrow> length (copy_at dst i src) = length dst"
  by (simp add: copy_at_def Let_def)

text \<open>\<open>binary.BigEndian.PutUint32\<close> / \<open>AppendUint32\<close> and \<open>binary.BigEndian.Uint32\<close>.\<close>

definition PutUint32 :: "u32 \<Rightarrow> bytes" where
  "PutUint32 v = [ucast (drop_bit 24 v), ucast (drop_bit 16 v), ucast (drop_bit 8 v), ucast v]"

definition Uint32 :: "bytes \<Rightarrow> u32" where
  "Uint32 b =
     push_bit 24 (ucast (b ! 0)) OR push_bit 16 (ucast (b ! 1)) OR
     push_bit 8 (ucast (b ! 2)) OR ucast (b ! 3)"

lemma length_PutUint32 [simp]: "length (PutUint32 v) = 4"
  by (simp add: PutUint32_def)

lemma Uint32_PutUint32 [simp]: "Uint32 (PutUint32 v) = v"
proof (rule bit_word_eqI)
  fix n assume "n < LENGTH(32)"
  then have "n < 32" by simp
  then consider "n < 8" | "8 \<le> n" "n < 16" | "16 \<le> n" "n < 24" | "24 \<le> n" "n < 32"
    by linarith
  then show "bit (Uint32 (PutUint32 v)) n = bit v n"
    by cases (auto simp: Uint32_def PutUint32_def bit_simps)
qed

lemma PutUint32_Uint32:
  assumes "length b = 4"
  shows "PutUint32 (Uint32 b) = b"
proof -
  obtain b0 b1 b2 b3 where b: "b = [b0, b1, b2, b3]"
    using assms by (auto simp: numeral_eq_Suc length_Suc_conv)
  let ?w = "Uint32 b"
  have "ucast (drop_bit 24 ?w) = b0" "ucast (drop_bit 16 ?w) = b1"
    "ucast (drop_bit 8 ?w) = b2" "ucast ?w = b3"
    by (rule bit_word_eqI; auto simp: b Uint32_def bit_simps dest: bit_imp_le_length)+
  then show ?thesis by (simp add: PutUint32_def b)
qed

lemma PutUint32_inject: "PutUint32 v = PutUint32 w \<longleftrightarrow> v = w"
  by (metis Uint32_PutUint32)

text \<open>\<open>[]byte(s)\<close> and \<open>string(b)\<close>.\<close>

definition bytes_of :: "string \<Rightarrow> bytes" where
  "bytes_of s = map (\<lambda>c. of_nat (of_char c)) s"

definition string_of :: "bytes \<Rightarrow> string" where
  "string_of b = map (\<lambda>w. char_of (unat w)) b"

lemma string_of_bytes_of [simp]: "string_of (bytes_of s) = s"
proof -
  have "unat (of_nat (of_char c) :: byte) = of_char c" for c
    using nat_of_char_less_256 [of c] by (simp only: unat_of_nat) simp
  then show ?thesis by (simp add: string_of_def bytes_of_def comp_def)
qed

lemma length_bytes_of [simp]: "length (bytes_of s) = length s"
  by (simp add: bytes_of_def)

lemma length_string_of [simp]: "length (string_of b) = length b"
  by (simp add: string_of_def)

text \<open>Byte-wise exclusive or.\<close>

definition xor_bytes :: "bytes \<Rightarrow> bytes \<Rightarrow> bytes" where
  "xor_bytes a b = map2 (\<lambda>x y. x XOR y) a b"

lemma length_xor_bytes [simp]: "length (xor_bytes a b) = min (length a) (length b)"
  by (simp add: xor_bytes_def)

lemma xor_bytes_cancel: "length a \<le> length b \<Longrightarrow> xor_bytes (xor_bytes a b) b = a"
  by (rule nth_equalityI) (auto simp: xor_bytes_def xor.assoc)

lemma xor_bytes_right_inject:
  "length a = length c \<Longrightarrow> length a \<le> length b \<Longrightarrow> xor_bytes a b = xor_bytes c b \<Longrightarrow> a = c"
  by (metis xor_bytes_cancel)

lemma xor_bytes_commute: "xor_bytes a b = xor_bytes b a"
  by (rule nth_equalityI) (auto simp: xor_bytes_def xor.commute)

subsection \<open>Finding a list element\<close>

lemma find_append: "find p (xs @ ys) = (case find p xs of None \<Rightarrow> find p ys | Some x \<Rightarrow> Some x)"
  by (induction xs) auto

lemma find_None: "find p xs = None \<longleftrightarrow> (\<forall>x \<in> set xs. \<not> p x)"
  by (auto simp: find_None_iff)

lemma find_Some_D: "find p xs = Some x \<Longrightarrow> x \<in> set xs \<and> p x"
  by (auto simp: find_Some_iff)

lemma find_unique:
  "distinct (map g xs) \<Longrightarrow> x \<in> set xs \<Longrightarrow> find (\<lambda>y. g y = g x) xs = Some x"
  by (induction xs) force+

end
