(* ===== verification/GoStrings.thy ===== *)
theory GoStrings
  imports Prelude
begin

text \<open>
  What the program uses of Go's \<open>strings\<close>, \<open>path\<close>, \<open>strconv\<close> and \<open>unicode/utf8\<close>.  A Go
  string is a sequence of bytes, here a \<open>string\<close> whose characters are those bytes; functions
  that work on runes decode UTF-8 as Go does, an invalid byte counting as one
  replacement character.
\<close>

subsection \<open>Prefixes, suffixes and searching\<close>

definition HasPrefix :: "string \<Rightarrow> string \<Rightarrow> bool" where
  "HasPrefix s p \<longleftrightarrow> take (length p) s = p"

definition HasSuffix :: "string \<Rightarrow> string \<Rightarrow> bool" where
  "HasSuffix s p \<longleftrightarrow> length p \<le> length s \<and> drop (length s - length p) s = p"

definition TrimPrefix :: "string \<Rightarrow> string \<Rightarrow> string" where
  "TrimPrefix s p = (if HasPrefix s p then drop (length p) s else s)"

definition TrimSuffix :: "string \<Rightarrow> string \<Rightarrow> string" where
  "TrimSuffix s p = (if HasSuffix s p then take (length s - length p) s else s)"

text \<open>The text after the last occurrence of a byte, all of it when there is none.\<close>

definition after_last :: "char \<Rightarrow> string \<Rightarrow> string" where
  "after_last c s = rev (takeWhile (\<lambda>x. x \<noteq> c) (rev s))"

text \<open>\<open>strings.TrimRight\<close> and \<open>strings.Trim\<close> with a cutset of ASCII characters.\<close>

definition TrimRight :: "string \<Rightarrow> string \<Rightarrow> string" where
  "TrimRight s cutset = rev (dropWhile (\<lambda>x. x \<in> set cutset) (rev s))"

definition Trim :: "string \<Rightarrow> string \<Rightarrow> string" where
  "Trim s cutset = TrimRight (dropWhile (\<lambda>x. x \<in> set cutset) s) cutset"

definition ReplaceByte :: "char \<Rightarrow> char \<Rightarrow> string \<Rightarrow> string" where
  "ReplaceByte a b s = map (\<lambda>x. if x = a then b else x) s"

fun SplitByte :: "char \<Rightarrow> string \<Rightarrow> string list" where
  "SplitByte c [] = [[]]"
| "SplitByte c (x # xs) =
     (if x = c then [] # SplitByte c xs
      else case SplitByte c xs of (y # ys) \<Rightarrow> (x # y) # ys | [] \<Rightarrow> [[x]])"

subsection \<open>White space\<close>

text \<open>
  The UTF-8 encodings of the code points Go's \<open>unicode.IsSpace\<close> accepts: U+0009 to U+000D,
  U+0020, U+0085, U+00A0, U+1680, U+2000 to U+200A, U+2028, U+2029, U+202F, U+205F and U+3000.
\<close>

definition str :: "nat list \<Rightarrow> string" where
  "str = map char_of"

definition spaces :: "string list" where
  "spaces = map (\<lambda>b. str [b]) [9, 10, 11, 12, 13, 32] @
     [str [194, 133], str [194, 160], str [225, 154, 128]] @
     map (\<lambda>b. str [226, 128, b])
       [128, 129, 130, 131, 132, 133, 134, 135, 136, 137, 138, 168, 169, 175] @
     [str [226, 129, 159], str [227, 128, 128]]"

text \<open>The space a string begins or ends with, if any.\<close>

definition space_prefix :: "string \<Rightarrow> string option" where
  "space_prefix s = find (\<lambda>p. HasPrefix s p) spaces"

definition space_suffix :: "string \<Rightarrow> string option" where
  "space_suffix s = find (\<lambda>p. HasSuffix s p) spaces"

lemma spaces_nonempty: "p \<in> set spaces \<Longrightarrow> p \<noteq> []"
  by (auto simp: spaces_def str_def)

lemma space_prefix_Some: "space_prefix s = Some p \<Longrightarrow> p \<noteq> [] \<and> HasPrefix s p"
  unfolding space_prefix_def by (drule find_Some_D) (simp add: spaces_nonempty)

lemma space_suffix_Some: "space_suffix s = Some p \<Longrightarrow> p \<noteq> [] \<and> HasSuffix s p"
  unfolding space_suffix_def by (drule find_Some_D) (simp add: spaces_nonempty)

function trim_left_space :: "string \<Rightarrow> string" where
  "trim_left_space s =
     (case space_prefix s of None \<Rightarrow> s | Some p \<Rightarrow> trim_left_space (drop (length p) s))"
  by pat_completeness auto
termination
proof (relation "measure length")
  fix s p assume "space_prefix s = Some p"
  then have "p \<noteq> []" "take (length p) s = p" using space_prefix_Some by (auto simp: HasPrefix_def)
  then have "s \<noteq> []" "0 < length p" by auto
  then show "(drop (length p) s, s) \<in> measure length" by (simp add: not_less)
qed simp

function trim_right_space :: "string \<Rightarrow> string" where
  "trim_right_space s =
     (case space_suffix s of None \<Rightarrow> s | Some p \<Rightarrow> trim_right_space (take (length s - length p) s))"
  by pat_completeness auto
termination
proof (relation "measure length")
  fix s p assume "space_suffix s = Some p"
  then have "0 < length p" "length p \<le> length s" using space_suffix_Some by (auto simp: HasSuffix_def)
  then have "length s - length p < length s" by linarith
  then show "(take (length s - length p) s, s) \<in> measure length" by simp
qed simp

declare trim_left_space.simps [simp del] trim_right_space.simps [simp del]

definition TrimSpace :: "string \<Rightarrow> string" where
  "TrimSpace s = trim_right_space (trim_left_space s)"

subsection \<open>UTF-8\<close>

text \<open>
  The width of the valid UTF-8 sequence at the front of a string (\<open>utf8.DecodeRune\<close>): the
  lead byte fixes the length and the range of the second byte; \<open>None\<close> when there is none.
\<close>

definition second_range :: "nat \<Rightarrow> (nat \<times> nat \<times> nat) option" where
  "second_range b =
     (if 194 \<le> b \<and> b \<le> 223 then Some (2, 128, 191)
      else if b = 224 then Some (3, 160, 191)
      else if b = 237 then Some (3, 128, 159)
      else if 225 \<le> b \<and> b \<le> 239 then Some (3, 128, 191)
      else if b = 240 then Some (4, 144, 191)
      else if b = 244 then Some (4, 128, 143)
      else if 241 \<le> b \<and> b \<le> 243 then Some (4, 128, 191)
      else None)"

definition rune_width :: "string \<Rightarrow> nat option" where
  "rune_width s =
     (case s of
        [] \<Rightarrow> None
      | c # r \<Rightarrow>
          if of_char c < (128 :: nat) then Some 1
          else case second_range (of_char c) of
            None \<Rightarrow> None
          | Some (w, lo, hi) \<Rightarrow>
              if w \<le> length s \<and> lo \<le> of_char (r ! 0) \<and> of_char (r ! 0) \<le> hi \<and>
                 (\<forall>x \<in> set (drop 1 (take (w - 1) r)). 128 \<le> (of_char x :: nat) \<and> (of_char x :: nat) \<le> 191)
              then Some w else None)"

lemma rune_width_pos: "rune_width s = Some w \<Longrightarrow> 0 < w \<and> w \<le> length s"
  by (auto simp: rune_width_def second_range_def split: list.splits if_splits)

text \<open>A string as its runes: each is its bytes, or \<open>None\<close> for an invalid byte.\<close>

function runes :: "string \<Rightarrow> string option list" where
  "runes s =
     (if s = [] then []
      else case rune_width s of
        None \<Rightarrow> None # runes (drop 1 s)
      | Some w \<Rightarrow> Some (take w s) # runes (drop w s))"
  by pat_completeness auto
termination
proof (relation "measure length")
  fix s :: string and w
  assume "s \<noteq> []" "rune_width s = Some w"
  then show "(drop w s, s) \<in> measure length" using rune_width_pos by fastforce
qed auto

declare runes.simps [simp del]

text \<open>\<open>utf8.RuneError\<close>, encoded.\<close>

definition rune_error :: string where "rune_error = str [239, 191, 189]"

text \<open>
  \<open>strings.Map\<close> with a function that acts on ASCII runes and keeps all others: \<open>f\<close> gives the
  replacement of an ASCII byte (\<open>None\<close> drops it).
\<close>

definition map_rune :: "(char \<Rightarrow> char option) \<Rightarrow> string option \<Rightarrow> string" where
  "map_rune f r =
     (case r of
        None \<Rightarrow> rune_error
      | Some cs \<Rightarrow>
          if length cs = 1 then (case f (hd cs) of None \<Rightarrow> [] | Some d \<Rightarrow> [d]) else cs)"

definition MapASCII :: "(char \<Rightarrow> char option) \<Rightarrow> string \<Rightarrow> string" where
  "MapASCII f s = concat (map (map_rune f) (runes s))"

subsection \<open>Paths\<close>

definition path_Base :: "string \<Rightarrow> string" where
  "path_Base p =
     (if p = [] then ''.''
      else let b = after_last (CHR ''/'') (TrimRight p ''/'') in
        if b = [] then ''/'' else b)"

text \<open>The suffix from the last dot of the last path element on.\<close>

definition path_Ext :: "string \<Rightarrow> string" where
  "path_Ext p =
     (let e = after_last (CHR ''/'') p in
      if CHR ''.'' \<in> set e then CHR ''.'' # after_last (CHR ''.'') e else [])"

subsection \<open>Decimal numbers\<close>

definition digit_char :: "nat \<Rightarrow> char" where "digit_char d = char_of (48 + d)"

fun nat_digits :: "nat \<Rightarrow> string" where
  "nat_digits n = (if n < 10 then [digit_char n] else nat_digits (n div 10) @ [digit_char (n mod 10)])"

declare nat_digits.simps [simp del]

definition FormatInt :: "int \<Rightarrow> string" where
  "FormatInt i = (if i < 0 then ''-'' @ nat_digits (nat (- i)) else nat_digits (nat i))"

fun digits_value :: "nat \<Rightarrow> string \<Rightarrow> nat option" where
  "digits_value acc [] = Some acc"
| "digits_value acc (c # cs) =
     (if 48 \<le> (of_char c :: nat) \<and> of_char c \<le> (57 :: nat) then digits_value (10 * acc + (of_char c - 48)) cs
      else None)"

text \<open>\<open>strconv.ParseInt(s, 10, 64)\<close>: an optional sign, at least one digit, in range.\<close>

definition ParseInt :: "string \<Rightarrow> int option" where
  "ParseInt s =
     (let (neg, ds) = (case s of [] \<Rightarrow> (False, [])
                                | c # r \<Rightarrow> if c = CHR ''-'' then (True, r)
                                         else if c = CHR ''+'' then (False, r) else (False, s)) in
      if ds = [] then None
      else case digits_value 0 ds of
        None \<Rightarrow> None
      | Some n \<Rightarrow>
          if neg then (if n \<le> 2 ^ 63 then Some (- int n) else None)
          else if n < 2 ^ 63 then Some (int n) else None)"

subsection \<open>Printing and parsing numbers\<close>

lemma of_char_digit: "d < 10 \<Longrightarrow> of_char (digit_char d) = (48 + d :: nat)"
  by (simp add: digit_char_def)

lemma digits_value_append:
  "digits_value acc (xs @ ys) = (case digits_value acc xs of None \<Rightarrow> None | Some a \<Rightarrow> digits_value a ys)"
  by (induction acc xs rule: digits_value.induct) auto

lemma digits_value_digits: "digits_value 0 (nat_digits n) = Some n"
proof (induction n rule: nat_digits.induct)
  case (1 n)
  show ?case
  proof (cases "n < 10")
    case True
    then show ?thesis by (simp add: nat_digits.simps of_char_digit)
  next
    case False
    then show ?thesis
      using 1 of_char_digit [of "n mod 10"]
      by (subst nat_digits.simps) (simp add: digits_value_append)
  qed
qed

lemma nat_digits_nonempty [simp]: "nat_digits n \<noteq> []"
  by (subst nat_digits.simps) simp

lemma nat_digits_chars: "c \<in> set (nat_digits n) \<Longrightarrow> 48 \<le> (of_char c :: nat) \<and> (of_char c :: nat) \<le> 57"
proof (induction n rule: nat_digits.induct)
  case (1 n)
  then show ?case
    by (subst (asm) nat_digits.simps) (auto simp: of_char_digit split: if_splits)
qed

lemma nat_digits_inject: "nat_digits m = nat_digits n \<longleftrightarrow> m = n"
  by (metis digits_value_digits option.inject)

lemma nat_digits_no: "of_char c < (48 :: nat) \<Longrightarrow> c \<notin> set (nat_digits n)"
  by (auto dest: nat_digits_chars)

lemma FormatInt_inject: "0 \<le> i \<Longrightarrow> 0 \<le> j \<Longrightarrow> FormatInt i = FormatInt j \<longleftrightarrow> i = j"
  by (auto simp: FormatInt_def nat_digits_inject)

lemma ParseInt_digits: "n < 2 ^ 63 \<Longrightarrow> ParseInt (nat_digits n) = Some (int n)"
proof -
  assume n: "n < 2 ^ 63"
  obtain c r where cr: "nat_digits n = c # r" by (cases "nat_digits n") auto
  have "c \<noteq> CHR ''-''" "c \<noteq> CHR ''+''"
    using nat_digits_no [of "CHR ''-''" n] nat_digits_no [of "CHR ''+''" n] cr by auto
  then show ?thesis using n digits_value_digits [of n] cr by (simp add: ParseInt_def)
qed

lemma ParseInt_FormatInt: "- (2 ^ 63) \<le> i \<Longrightarrow> i < 2 ^ 63 \<Longrightarrow> ParseInt (FormatInt i) = Some i"
proof (cases "i < 0")
  case True
  assume "- (2 ^ 63) \<le> i"
  then have "nat (- i) \<le> 2 ^ 63" by simp
  then show ?thesis
    using True digits_value_digits [of "nat (- i)"] by (simp add: FormatInt_def ParseInt_def)
next
  case False
  assume "i < 2 ^ 63"
  then show ?thesis using False ParseInt_digits [of "nat i"] by (simp add: FormatInt_def)
qed

subsection \<open>Joining\<close>

fun join :: "string \<Rightarrow> string list \<Rightarrow> string" where
  "join sep [] = []"
| "join sep [x] = x"
| "join sep (x # y # ys) = x @ sep @ join sep (y # ys)"

text \<open>\<open>filepath.Clean\<close> and \<open>filepath.Join\<close> of two elements, with slashes as separators.\<close>

fun clean_elems :: "bool \<Rightarrow> string list \<Rightarrow> string list \<Rightarrow> string list" where
  "clean_elems rooted acc [] = rev acc"
| "clean_elems rooted acc (x # xs) =
     (if x = [] \<or> x = ''.'' then clean_elems rooted acc xs
      else if x = ''..'' then
        (if acc \<noteq> [] \<and> hd acc \<noteq> ''..'' then clean_elems rooted (tl acc) xs
         else if rooted then clean_elems rooted acc xs
         else clean_elems rooted (x # acc) xs)
      else clean_elems rooted (x # acc) xs)"

definition Clean :: "string \<Rightarrow> string" where
  "Clean p =
     (if p = [] then ''.''
      else
        let rooted = (hd p = CHR ''/'');
            r = join ''/'' (clean_elems rooted [] (SplitByte (CHR ''/'') p))
        in if rooted then ''/'' @ r else if r = [] then ''.'' else r)"

definition filepath_Join :: "string \<Rightarrow> string \<Rightarrow> string" where
  "filepath_Join a b = (if a = [] then if b = [] then [] else Clean b else Clean (a @ ''/'' @ b))"

subsection \<open>Hexadecimal digits\<close>

definition is_digit :: "char \<Rightarrow> bool" where
  "is_digit c \<longleftrightarrow> 48 \<le> (of_char c :: nat) \<and> (of_char c :: nat) \<le> 57"

definition hex_value :: "char \<Rightarrow> nat option" where
  "hex_value c =
     (let n = of_char c in
      if 48 \<le> n \<and> n \<le> 57 then Some (n - 48)
      else if 97 \<le> n \<and> n \<le> 102 then Some (n - 87)
      else if 65 \<le> n \<and> n \<le> 70 then Some (n - 55)
      else None)"

definition hex_digit :: "nat \<Rightarrow> char" where
  "hex_digit d = (if d < 10 then char_of (48 + d) else char_of (87 + d))"

lemma hex_value_digit [simp]: "d < 16 \<Longrightarrow> hex_value (hex_digit d) = Some d"
  by (auto simp: hex_value_def hex_digit_def Let_def)

text \<open>\<open>hex.EncodeToString\<close> and \<open>hex.DecodeString\<close>.\<close>

definition EncodeToString :: "bytes \<Rightarrow> string" where
  "EncodeToString b = concat (map (\<lambda>x. [hex_digit (unat x div 16), hex_digit (unat x mod 16)]) b)"

fun DecodeString :: "string \<Rightarrow> bytes option" where
  "DecodeString [] = Some []"
| "DecodeString [c] = None"
| "DecodeString (a # b # r) =
     (case (hex_value a, hex_value b, DecodeString r) of
        (Some x, Some y, Some bs) \<Rightarrow> Some (of_nat (16 * x + y) # bs)
      | _ \<Rightarrow> None)"

lemma DecodeString_EncodeToString [simp]: "DecodeString (EncodeToString b) = Some b"
proof (induction b)
  case (Cons x b)
  have "16 * (unat x div 16) + unat x mod 16 = unat x" by simp
  moreover have "unat x div 16 < 16" using unsigned_less [of x, where ?'a = nat] by (simp add: less_mult_imp_div_less)
  ultimately show ?case using Cons by (simp add: EncodeToString_def)
qed (simp add: EncodeToString_def)

subsection \<open>Quoting\<close>

definition bslash :: char where "bslash = CHR 0x5C"
definition dquote :: char where "dquote = CHR 0x22"

text \<open>The code point of a valid UTF-8 sequence.\<close>

definition code_point :: "string \<Rightarrow> nat" where
  "code_point cs =
     (case map of_char cs of
        [a] \<Rightarrow> a
      | [a, b] \<Rightarrow> 64 * (a - 192) + (b - 128)
      | [a, b, c] \<Rightarrow> 4096 * (a - 224) + 64 * (b - 128) + (c - 128)
      | [a, b, c, d] \<Rightarrow> 262144 * (a - 240) + 4096 * (b - 128) + 64 * (c - 128) + (d - 128)
      | _ \<Rightarrow> 0)"

definition hex_digits :: "nat \<Rightarrow> nat \<Rightarrow> string" where
  "hex_digits w n = map (\<lambda>i. hex_digit (n div 16 ^ i mod 16)) (rev [0..<w])"

text \<open>
  \<open>strconv.Quote\<close> (the verb \<open>%q\<close>): \<open>isPrint\<close> decides \<open>unicode.IsPrint\<close> of the runes beyond ASCII,
  given by their bytes.
\<close>

definition quote_rune :: "(string \<Rightarrow> bool) \<Rightarrow> string \<Rightarrow> string" where
  "quote_rune isPrint cs =
     (let n = code_point cs in
      if cs = [dquote] \<or> cs = [bslash] then bslash # cs
      else if (if length cs = 1 then 32 \<le> n \<and> n < 127 else isPrint cs) then cs
      else if n = 7 then [bslash, CHR ''a''] else if n = 8 then [bslash, CHR ''b'']
      else if n = 12 then [bslash, CHR ''f''] else if n = 10 then [bslash, CHR ''n'']
      else if n = 13 then [bslash, CHR ''r''] else if n = 9 then [bslash, CHR ''t'']
      else if n = 11 then [bslash, CHR ''v'']
      else if n < 32 \<or> n = 127 then [bslash, CHR ''x''] @ hex_digits 2 n
      else if n < 65536 then [bslash, CHR ''u''] @ hex_digits 4 n
      else [bslash, CHR ''U''] @ hex_digits 8 n)"

function quote_runes :: "(string \<Rightarrow> bool) \<Rightarrow> string \<Rightarrow> string" where
  "quote_runes isPrint s =
     (if s = [] then []
      else case rune_width s of
        None \<Rightarrow> [bslash, CHR ''x''] @ hex_digits 2 (of_char (hd s)) @ quote_runes isPrint (drop 1 s)
      | Some w \<Rightarrow> quote_rune isPrint (take w s) @ quote_runes isPrint (drop w s))"
  by pat_completeness auto
termination
proof (relation "measure (\<lambda>(p, s). length s)")
  fix p :: "string \<Rightarrow> bool" and s :: string and w
  assume "s \<noteq> []" "rune_width s = Some w"
  then show "((p, drop w s), p, s) \<in> measure (\<lambda>(p, s). length s)" using rune_width_pos by fastforce
qed auto

declare quote_runes.simps [simp del]

definition Quote :: "(string \<Rightarrow> bool) \<Rightarrow> string \<Rightarrow> string" where
  "Quote isPrint s = [dquote] @ quote_runes isPrint s @ [dquote]"

end
