(* ===== verification/Net_Addr.thy ===== *)
theory Net_Addr
  imports GoStrings
begin

unbundle bit_operations_syntax

text \<open>
  What the program uses of Go's \<open>net/netip\<close> and \<open>net\<close>: addresses with their textual forms,
  address prefixes, and the splitting of \<open>host:port\<close>.  An \<open>Addr\<close> is the zero value
  (\<open>NoAddr\<close>, for which \<open>IsValid\<close> is false), an IPv4 address, or an IPv6 address with a zone
  (empty when there is none).
\<close>

datatype Addr = NoAddr | V4 "32 word" | V6 "128 word" string

definition IsValid :: "Addr \<Rightarrow> bool" where "IsValid a \<longleftrightarrow> a \<noteq> NoAddr"

definition word_of_bytes :: "bytes \<Rightarrow> 'a::len word" where
  "word_of_bytes b = foldl (\<lambda>w x. push_bit 8 w OR ucast x) 0 b"

definition bytes_of_word :: "nat \<Rightarrow> 'a::len word \<Rightarrow> bytes" where
  "bytes_of_word n w = map (\<lambda>i. ucast (drop_bit (8 * (n - 1 - i)) w)) [0..<n]"

definition AsSlice :: "Addr \<Rightarrow> bytes" where
  "AsSlice a = (case a of NoAddr \<Rightarrow> [] | V4 w \<Rightarrow> bytes_of_word 4 w | V6 w z \<Rightarrow> bytes_of_word 16 w)"

text \<open>An IPv4-mapped IPv6 address (\<open>::ffff:a.b.c.d\<close>) becomes the IPv4 address.\<close>

definition Is4In6 :: "128 word \<Rightarrow> bool" where
  "Is4In6 w \<longleftrightarrow> drop_bit 32 w = 0xffff"

definition Unmap :: "Addr \<Rightarrow> Addr" where
  "Unmap a = (case a of V6 w z \<Rightarrow> if Is4In6 w then V4 (ucast w) else a | _ \<Rightarrow> a)"

subsection \<open>Parsing\<close>

text \<open>One field of an IPv4 address: one to three digits, no leading zero, at most 255.\<close>

definition parse_octet :: "string \<Rightarrow> byte option" where
  "parse_octet s =
     (if s = [] \<or> \<not> list_all is_digit s \<or> (1 < length s \<and> hd s = CHR ''0'') then None
      else case digits_value 0 s of
        Some n \<Rightarrow> if n \<le> 255 then Some (of_nat n) else None
      | None \<Rightarrow> None)"

definition parse_v4_fields :: "string \<Rightarrow> bytes option" where
  "parse_v4_fields s =
     (case SplitByte (CHR ''.'') s of
        [a, b, c, d] \<Rightarrow>
          (case (parse_octet a, parse_octet b, parse_octet c, parse_octet d) of
             (Some w, Some x, Some y, Some z) \<Rightarrow> Some [w, x, y, z]
           | _ \<Rightarrow> None)
      | _ \<Rightarrow> None)"

definition hex_span :: "string \<Rightarrow> string" where
  "hex_span = takeWhile (\<lambda>c. hex_value c \<noteq> None)"

definition hex_number :: "string \<Rightarrow> nat" where
  "hex_number s = foldl (\<lambda>n c. 16 * n + the (hex_value c)) 0 s"

text \<open>
  The field loop of \<open>parseIPv6\<close>: \<open>ip\<close> holds the bytes read so far (\<open>i\<close> is their number),
  \<open>el\<close> the position of the ellipsis.  The result is the bytes, the ellipsis and the text
  left unread; \<open>None\<close> is an error.
\<close>

function parse_v6_fields :: "bytes \<Rightarrow> nat option \<Rightarrow> string \<Rightarrow> (bytes \<times> nat option \<times> string) option" where
  "parse_v6_fields ip el s =
     (if 16 \<le> length ip then Some (ip, el, s)
      else
        let h = hex_span s; r = drop (length h) s in
        if length h = 0 \<or> 4 < length h then None
        else if r \<noteq> [] \<and> hd r = CHR ''.'' then
          (if (el = None \<and> length ip \<noteq> 12) \<or> 16 < length ip + 4 then None
           else case parse_v4_fields s of None \<Rightarrow> None | Some b \<Rightarrow> Some (ip @ b, el, []))
        else
          let n = hex_number h; ip' = ip @ [of_nat (n div 256), of_nat n] in
          if r = [] then Some (ip', el, [])
          else if hd r \<noteq> CHR '':'' \<or> tl r = [] then None
          else if hd (tl r) = CHR '':'' then
            (if el \<noteq> None then None
             else if tl (tl r) = [] then Some (ip', Some (length ip'), [])
             else parse_v6_fields ip' (Some (length ip')) (tl (tl r)))
          else parse_v6_fields ip' el (tl r))"
  by pat_completeness auto
termination
  by (relation "measure (\<lambda>(ip, el, s). 16 - length ip)") auto

declare parse_v6_fields.simps [simp del]

definition parseIPv6 :: "string \<Rightarrow> Addr option" where
  "parseIPv6 input =
     (let s = takeWhile (\<lambda>c. c \<noteq> CHR ''%'') input;
          zoned = (CHR ''%'' \<in> set input);
          zone = drop (length s + 1) input in
      if zoned \<and> zone = [] then None
      else
        let lead = HasPrefix s ''::''; s1 = (if lead then drop 2 s else s) in
        if lead \<and> s1 = [] then Some (V6 0 zone)
        else case parse_v6_fields [] (if lead then Some 0 else None) s1 of
          None \<Rightarrow> None
        | Some (ip, el, rest) \<Rightarrow>
            if rest \<noteq> [] then None
            else if length ip < 16 then
              (case el of
                 None \<Rightarrow> None
               | Some e \<Rightarrow>
                   Some (V6 (word_of_bytes (take e ip @ replicate (16 - length ip) 0 @ drop e ip)) zone))
            else if el \<noteq> None then None
            else Some (V6 (word_of_bytes ip) zone))"

definition ParseAddr :: "string \<Rightarrow> Addr option" where
  "ParseAddr s =
     (case find (\<lambda>c. c = CHR ''.'' \<or> c = CHR '':'' \<or> c = CHR ''%'') s of
        None \<Rightarrow> None
      | Some c \<Rightarrow>
          if c = CHR ''.'' then map_option (\<lambda>b. V4 (word_of_bytes b)) (parse_v4_fields s)
          else if c = CHR '':'' then parseIPv6 s
          else None)"

subsection \<open>Printing\<close>

definition v4_string :: "bytes \<Rightarrow> string" where
  "v4_string b =
     FormatInt (uint (b ! 0)) @ ''.'' @ FormatInt (uint (b ! 1)) @ ''.'' @
     FormatInt (uint (b ! 2)) @ ''.'' @ FormatInt (uint (b ! 3))"

fun hex_string :: "nat \<Rightarrow> string" where
  "hex_string n = (if n < 16 then [hex_digit n] else hex_string (n div 16) @ [hex_digit (n mod 16)])"

declare hex_string.simps [simp del]

definition groups :: "128 word \<Rightarrow> nat list" where
  "groups w = map (\<lambda>i. unat (take_bit 16 (drop_bit (16 * (7 - i)) w))) [0..<8]"

definition zero_run :: "nat list \<Rightarrow> nat \<Rightarrow> nat" where
  "zero_run gs i = length (takeWhile (\<lambda>g. g = 0) (drop i gs))"

text \<open>The first longest run of at least two zero groups, as a start and an end.\<close>

definition best_run :: "nat list \<Rightarrow> (nat \<times> nat) option" where
  "best_run gs =
     foldl (\<lambda>best i. let l = zero_run gs i in
        if 2 \<le> l \<and> (case best of None \<Rightarrow> True | Some (a, b) \<Rightarrow> b - a < l) then Some (i, i + l) else best)
       None [0..<8]"

definition v6_string :: "128 word \<Rightarrow> string" where
  "v6_string w =
     (let gs = groups w; show = (\<lambda>xs. join '':'' (map hex_string xs)) in
      case best_run gs of
        None \<Rightarrow> show gs
      | Some (a, b) \<Rightarrow> show (take a gs) @ ''::'' @ show (drop b gs))"

definition AddrString :: "Addr \<Rightarrow> string" where
  "AddrString a =
     (case a of
        NoAddr \<Rightarrow> ''invalid IP''
      | V4 w \<Rightarrow> v4_string (bytes_of_word 4 w)
      | V6 w z \<Rightarrow>
          (if Is4In6 w then ''::ffff:'' @ v4_string (bytes_of_word 4 (ucast w :: 32 word)) else v6_string w) @
          (if z = [] then [] else ''%'' @ z))"

subsection \<open>Prefixes\<close>

record Prefix =
  p_ip :: Addr
  p_bits :: nat

definition ParsePrefix :: "string \<Rightarrow> Prefix option" where
  "ParsePrefix s =
     (if CHR ''/'' \<notin> set s then None
      else
        let bitsStr = after_last (CHR ''/'') s in
        case ParseAddr (take (length s - length bitsStr - 1) s) of
          None \<Rightarrow> None
        | Some ip \<Rightarrow>
            if (case ip of V6 w z \<Rightarrow> z \<noteq> [] | _ \<Rightarrow> False) then None
            else if 1 < length bitsStr \<and> \<not> (49 \<le> (of_char (hd bitsStr) :: nat) \<and> (of_char (hd bitsStr) :: nat) \<le> 57)
              then None
            else case ParseInt bitsStr of
              None \<Rightarrow> None
            | Some n \<Rightarrow>
                if n < 0 \<or> n > (case ip of V6 w z \<Rightarrow> 128 | _ \<Rightarrow> 32) then None
                else Some \<lparr>p_ip = ip, p_bits = nat n\<rparr>)"

definition PrefixContains :: "Prefix \<Rightarrow> Addr \<Rightarrow> bool" where
  "PrefixContains p a =
     (case (p_ip p, a) of
        (V4 w, V4 x) \<Rightarrow> drop_bit (32 - p_bits p) (w XOR x) = 0
      | (V6 w z, V6 x z') \<Rightarrow> z' = [] \<and> drop_bit (128 - p_bits p) (w XOR x) = 0
      | _ \<Rightarrow> False)"

subsection \<open>Splitting host and port\<close>

text \<open>The host of \<open>net.SplitHostPort\<close>; \<open>None\<close> is its error.\<close>

definition SplitHost :: "string \<Rightarrow> string option" where
  "SplitHost hp =
     (if CHR '':'' \<notin> set hp then None
      else
        let port = after_last (CHR '':'') hp; i = length hp - length port - 1 in
        if hd hp = CHR ''['' then
          (let inner = takeWhile (\<lambda>c. c \<noteq> CHR '']'') hp; e = length inner in
           if CHR '']'' \<notin> set hp \<or> e + 1 \<noteq> i then None
           else if CHR ''['' \<in> set (drop 1 hp) \<or> CHR '']'' \<in> set (drop (e + 1) hp) then None
           else Some (drop 1 inner))
        else
          let host = take i hp in
          if CHR '':'' \<in> set host \<or> CHR ''['' \<in> set hp \<or> CHR '']'' \<in> set hp then None
          else Some host)"

end
