(* ===== verification/GoTime.thy ===== *)
theory GoTime
  imports Prelude
begin

text \<open>
  What the program uses of Go's \<open>time\<close> package.  A \<open>time.Time\<close> is the number of
  nanoseconds since 1970-01-01T00:00:00Z, an unbounded integer; a \<open>time.Duration\<close> is a
  number of nanoseconds.  The zero \<open>time.Time\<close> is 0001-01-01T00:00:00Z.
\<close>

type_synonym time = int

definition Second :: int where "Second = 1000000000"
definition Minute :: int where "Minute = 60 * Second"
definition Hour :: int where "Hour = 60 * Minute"

lemmas duration_defs = Second_def Minute_def Hour_def

text \<open>\<open>t.Unix()\<close> and \<open>time.Unix(s, 0)\<close>.\<close>

definition Unix :: "time \<Rightarrow> int" where "Unix t = t div Second"
definition fromUnix :: "int \<Rightarrow> time" where "fromUnix s = s * Second"

definition zeroTime :: time where "zeroTime = -62135596800 * Second"

definition IsZero :: "time \<Rightarrow> bool" where "IsZero t \<longleftrightarrow> t = zeroTime"

text \<open>\<open>t.AddDate(0, 0, n)\<close> in a zone of fixed offset: \<open>n\<close> calendar days are \<open>n\<close> times 24 hours.\<close>

definition AddDays :: "time \<Rightarrow> int \<Rightarrow> time" where "AddDays t n = t + n * (24 * Hour)"

lemma Unix_fromUnix [simp]: "Unix (fromUnix s) = s"
  by (simp add: Unix_def fromUnix_def Second_def)

lemma fromUnix_Unix_le: "fromUnix (Unix t) \<le> t"
  by (simp add: fromUnix_def Unix_def Second_def flip: minus_mod_eq_div_mult)

lemma Unix_mono: "s \<le> t \<Longrightarrow> Unix s \<le> Unix t"
  unfolding Unix_def Second_def by (rule zdiv_mono1) auto

lemma fromUnix_le_iff: "fromUnix s \<le> t \<longleftrightarrow> s \<le> Unix t"
proof
  assume "fromUnix s \<le> t"
  then show "s \<le> Unix t" by (metis Unix_mono Unix_fromUnix)
next
  assume "s \<le> Unix t"
  then have "fromUnix s \<le> fromUnix (Unix t)" by (simp add: fromUnix_def Second_def)
  then show "fromUnix s \<le> t" using fromUnix_Unix_le order_trans by blast
qed

text \<open>
  Calendar dates.  \<open>civil\<close> turns a day number (days since 1970-01-01) into year, month and
  day of the proleptic Gregorian calendar, counting in 400-year eras that start on 1 March;
  \<open>days_of\<close> is the reverse.
\<close>

definition civil :: "int \<Rightarrow> int \<times> int \<times> int" where
  "civil z =
     (let n = z + 719468;
          era = n div 146097;
          doe = n mod 146097;
          yoe = (doe - doe div 1460 + doe div 36524 - doe div 146096) div 365;
          doy = doe - (365 * yoe + yoe div 4 - yoe div 100);
          mp = (5 * doy + 2) div 153;
          d = doy - (153 * mp + 2) div 5 + 1;
          m = (if mp < 10 then mp + 3 else mp - 9)
      in (yoe + era * 400 + (if m \<le> 2 then 1 else 0), m, d))"

definition days_of :: "int \<times> int \<times> int \<Rightarrow> int" where
  "days_of ymd =
     (case ymd of (y, m, d) \<Rightarrow>
        let y' = y - (if m \<le> 2 then 1 else 0);
            era = y' div 400;
            yoe = y' mod 400;
            doy = (153 * (if m > 2 then m - 3 else m + 9) + 2) div 5 + d - 1;
            doe = yoe * 365 + yoe div 4 - yoe div 100 + doy
        in era * 146097 + doe - 719468)"

text \<open>Decimal digits, padded to a width (\<open>Format\<close> pads a year to four and a month or day to two).\<close>

definition digit :: "nat \<Rightarrow> char" where "digit d = char_of (48 + d)"

fun pad_digits :: "nat \<Rightarrow> nat \<Rightarrow> string" where
  "pad_digits 0 n = []"
| "pad_digits (Suc w) n = pad_digits w (n div 10) @ [digit (n mod 10)]"

end
