(* ===== verification/SHA256.thy ===== *)
theory SHA256
  imports Prelude
begin

unbundle bit_operations_syntax

text \<open>
  \<open>crypto/sha256.Sum256\<close> of the Go standard library (FIPS 180-4), which
  \<open>cryptobox.ManageTokenHash\<close> uses.
\<close>

definition sha_k :: "u32 list" where
  "sha_k = [1116352408, 1899447441, 3049323471, 3921009573, 961987163, 1508970993, 2453635748, 2870763221,
      3624381080, 310598401, 607225278, 1426881987, 1925078388, 2162078206, 2614888103, 3248222580,
      3835390401, 4022224774, 264347078, 604807628, 770255983, 1249150122, 1555081692, 1996064986,
      2554220882, 2821834349, 2952996808, 3210313671, 3336571891, 3584528711, 113926993, 338241895,
      666307205, 773529912, 1294757372, 1396182291, 1695183700, 1986661051, 2177026350, 2456956037,
      2730485921, 2820302411, 3259730800, 3345764771, 3516065817, 3600352804, 4094571909, 275423344,
      430227734, 506948616, 659060556, 883997877, 958139571, 1322822218, 1537002063, 1747873779,
      1955562222, 2024104815, 2227730452, 2361852424, 2428436474, 2756734187, 3204031479, 3329325298]"

definition sha_init :: "u32 list" where
  "sha_init = [1779033703, 3144134277, 1013904242, 2773480762, 1359893119, 2600822924, 528734635, 1541459225]"

definition rotr :: "nat \<Rightarrow> u32 \<Rightarrow> u32" where
  "rotr n x = drop_bit n x OR push_bit (32 - n) x"

definition sha_schedule_word :: "u32 list \<Rightarrow> nat \<Rightarrow> u32" where
  "sha_schedule_word w i =
     (let a = w ! (i - 15); b = w ! (i - 2);
          s0 = rotr 7 a XOR rotr 18 a XOR drop_bit 3 a;
          s1 = rotr 17 b XOR rotr 19 b XOR drop_bit 10 b
      in w ! (i - 16) + s0 + w ! (i - 7) + s1)"

definition sha_schedule :: "bytes \<Rightarrow> u32 list" where
  "sha_schedule blk =
     fold (\<lambda>i w. w @ [sha_schedule_word w i]) [16..<64]
       (map (\<lambda>i. Uint32 (take 4 (drop (4 * i) blk))) [0..<16])"

fun sha_round :: "u32 \<times> u32 \<Rightarrow> u32 list \<Rightarrow> u32 list" where
  "sha_round (k, w) [a, b, c, d, e, f, g, h] =
     (let s1 = rotr 6 e XOR rotr 11 e XOR rotr 25 e;
          ch = (e AND f) XOR (NOT e AND g);
          t1 = h + s1 + ch + k + w;
          s0 = rotr 2 a XOR rotr 13 a XOR rotr 22 a;
          maj = (a AND b) XOR (a AND c) XOR (b AND c)
      in [t1 + s0 + maj, a, b, c, d + t1, e, f, g])"
| "sha_round _ s = s"

definition sha_block :: "u32 list \<Rightarrow> bytes \<Rightarrow> u32 list" where
  "sha_block hs blk = map2 (+) hs (fold sha_round (zip sha_k (sha_schedule blk)) hs)"

definition sha_pad :: "bytes \<Rightarrow> bytes" where
  "sha_pad m =
     m @ [128] @ replicate ((119 - length m mod 64) mod 64) 0 @
     map (\<lambda>i. of_nat ((8 * length m) div 256 ^ (7 - i))) [0..<8]"

function sha_blocks :: "u32 list \<Rightarrow> bytes \<Rightarrow> u32 list" where
  "sha_blocks hs m =
     (if m = [] then hs else sha_blocks (sha_block hs (take 64 m)) (drop 64 m))"
  by pat_completeness auto
termination
  by (relation "measure (\<lambda>(hs, m). length m)") (simp_all add: diff_less)

declare sha_blocks.simps [simp del]

definition sha256 :: "bytes \<Rightarrow> bytes" where
  "sha256 m = concat (map PutUint32 (sha_blocks sha_init (sha_pad m)))"

lemma length_sha_round: "length s = 8 \<Longrightarrow> length (sha_round kw s) = 8"
  by (induction kw s rule: sha_round.induct) (simp_all add: Let_def)

lemma length_sha_block: "length hs = 8 \<Longrightarrow> length (sha_block hs blk) = 8"
proof -
  assume "length hs = 8"
  moreover have "length s = 8 \<Longrightarrow> length (fold sha_round kws s) = 8" for kws s
    by (induction kws arbitrary: s) (simp_all add: length_sha_round)
  ultimately show ?thesis by (simp add: sha_block_def)
qed

lemma length_sha_blocks: "length hs = 8 \<Longrightarrow> length (sha_blocks hs m) = 8"
proof (induction hs m rule: sha_blocks.induct)
  case (1 hs m)
  then show ?case
    by (cases "m = []") (subst sha_blocks.simps, simp add: length_sha_block)+
qed

lemma length_sha256 [simp]: "length (sha256 m) = 32"
proof -
  have "length (sha_blocks sha_init (sha_pad m)) = 8"
    by (rule length_sha_blocks) (simp add: sha_init_def)
  moreover have "length (concat (map PutUint32 ws)) = 4 * length ws" for ws
    by (induction ws) simp_all
  ultimately show ?thesis by (simp add: sha256_def)
qed

end
