(* ===== verification/Http_Limits.thy ===== *)
theory Http_Limits
  imports Complex_Main Net_Addr GoTime SHA256
begin

text \<open>
  Who a request comes from and how often it may come: ratelimit.go and clientip.go of
  src/internal/httpd.

  The limiter's \<open>float64\<close> quantities are exact rationals here; the rounding of the
  floating-point additions is not modelled.
\<close>

subsection \<open>The token bucket\<close>

record bucket =
  b_tokens :: rat
  b_seen :: time

record limiter =
  l_buckets :: "Addr \<rightharpoonup> bucket"
  l_capacity :: rat
  l_refill :: rat

definition Seconds :: "int \<Rightarrow> rat" where
  "Seconds d = of_int d / of_int Second"

definition newLimiter :: "rat \<Rightarrow> int \<Rightarrow> limiter" where
  "newLimiter capacity per =
     \<lparr>l_buckets = Map.empty, l_capacity = capacity, l_refill = capacity / Seconds per\<rparr>"

definition allow :: "time \<Rightarrow> Addr \<Rightarrow> limiter \<Rightarrow> bool \<times> limiter" where
  "allow now addr l =
     (if \<not> IsValid addr then (True, l)
      else
        let b = (case l_buckets l addr of
                   Some b \<Rightarrow> b | None \<Rightarrow> \<lparr>b_tokens = l_capacity l, b_seen = now\<rparr>);
            tokens = min (l_capacity l) (b_tokens b + Seconds (now - b_seen b) * l_refill l)
        in if tokens < 1
           then (False, l\<lparr>l_buckets := (l_buckets l)(addr \<mapsto> \<lparr>b_tokens = tokens, b_seen = now\<rparr>)\<rparr>)
           else (True, l\<lparr>l_buckets := (l_buckets l)(addr \<mapsto> \<lparr>b_tokens = tokens - 1, b_seen = now\<rparr>)\<rparr>))"

definition sweepLimiter :: "time \<Rightarrow> limiter \<Rightarrow> limiter" where
  "sweepLimiter now l = l\<lparr>l_buckets := (\<lambda>addr.
     case l_buckets l addr of
       None \<Rightarrow> None
     | Some b \<Rightarrow>
         if b_tokens b + Seconds (now - b_seen b) * l_refill l \<ge> l_capacity l then None else Some b)\<rparr>"

subsection \<open>The client address\<close>

text \<open>\<open>header\<close> is \<open>req.Header.Get\<close>, which gives the empty string for an absent header.\<close>

type_synonym header = "string \<Rightarrow> string"

record clientIPResolver =
  r_trusted :: "Prefix list"
  r_realIPHeader :: string

fun parsePrefixes :: "string list \<Rightarrow> Prefix list res" where
  "parsePrefixes [] = Inr []"
| "parsePrefixes (c # cs) =
     (case ParsePrefix (TrimSpace c) of
        None \<Rightarrow> Inl (Other ''netip.ParsePrefix'')
      | Some p \<Rightarrow> (case parsePrefixes cs of Inl e \<Rightarrow> Inl e | Inr ps \<Rightarrow> Inr (p # ps)))"

definition newClientIPResolver :: "string list \<Rightarrow> string \<Rightarrow> clientIPResolver res" where
  "newClientIPResolver cidrs realIPHeader =
     (case parsePrefixes cidrs of
        Inl e \<Rightarrow> Inl e
      | Inr ps \<Rightarrow> Inr \<lparr>r_trusted = ps, r_realIPHeader = realIPHeader\<rparr>)"

definition trusts :: "clientIPResolver \<Rightarrow> Addr \<Rightarrow> bool" where
  "trusts r addr \<longleftrightarrow> list_ex (\<lambda>p. PrefixContains p addr) (r_trusted r)"

definition peerAddr :: "string \<Rightarrow> Addr" where
  "peerAddr remoteAddr =
     (let host = (case SplitHost remoteAddr of Some h \<Rightarrow> h | None \<Rightarrow> remoteAddr) in
      case ParseAddr host of None \<Rightarrow> NoAddr | Some a \<Rightarrow> Unmap a)"

text \<open>The walk over X-Forwarded-For from the right; the argument is the reversed list of hops.\<close>

fun walkHops :: "clientIPResolver \<Rightarrow> Addr \<Rightarrow> string list \<Rightarrow> Addr" where
  "walkHops r peer [] = peer"
| "walkHops r peer (h # hs) =
     (case ParseAddr (TrimSpace h) of
        None \<Rightarrow> walkHops r peer hs
      | Some a \<Rightarrow> if \<not> trusts r a then a else walkHops r peer hs)"

definition resolve :: "clientIPResolver \<Rightarrow> string \<Rightarrow> header \<Rightarrow> Addr" where
  "resolve r remoteAddr header =
     (let peer = peerAddr remoteAddr;
          walk = walkHops r peer (rev (SplitByte (CHR '','') (header ''X-Forwarded-For''))) in
      if \<not> IsValid peer \<or> \<not> trusts r peer then peer
      else if r_realIPHeader r \<noteq> [] then
        (case ParseAddr (TrimSpace (header (r_realIPHeader r))) of
           Some a \<Rightarrow> Unmap a
         | None \<Rightarrow> walk)
      else walk)"

text \<open>\<open>hmac.New(sha256.New, key)\<close>: the key is hashed when longer than a block, then padded.\<close>

definition hmac_sha256 :: "bytes \<Rightarrow> bytes \<Rightarrow> bytes" where
  "hmac_sha256 key msg =
     (let k0 = (if length key > 64 then sha256 key else key);
          k = k0 @ replicate (64 - length k0) 0
      in sha256 (map (\<lambda>b. b XOR 0x5c) k @ sha256 (map (\<lambda>b. b XOR 0x36) k @ msg)))"

definition hashIP :: "bytes \<Rightarrow> Addr \<Rightarrow> bytes" where
  "hashIP key addr = (if \<not> IsValid addr then [] else hmac_sha256 key (AsSlice addr))"

end
