(* ===== verification/Json.thy ===== *)
theory Json
  imports GoStrings "HOL-Library.Char_ord" "HOL-Library.List_Lexorder"
begin

text \<open>
  What the program uses of Go's \<open>encoding/json\<close>: the encoder with its escapes for HTML, the
  scanner and parser with their limit on nesting, and the rules by which a document is stored
  in a variable.  The decoders of the particular request types are in Http\_Api.
\<close>

subsection \<open>Encoding\<close>

text \<open>\<open>JObj\<close> is a struct, whose fields keep their order, \<open>JMap\<close> a map, whose keys are sorted.\<close>

datatype json =
    JNull | JBool bool | JInt int | JStr string | JArr "json list"
  | JObj "(string \<times> json) list" | JMap "(string \<times> json) list"

definition json_escape :: "char \<Rightarrow> string" where
  "json_escape c =
     (let n = of_char c :: nat in
      if c = dquote \<or> c = bslash then [bslash, c]
      else if n = 8 then [bslash, CHR ''b''] else if n = 12 then [bslash, CHR ''f'']
      else if n = 10 then [bslash, CHR ''n''] else if n = 13 then [bslash, CHR ''r'']
      else if n = 9 then [bslash, CHR ''t'']
      else if n < 32 \<or> n = 60 \<or> n = 62 \<or> n = 38
      then [bslash, CHR ''u'', CHR ''0'', CHR ''0'', hex_digit (n div 16), hex_digit (n mod 16)]
      else [c])"

definition line_separator :: string where "line_separator = str [226, 128, 168]"
definition paragraph_separator :: string where "paragraph_separator = str [226, 128, 169]"

definition json_rune :: "string option \<Rightarrow> string" where
  "json_rune r =
     (case r of
        None \<Rightarrow> bslash # ''ufffd''
      | Some cs \<Rightarrow>
          if length cs = 1 then json_escape (hd cs)
          else if cs = line_separator then bslash # ''u2028''
          else if cs = paragraph_separator then bslash # ''u2029''
          else cs)"

definition json_string :: "string \<Rightarrow> string" where
  "json_string s = [dquote] @ concat (map json_rune (runes s)) @ [dquote]"

definition json_fields :: "(string \<times> string) list \<Rightarrow> string" where
  "json_fields fs = ''{'' @ join '','' (map (\<lambda>(k, v). json_string k @ '':'' @ v) fs) @ ''}''"

primrec Marshal :: "json \<Rightarrow> string" where
  "Marshal JNull = ''null''"
| "Marshal (JBool b) = (if b then ''true'' else ''false'')"
| "Marshal (JInt i) = FormatInt i"
| "Marshal (JStr s) = json_string s"
| "Marshal (JArr vs) = ''['' @ join '','' (map Marshal vs) @ '']''"
| "Marshal (JObj fs) = json_fields (map (map_prod id Marshal) fs)"
| "Marshal (JMap fs) = json_fields (sort_key fst (map (map_prod id Marshal) fs))"

text \<open>\<open>Encoder.Encode\<close> ends the value with a newline.\<close>

definition EncodeJSON :: "json \<Rightarrow> string" where
  "EncodeJSON j = Marshal j @ [CHR 0x0A]"

subsection \<open>Lexical analysis\<close>

datatype token =
    TLBrace | TRBrace | TLBrack | TRBrack | TColon | TComma
  | TNull | TTrue | TFalse | TStr string | TNum string

definition json_space :: "char \<Rightarrow> bool" where
  "json_space c \<longleftrightarrow> (of_char c :: nat) \<in> {32, 9, 13, 10}"

text \<open>The UTF-8 encoding of a code point (\<open>utf8.AppendRune\<close>).\<close>

definition encode_rune :: "nat \<Rightarrow> string" where
  "encode_rune n =
     (if n < 128 then str [n]
      else if n < 2048 then str [192 + n div 64, 128 + n mod 64]
      else if 55296 \<le> n \<and> n < 57344 then rune_error
      else if n < 65536 then str [224 + n div 4096, 128 + n div 64 mod 64, 128 + n mod 64]
      else if n < 1114112
      then str [240 + n div 262144, 128 + n div 4096 mod 64, 128 + n div 64 mod 64, 128 + n mod 64]
      else rune_error)"

definition hex4 :: "string \<Rightarrow> (nat \<times> string) option" where
  "hex4 s =
     (case s of
        a # b # c # d # r \<Rightarrow>
          (case (hex_value a, hex_value b, hex_value c, hex_value d) of
             (Some w, Some x, Some y, Some z) \<Rightarrow> Some (4096 * w + 256 * x + 16 * y + z, r)
           | _ \<Rightarrow> None)
      | _ \<Rightarrow> None)"

text \<open>
  An escape after its backslash.  A surrogate that is not followed by its other half stands for
  the replacement character, and what follows it is read on its own.
\<close>

definition unescape_u :: "string \<Rightarrow> (string \<times> string) option" where
  "unescape_u s =
     (case hex4 s of
        None \<Rightarrow> None
      | Some (x, r) \<Rightarrow>
          if 55296 \<le> x \<and> x < 57344 then
            (case r of
               b # u # t \<Rightarrow>
                 (case (if b = bslash \<and> u = CHR ''u'' then hex4 t else None) of
                    Some (y, r') \<Rightarrow>
                      if x < 56320 \<and> 56320 \<le> y \<and> y < 57344
                      then Some (encode_rune (65536 + (x - 55296) * 1024 + (y - 56320)), r')
                      else Some (rune_error, r)
                  | None \<Rightarrow> Some (rune_error, r))
             | _ \<Rightarrow> Some (rune_error, r))
          else Some (encode_rune x, r))"

definition unescape :: "string \<Rightarrow> (string \<times> string) option" where
  "unescape s =
     (case s of
        [] \<Rightarrow> None
      | c # r \<Rightarrow>
          if c = dquote \<or> c = bslash \<or> c = CHR ''/'' then Some ([c], r)
          else if c = CHR ''b'' then Some ([CHR 0x08], r)
          else if c = CHR ''f'' then Some ([CHR 0x0C], r)
          else if c = CHR ''n'' then Some ([CHR 0x0A], r)
          else if c = CHR ''r'' then Some ([CHR 0x0D], r)
          else if c = CHR ''t'' then Some ([CHR 0x09], r)
          else if c = CHR ''u'' then unescape_u r
          else None)"

lemma hex4_shorter: "hex4 s = Some (x, r) \<Longrightarrow> length r < length s"
  by (auto simp: hex4_def split: list.splits option.splits)

lemma unescape_shorter: "unescape s = Some (x, r) \<Longrightarrow> length r < length s"
proof (cases s)
  case (Cons c t)
  assume "unescape s = Some (x, r)"
  moreover have "unescape_u t = Some (x, r) \<Longrightarrow> length r \<le> length t"
    by (auto simp: unescape_u_def dest!: hex4_shorter split: option.splits list.splits if_splits)
  ultimately show ?thesis using Cons by (auto simp: unescape_def split: if_splits)
qed (simp add: unescape_def)

text \<open>The rest of a string literal, after its opening quote: its value and what follows it.\<close>

function lex_string :: "string \<Rightarrow> (string \<times> string) option" where
  "lex_string s =
     (case s of
        [] \<Rightarrow> None
      | c # r \<Rightarrow>
          if c = dquote then Some ([], r)
          else if c = bslash then
            (case unescape r of
               None \<Rightarrow> None
             | Some (x, r') \<Rightarrow> map_option (apfst ((@) x)) (lex_string r'))
          else if of_char c < (32 :: nat) then None
          else
            (case rune_width s of
               None \<Rightarrow> map_option (apfst ((@) rune_error)) (lex_string r)
             | Some w \<Rightarrow> map_option (apfst ((@) (take w s))) (lex_string (drop w s))))"
  by pat_completeness auto
termination
  by (relation "measure length") (auto dest: unescape_shorter rune_width_pos [THEN conjunct1])

declare lex_string.simps [simp del]

definition lex_fraction :: "string \<Rightarrow> (string \<times> string) option" where
  "lex_fraction s =
     (case s of
        c # r \<Rightarrow>
          if c = CHR ''.'' then
            let ds = takeWhile is_digit r in
            if ds = [] then None else Some (c # ds, drop (length ds) r)
          else Some ([], s)
      | [] \<Rightarrow> Some ([], s))"

definition lex_exponent :: "string \<Rightarrow> (string \<times> string) option" where
  "lex_exponent s =
     (case s of
        c # r \<Rightarrow>
          if c = CHR ''e'' \<or> c = CHR ''E'' then
            let sg = (case r of x # _ \<Rightarrow> if x = CHR ''+'' \<or> x = CHR ''-'' then [x] else [] | [] \<Rightarrow> []);
                r1 = drop (length sg) r; ds = takeWhile is_digit r1 in
            if ds = [] then None else Some (c # sg @ ds, drop (length ds) r1)
          else Some ([], s)
      | [] \<Rightarrow> Some ([], s))"

definition lex_number :: "string \<Rightarrow> (string \<times> string) option" where
  "lex_number s =
     (let sg = (case s of c # _ \<Rightarrow> if c = CHR ''-'' then [c] else [] | [] \<Rightarrow> []);
          r0 = drop (length sg) s in
      case r0 of
        [] \<Rightarrow> None
      | c # _ \<Rightarrow>
          if \<not> is_digit c then None
          else
            let ip = (if c = CHR ''0'' then [c] else takeWhile is_digit r0) in
            case lex_fraction (drop (length ip) r0) of
              None \<Rightarrow> None
            | Some (fp, r1) \<Rightarrow>
                (case lex_exponent r1 of
                   None \<Rightarrow> None
                 | Some (ep, r2) \<Rightarrow> Some (sg @ ip @ fp @ ep, r2)))"

text \<open>The next token and the rest of the input; no token is empty.\<close>

definition lex_word :: "string \<Rightarrow> token \<Rightarrow> string \<Rightarrow> (token \<times> string) option" where
  "lex_word w t s = (if HasPrefix s w then Some (t, drop (length w) s) else None)"

definition lex :: "string \<Rightarrow> (token \<times> string) option" where
  "lex s0 =
     (let s = dropWhile json_space s0 in
      case s of
        [] \<Rightarrow> None
      | c # r \<Rightarrow>
          if c = CHR ''{'' then Some (TLBrace, r) else if c = CHR ''}'' then Some (TRBrace, r)
          else if c = CHR ''['' then Some (TLBrack, r) else if c = CHR '']'' then Some (TRBrack, r)
          else if c = CHR '':'' then Some (TColon, r) else if c = CHR '','' then Some (TComma, r)
          else if c = dquote then map_option (apfst TStr) (lex_string r)
          else if c = CHR ''n'' then lex_word ''null'' TNull s
          else if c = CHR ''t'' then lex_word ''true'' TTrue s
          else if c = CHR ''f'' then lex_word ''false'' TFalse s
          else map_option (apfst TNum) (lex_number s))"

lemma lex_string_shorter: "lex_string s = Some (x, r) \<Longrightarrow> length r < length s"
proof (induction s arbitrary: x r rule: lex_string.induct)
  case (1 s)
  show ?case
  proof (cases s)
    case Nil
    then show ?thesis using "1.prems" by (simp add: lex_string.simps)
  next
    case (Cons c t)
    consider "c = dquote" | "c \<noteq> dquote" "c = bslash"
      | "c \<noteq> dquote" "c \<noteq> bslash" "\<not> of_char c < (32 :: nat)" "rune_width s = None"
      | w where "c \<noteq> dquote" "c \<noteq> bslash" "\<not> of_char c < (32 :: nat)" "rune_width s = Some w"
      using "1.prems" Cons by (subst (asm) lex_string.simps) (auto split: if_splits option.splits)
    then show ?thesis
    proof cases
      case 1
      then show ?thesis using "1.prems" Cons by (simp add: lex_string.simps)
    next
      case 2
      then obtain y t' z where t': "unescape t = Some (y, t')" "lex_string t' = Some (z, r)"
        using "1.prems" Cons by (subst (asm) lex_string.simps) (auto split: option.splits)
      with "1.IH"(1) [OF Cons 2(1,2) t'(1) refl t'(2)] unescape_shorter [OF t'(1)] Cons
      show ?thesis by simp
    next
      case 3
      then obtain z where "lex_string t = Some (z, r)"
        using "1.prems" Cons by (subst (asm) lex_string.simps) auto
      from "1.IH"(2) [OF Cons 3(1-4) this] Cons show ?thesis by simp
    next
      case 4
      then obtain z where "lex_string (drop w s) = Some (z, r)"
        using "1.prems" Cons by (subst (asm) lex_string.simps) auto
      from "1.IH"(3) [OF Cons 4(1-4) this] show ?thesis by simp
    qed
  qed
qed

lemma lex_fraction_le: "lex_fraction s = Some (x, r) \<Longrightarrow> length r \<le> length s"
  by (auto simp: lex_fraction_def Let_def split: list.splits if_splits)

lemma lex_exponent_le: "lex_exponent s = Some (x, r) \<Longrightarrow> length r \<le> length s"
  by (auto simp: lex_exponent_def Let_def split: list.splits if_splits)

lemma lex_number_shorter: "lex_number s = Some (x, r) \<Longrightarrow> length r < length s"
proof -
  assume a: "lex_number s = Some (x, r)"
  define sg where "sg = (case s of c # _ \<Rightarrow> if c = CHR ''-'' then [c] else [] | [] \<Rightarrow> [])"
  obtain c t where ct: "drop (length sg) s = c # t"
    using a by (auto simp: lex_number_def Let_def sg_def [symmetric] split: list.splits)
  define ip where "ip = (if c = CHR ''0'' then [c] else takeWhile is_digit (drop (length sg) s))"
  have d: "is_digit c" using a ct by (auto simp: lex_number_def Let_def sg_def [symmetric] split: if_splits)
  obtain fp r1 ep where "lex_fraction (drop (length ip) (c # t)) = Some (fp, r1)" "lex_exponent r1 = Some (ep, r)"
    using a ct d by (auto simp: lex_number_def Let_def sg_def [symmetric] ip_def [symmetric] split: option.splits)
  then have "length r \<le> length (c # t) - length ip"
    using lex_fraction_le lex_exponent_le by (metis le_trans length_drop)
  moreover have "0 < length ip" using d by (simp add: ip_def ct)
  moreover have "length (c # t) \<le> length s" using ct by (metis length_drop diff_le_self)
  ultimately show ?thesis by (cases ip) auto
qed

lemma lex_shorter: "lex s = Some (t, r) \<Longrightarrow> length r < length s"
proof -
  assume a: "lex s = Some (t, r)"
  then obtain c u where cu: "dropWhile json_space s = c # u" by (auto simp: lex_def Let_def split: list.splits)
  have le: "length (c # u) \<le> length s" using cu length_dropWhile_le [of json_space s] by simp
  have "length r < length (c # u)"
    using a cu by (auto simp: lex_def Let_def lex_word_def HasPrefix_def split: if_splits
        dest!: lex_string_shorter lex_number_shorter)
  with le show ?thesis by simp
qed

subsection \<open>Parsing\<close>

text \<open>Documents as received: numbers are kept as they were written.\<close>

datatype jval = VNull | VBool bool | VNum string | VStr string | VArr "jval list" | VObj "(string \<times> jval) list"

text \<open>
  The containers that are open (\<open>parseState\<close>), innermost first: an array with the elements so
  far, an object before a key or before the value of a key; and what the next token may be.
\<close>

datatype frame = InArr "jval list" | InKey "(string \<times> jval) list" | InVal "(string \<times> jval) list" string

datatype mode = NeedValue | ValueOrEnd | KeyOrEnd | NeedKey | NeedColon string | Have jval

definition maxNestingDepth :: nat where "maxNestingDepth = 10000"

definition push :: "frame \<Rightarrow> mode \<Rightarrow> frame list \<Rightarrow> (frame list \<times> mode) option" where
  "push f m st = (if length st < maxNestingDepth then Some (f # st, m) else None)"

fun begin_value :: "token \<Rightarrow> frame list \<Rightarrow> (frame list \<times> mode) option" where
  "begin_value TLBrace st = push (InKey []) KeyOrEnd st"
| "begin_value TLBrack st = push (InArr []) ValueOrEnd st"
| "begin_value TNull st = Some (st, Have VNull)"
| "begin_value TTrue st = Some (st, Have (VBool True))"
| "begin_value TFalse st = Some (st, Have (VBool False))"
| "begin_value (TStr s) st = Some (st, Have (VStr s))"
| "begin_value (TNum s) st = Some (st, Have (VNum s))"
| "begin_value _ st = None"

fun after_value :: "jval \<Rightarrow> token \<Rightarrow> frame list \<Rightarrow> (frame list \<times> mode) option" where
  "after_value v TComma (InArr vs # st) = Some (InArr (vs @ [v]) # st, NeedValue)"
| "after_value v TRBrack (InArr vs # st) = Some (st, Have (VArr (vs @ [v])))"
| "after_value v TComma (InVal ps k # st) = Some (InKey (ps @ [(k, v)]) # st, NeedKey)"
| "after_value v TRBrace (InVal ps k # st) = Some (st, Have (VObj (ps @ [(k, v)])))"
| "after_value v _ _ = None"

fun parse_token :: "mode \<Rightarrow> token \<Rightarrow> frame list \<Rightarrow> (frame list \<times> mode) option" where
  "parse_token NeedValue t st = begin_value t st"
| "parse_token ValueOrEnd t st =
     (case (t, st) of
        (TRBrack, InArr vs # st') \<Rightarrow> Some (st', Have (VArr vs))
      | _ \<Rightarrow> begin_value t st)"
| "parse_token KeyOrEnd t st =
     (case (t, st) of
        (TRBrace, InKey ps # st') \<Rightarrow> Some (st', Have (VObj ps))
      | (TStr k, _) \<Rightarrow> Some (st, NeedColon k)
      | _ \<Rightarrow> None)"
| "parse_token NeedKey t st = (case t of TStr k \<Rightarrow> Some (st, NeedColon k) | _ \<Rightarrow> None)"
| "parse_token (NeedColon k) t st =
     (case (t, st) of
        (TColon, InKey ps # st') \<Rightarrow> Some (InVal ps k # st', NeedValue)
      | _ \<Rightarrow> None)"
| "parse_token (Have v) t st = after_value v t st"

text \<open>The first value of the input and what follows it.\<close>

function parse :: "frame list \<Rightarrow> mode \<Rightarrow> string \<Rightarrow> (jval \<times> string) option" where
  "parse st m s =
     (case (st, m) of
        ([], Have v) \<Rightarrow> Some (v, s)
      | _ \<Rightarrow>
          (case lex s of
             None \<Rightarrow> None
           | Some (t, r) \<Rightarrow>
               (case parse_token m t st of None \<Rightarrow> None | Some (st', m') \<Rightarrow> parse st' m' r)))"
  by pat_completeness auto
termination
  by (relation "measure (\<lambda>(st, m, s). length s)") (auto dest: lex_shorter)

declare parse.simps [simp del]

definition ParseJSON :: "string \<Rightarrow> (jval \<times> string) option" where
  "ParseJSON s = parse [] NeedValue s"

text \<open>
  \<open>Decoder.Decode\<close> reads one value and ignores what follows; a value that is not a container
  ends only with the byte after it or with the end of the input, not with a transport error
  (\<open>broken\<close>).  \<open>Unmarshal\<close> wants the whole input to be one value.
\<close>

fun container :: "jval \<Rightarrow> bool" where
  "container (VArr vs) = True" | "container (VObj ps) = True" | "container _ = False"

definition ReadValue :: "bytes \<Rightarrow> bool \<Rightarrow> jval option" where
  "ReadValue b broken =
     (case ParseJSON (string_of b) of
        None \<Rightarrow> None
      | Some (v, r) \<Rightarrow> if container v \<or> r \<noteq> [] \<or> \<not> broken then Some v else None)"

definition WholeValue :: "bytes \<Rightarrow> jval option" where
  "WholeValue b =
     (case ParseJSON (string_of b) of
        None \<Rightarrow> None
      | Some (v, r) \<Rightarrow> if dropWhile json_space r = [] then Some v else None)"

subsection \<open>Storing a document\<close>

text \<open>
  \<open>null\<close> leaves a variable as it is; a mismatch of types, a number out of range and (for the
  request types) an unknown field are errors.
\<close>

fun store_string :: "jval \<Rightarrow> string \<Rightarrow> string option" where
  "store_string VNull old = Some old" | "store_string (VStr s) old = Some s" | "store_string _ old = None"

fun store_bool :: "jval \<Rightarrow> bool \<Rightarrow> bool option" where
  "store_bool VNull old = Some old" | "store_bool (VBool b) old = Some b" | "store_bool _ old = None"

fun store_int :: "jval \<Rightarrow> int \<Rightarrow> int option" where
  "store_int VNull old = Some old" | "store_int (VNum s) old = ParseInt s" | "store_int _ old = None"

text \<open>
  A key matches an ASCII field name if their case foldings agree.  Besides the ASCII letters the
  Kelvin sign and the long s fold to ASCII.
\<close>

definition upper_byte :: "char \<Rightarrow> char" where
  "upper_byte c =
     (if 97 \<le> (of_char c :: nat) \<and> (of_char c :: nat) \<le> 122 then char_of (of_char c - 32 :: nat) else c)"

definition fold_rune :: "string option \<Rightarrow> string" where
  "fold_rune r =
     (case r of
        None \<Rightarrow> rune_error
      | Some cs \<Rightarrow>
          if cs = str [226, 132, 170] then ''K'' else if cs = str [197, 191] then ''S''
          else map upper_byte cs)"

definition foldName :: "string \<Rightarrow> string" where
  "foldName s = concat (map fold_rune (runes s))"

text \<open>The members of an object in order, each stored in its field of a struct.\<close>

fun store_fields :: "(string \<Rightarrow> jval \<Rightarrow> 'a \<Rightarrow> 'a option) \<Rightarrow> (string \<times> jval) list \<Rightarrow> 'a \<Rightarrow> 'a option" where
  "store_fields f [] x = Some x"
| "store_fields f ((k, v) # ps) x =
     (case f (foldName k) v x of None \<Rightarrow> None | Some y \<Rightarrow> store_fields f ps y)"

fun store_struct :: "(string \<Rightarrow> jval \<Rightarrow> 'a \<Rightarrow> 'a option) \<Rightarrow> jval \<Rightarrow> 'a \<Rightarrow> 'a option" where
  "store_struct f VNull x = Some x"
| "store_struct f (VObj ps) x = store_fields f ps x"
| "store_struct f _ x = None"

text \<open>
  A slice is stored in the array behind it: an element that was there before, from an earlier
  member of the same name, is the starting point of the new one.  The result is that array and
  the length of the slice; an empty document array makes a new slice.
\<close>

fun store_elems :: "(jval \<Rightarrow> 'a \<Rightarrow> 'a option) \<Rightarrow> 'a \<Rightarrow> jval list \<Rightarrow> 'a list \<Rightarrow> 'a list option" where
  "store_elems f z [] old = Some old"
| "store_elems f z (v # vs) old =
     (case (f v (case old of [] \<Rightarrow> z | x # _ \<Rightarrow> x), store_elems f z vs (drop 1 old)) of
        (Some x, Some xs) \<Rightarrow> Some (x # xs)
      | _ \<Rightarrow> None)"

fun store_slice :: "(jval \<Rightarrow> 'a \<Rightarrow> 'a option) \<Rightarrow> 'a \<Rightarrow> jval \<Rightarrow> 'a list \<times> nat \<Rightarrow> ('a list \<times> nat) option" where
  "store_slice f z VNull old = Some ([], 0)"
| "store_slice f z (VArr vs) old =
     (if vs = [] then Some ([], 0) else map_option (\<lambda>xs. (xs, length vs)) (store_elems f z vs (fst old)))"
| "store_slice f z _ old = None"

text \<open>A \<open>map[string]string\<close>, its keys as written; \<open>null\<close> for a member stores the empty string.\<close>

fun store_members :: "(string \<times> jval) list \<Rightarrow> (string \<times> string) list \<Rightarrow> (string \<times> string) list option" where
  "store_members [] m = Some m"
| "store_members ((k, v) # ps) m =
     (case store_string v [] of
        None \<Rightarrow> None
      | Some t \<Rightarrow> store_members ps ((k, t) # filter (\<lambda>e. fst e \<noteq> k) m))"

fun store_map :: "jval \<Rightarrow> (string \<times> string) list option" where
  "store_map VNull = Some []"
| "store_map (VObj ps) = store_members ps []"
| "store_map _ = None"

end
