(* ===== verification/Aead.thy ===== *)
theory Aead
  imports Prelude
begin

text \<open>
  The interface the package \<open>cryptobox\<close> uses of \<open>crypto/cipher.AEAD\<close>: \<open>Seal\<close> and \<open>Open\<close>
  under a \<open>KeySize\<close>-byte key and a \<open>nonceSize\<close>-byte nonce, with additional data.  The laws
  are functional ones: a sealed text is \<open>TagSize\<close> bytes longer than its plaintext, \<open>Open\<close>
  accepts exactly what \<open>Seal\<close> produced, and nothing sealed under one nonce opens under
  another nonce of the same key.  The last law needs no cryptographic assumption for GCM
  (theory AES\_GCM): the tag is a fixed function of the ciphertext, masked by the encrypted
  nonce block, and a block cipher is injective.
\<close>

text \<open>Sizes from src/internal/cryptobox/stream.go.\<close>

definition ChunkSize :: nat where "ChunkSize = 2 ^ 20"
definition TagSize :: nat where "TagSize = 16"
definition KeySize :: nat where "KeySize = 32"
definition noncePrefixSize :: nat where "noncePrefixSize = 7"
definition nonceSize :: nat where "nonceSize = 12"
definition headerSize :: nat where "headerSize = 12"
definition formatVersion :: byte where "formatVersion = 1"

lemmas size_defs = TagSize_def KeySize_def noncePrefixSize_def nonceSize_def headerSize_def

lemma ChunkSize_pos [simp]: "0 < ChunkSize"
  by (simp add: ChunkSize_def)

lemma ChunkSize_neq_0 [simp]: "ChunkSize \<noteq> 0"
  by (simp add: ChunkSize_def)

locale aead =
  fixes seal :: "bytes \<Rightarrow> bytes \<Rightarrow> bytes \<Rightarrow> bytes \<Rightarrow> bytes"
    and opn :: "bytes \<Rightarrow> bytes \<Rightarrow> bytes \<Rightarrow> bytes \<Rightarrow> bytes option"
  assumes seal_length:
      "length k = KeySize \<Longrightarrow> length n = nonceSize \<Longrightarrow>
       length (seal k n p a) = length p + TagSize"
    and open_iff:
      "length k = KeySize \<Longrightarrow> length n = nonceSize \<Longrightarrow>
       opn k n c a = Some p \<longleftrightarrow> c = seal k n p a"
    and nonce_separation:
      "length k = KeySize \<Longrightarrow> length n = nonceSize \<Longrightarrow> length n' = nonceSize \<Longrightarrow>
       n \<noteq> n' \<Longrightarrow> opn k n' (seal k n p a) a = None"
begin

lemma open_seal:
  "length k = KeySize \<Longrightarrow> length n = nonceSize \<Longrightarrow> opn k n (seal k n p a) a = Some p"
  by (simp add: open_iff)

lemma open_length:
  "length k = KeySize \<Longrightarrow> length n = nonceSize \<Longrightarrow> opn k n c a = Some p \<Longrightarrow>
   length c = length p + TagSize"
  by (auto simp: open_iff seal_length)

lemma open_short:
  assumes "length k = KeySize" "length n = nonceSize" "length c < TagSize"
  shows "opn k n c a = None"
proof (cases "opn k n c a")
  case (Some p)
  with assms have "length c = length p + TagSize" by (intro open_length)
  with assms show ?thesis by simp
qed

lemma seal_inject:
  assumes "length k = KeySize" "length n = nonceSize" "seal k n p a = seal k n q a"
  shows "p = q"
  using open_seal [OF assms(1,2)] assms(3) by (metis option.inject)

text \<open>Two sealings of one key agree only if their nonces do.\<close>

lemma seal_nonce_inject:
  assumes "length k = KeySize" "length n = nonceSize" "length n' = nonceSize"
    and "seal k n p a = seal k n' q a"
  shows "n = n' \<and> p = q"
proof (cases "n = n'")
  case True
  with assms show ?thesis by (metis seal_inject)
next
  case False
  have "opn k n' (seal k n' q a) a = Some q" by (rule open_seal) (use assms in auto)
  moreover have "opn k n' (seal k n p a) a = None"
    by (rule nonce_separation) (use assms False in auto)
  ultimately show ?thesis using assms(4) by (metis option.distinct(1))
qed

end

end
