(* ===== verification/AES_GCM.thy ===== *)
theory AES_GCM
  imports Aead
begin

unbundle bit_operations_syntax

text \<open>
  AES-256 in Galois/counter mode with 96-bit nonces and 128-bit tags, as \<open>crypto/aes\<close> and
  \<open>crypto/cipher.NewGCM\<close> of the Go standard library implement it (FIPS 197, NIST SP
  800-38D).  \<open>gcm_seal\<close> and \<open>gcm_open\<close> are the AEAD of the whole development; the final
  interpretation proves the laws of the locale \<open>aead\<close> for them.  What is proved of AES is
  that it permutes the 16-byte blocks; GHASH needs no property at all.

  The limit of \<open>2^32 - 2\<close> blocks per message, past which \<open>Seal\<close> panics, is not modelled:
  the callers seal at most one megabyte at a time.
\<close>

subsection \<open>The block cipher\<close>

definition sbox :: "nat list" where
  "sbox = [
   99, 124, 119, 123, 242, 107, 111, 197, 48, 1, 103, 43, 254, 215, 171, 118,
   202, 130, 201, 125, 250, 89, 71, 240, 173, 212, 162, 175, 156, 164, 114, 192,
   183, 253, 147, 38, 54, 63, 247, 204, 52, 165, 229, 241, 113, 216, 49, 21,
   4, 199, 35, 195, 24, 150, 5, 154, 7, 18, 128, 226, 235, 39, 178, 117,
   9, 131, 44, 26, 27, 110, 90, 160, 82, 59, 214, 179, 41, 227, 47, 132,
   83, 209, 0, 237, 32, 252, 177, 91, 106, 203, 190, 57, 74, 76, 88, 207,
   208, 239, 170, 251, 67, 77, 51, 133, 69, 249, 2, 127, 80, 60, 159, 168,
   81, 163, 64, 143, 146, 157, 56, 245, 188, 182, 218, 33, 16, 255, 243, 210,
   205, 12, 19, 236, 95, 151, 68, 23, 196, 167, 126, 61, 100, 93, 25, 115,
   96, 129, 79, 220, 34, 42, 144, 136, 70, 238, 184, 20, 222, 94, 11, 219,
   224, 50, 58, 10, 73, 6, 36, 92, 194, 211, 172, 98, 145, 149, 228, 121,
   231, 200, 55, 109, 141, 213, 78, 169, 108, 86, 244, 234, 101, 122, 174, 8,
   186, 120, 37, 46, 28, 166, 180, 198, 232, 221, 116, 31, 75, 189, 139, 138,
   112, 62, 181, 102, 72, 3, 246, 14, 97, 53, 87, 185, 134, 193, 29, 158,
   225, 248, 152, 17, 105, 217, 142, 148, 155, 30, 135, 233, 206, 85, 40, 223,
   140, 161, 137, 13, 191, 230, 66, 104, 65, 153, 45, 15, 176, 84, 187, 22]"

definition aes_sub :: "byte \<Rightarrow> byte" where
  "aes_sub b = of_nat (sbox ! unat b)"

definition xtime :: "byte \<Rightarrow> byte" where
  "xtime b = push_bit 1 b XOR (if bit b 7 then 0x1b else 0)"

definition SubBytes :: "bytes \<Rightarrow> bytes" where
  "SubBytes s = map aes_sub s"

definition ShiftRows :: "bytes \<Rightarrow> bytes" where
  "ShiftRows s = map (\<lambda>i. s ! i) [0, 5, 10, 15, 4, 9, 14, 3, 8, 13, 2, 7, 12, 1, 6, 11]"

definition mix_column :: "byte \<Rightarrow> byte \<Rightarrow> byte \<Rightarrow> byte \<Rightarrow> bytes" where
  "mix_column a b c d =
     [xtime a XOR xtime b XOR b XOR c XOR d,
      a XOR xtime b XOR xtime c XOR c XOR d,
      a XOR b XOR xtime c XOR xtime d XOR d,
      xtime a XOR a XOR b XOR c XOR xtime d]"

fun MixColumns :: "bytes \<Rightarrow> bytes" where
  "MixColumns (a # b # c # d # s) = mix_column a b c d @ MixColumns s"
| "MixColumns s = s"

definition aes_round :: "bytes \<Rightarrow> bytes \<Rightarrow> bytes" where
  "aes_round rk s = xor_bytes (MixColumns (ShiftRows (SubBytes s))) rk"

definition aes_last_round :: "bytes \<Rightarrow> bytes \<Rightarrow> bytes" where
  "aes_last_round rk s = xor_bytes (ShiftRows (SubBytes s)) rk"

text \<open>Key schedule: \<open>ws\<close> is the list of the 4-byte words so far, in order.\<close>

definition rcon :: "nat \<Rightarrow> byte" where
  "rcon i = (xtime ^^ (i - 1)) 1"

definition next_key_word :: "nat \<Rightarrow> bytes list \<Rightarrow> bytes" where
  "next_key_word i ws =
     (let prev = ws ! (i - 1);
          t = (if i mod 8 = 0 then xor_bytes (map aes_sub (rotate1 prev)) [rcon (i div 8), 0, 0, 0]
               else if i mod 8 = 4 then map aes_sub prev
               else prev)
      in xor_bytes (ws ! (i - 8)) t)"

fun words4 :: "bytes \<Rightarrow> bytes list" where
  "words4 (a # b # c # d # s) = [a, b, c, d] # words4 s"
| "words4 s = []"

definition expand_key :: "bytes \<Rightarrow> bytes list" where
  "expand_key k = fold (\<lambda>i ws. ws @ [next_key_word i ws]) [8..<60] (words4 k)"

definition round_key :: "bytes list \<Rightarrow> nat \<Rightarrow> bytes" where
  "round_key ws r = ws ! (4 * r) @ ws ! (4 * r + 1) @ ws ! (4 * r + 2) @ ws ! (4 * r + 3)"

definition aes256 :: "bytes \<Rightarrow> bytes \<Rightarrow> bytes" where
  "aes256 k s =
     (let ws = expand_key k in
      aes_last_round (round_key ws 14)
        (fold (\<lambda>r. aes_round (round_key ws r)) [1..<14] (xor_bytes s (round_key ws 0))))"

subsection \<open>Galois/counter mode\<close>

type_synonym block = "128 word"

definition block_of_bytes :: "bytes \<Rightarrow> block" where
  "block_of_bytes b =
     foldl (\<lambda>acc x. push_bit 8 acc OR ucast x) 0 (take 16 (b @ replicate 16 0))"

definition bytes_of_block :: "block \<Rightarrow> bytes" where
  "bytes_of_block w = map (\<lambda>i. ucast (drop_bit (8 * (15 - i)) w)) [0..<16]"

text \<open>Multiplication in the field of GHASH; bit 127 is the coefficient of the constant.\<close>

definition gf_mul :: "block \<Rightarrow> block \<Rightarrow> block" where
  "gf_mul x y = fst (fold
     (\<lambda>i (z, v). (if bit x (127 - i) then z XOR v else z,
                  if bit v 0 then drop_bit 1 v XOR push_bit 120 0xe1 else drop_bit 1 v))
     [0..<128] (0, y))"

function ghash_blocks :: "block \<Rightarrow> block \<Rightarrow> bytes \<Rightarrow> block" where
  "ghash_blocks h y b =
     (if b = [] then y
      else ghash_blocks h (gf_mul (y XOR block_of_bytes (take 16 b)) h) (drop 16 b))"
  by pat_completeness auto
termination
  by (relation "measure (\<lambda>(h, y, b). length b)") (simp_all add: diff_less)

declare ghash_blocks.simps [simp del]

definition ghash :: "block \<Rightarrow> bytes \<Rightarrow> bytes \<Rightarrow> block" where
  "ghash h a c =
     (let y = ghash_blocks h (ghash_blocks h 0 a) c;
          lens = push_bit 64 (of_nat (8 * length a)) OR of_nat (8 * length c)
      in gf_mul (y XOR lens) h)"

function ctr_xor :: "bytes \<Rightarrow> bytes \<Rightarrow> u32 \<Rightarrow> bytes \<Rightarrow> bytes" where
  "ctr_xor k n c p =
     (if p = [] then []
      else xor_bytes (take 16 p) (aes256 k (n @ PutUint32 c)) @ ctr_xor k n (c + 1) (drop 16 p))"
  by pat_completeness auto
termination
  by (relation "measure (\<lambda>(k, n, c, p). length p)") (simp_all add: diff_less)

declare ctr_xor.simps [simp del]

lemma ctr_xor_Nil [simp]: "ctr_xor k n c [] = []"
  by (simp add: ctr_xor.simps)

definition gcm_tag :: "bytes \<Rightarrow> bytes \<Rightarrow> bytes \<Rightarrow> bytes \<Rightarrow> bytes" where
  "gcm_tag k n c a =
     (let h = block_of_bytes (aes256 k (replicate 16 0)) in
      xor_bytes (aes256 k (n @ PutUint32 1)) (bytes_of_block (ghash h a c)))"

definition gcm_seal :: "bytes \<Rightarrow> bytes \<Rightarrow> bytes \<Rightarrow> bytes \<Rightarrow> bytes" where
  "gcm_seal k n p a = (let c = ctr_xor k n 2 p in c @ gcm_tag k n c a)"

definition gcm_open :: "bytes \<Rightarrow> bytes \<Rightarrow> bytes \<Rightarrow> bytes \<Rightarrow> bytes option" where
  "gcm_open k n ct a =
     (if length ct < TagSize then None
      else let c = take (length ct - TagSize) ct; t = drop (length ct - TagSize) ct in
           if gcm_tag k n c a = t then Some (ctr_xor k n 2 c) else None)"

subsection \<open>AES permutes the blocks\<close>

lemma length_sbox [simp]: "length sbox = 256"
  by (simp add: sbox_def)

lemma distinct_sbox: "distinct sbox"
  by (simp add: sbox_def)

lemma sbox_less: "i < 256 \<Longrightarrow> sbox ! i < 256"
proof -
  have "list_all (\<lambda>x. x < 256) sbox" by (simp add: sbox_def)
  then show "i < 256 \<Longrightarrow> sbox ! i < 256" by (simp add: list_all_length)
qed

lemma unat_byte_less [simp]: "unat (b :: byte) < 256"
  using unsigned_less [of b] by simp

lemma inj_aes_sub: "inj aes_sub"
proof (rule injI)
  fix x y assume "aes_sub x = aes_sub y"
  then have "unat (of_nat (sbox ! unat x) :: byte) = unat (of_nat (sbox ! unat y) :: byte)"
    by (simp only: aes_sub_def)
  then have "sbox ! unat x = sbox ! unat y"
    using sbox_less [OF unat_byte_less [of x]] sbox_less [OF unat_byte_less [of y]]
    by (simp add: unat_of_nat)
  then have "unat x = unat y"
    using distinct_sbox by (simp add: nth_eq_iff_index_eq)
  then show "x = y" by (simp only: word_unat_eq_iff)
qed

lemma length_SubBytes [simp]: "length (SubBytes s) = length s"
  by (simp add: SubBytes_def)

lemma SubBytes_inject: "SubBytes s = SubBytes t \<Longrightarrow> s = t"
  by (simp add: SubBytes_def inj_map_eq_map [OF inj_aes_sub])

lemma length_ShiftRows [simp]: "length (ShiftRows s) = 16"
  by (simp add: ShiftRows_def)

lemma ShiftRows_inject:
  assumes "length s = 16" "length t = 16" "ShiftRows s = ShiftRows t"
  shows "s = t"
proof (rule nth_equalityI)
  show "length s = length t" using assms by simp
next
  fix i assume "i < length s"
  then have "i \<in> set [0, 5, 10, 15, 4, 9, 14, 3, 8, 13, 2, 7, 12, 1, 6, 11]"
    using assms(1) by (simp, arith)
  with assms(3) show "s ! i = t ! i"
    unfolding ShiftRows_def map_eq_conv by blast
qed

lemma xtime_xor [simp]: "xtime (a XOR b) = xtime a XOR xtime b"
  by (cases "bit a 7"; cases "bit b 7")
    (simp_all add: xtime_def bit_xor_iff push_bit_xor xor.assoc xor.left_commute xor.commute)

text \<open>
  The matrix of a column, squared, has only the entries \<open>1 + xtime\<^sup>2\<close> and \<open>xtime\<^sup>2\<close>, and its
  fourth power is the identity: a column is recovered by mixing it three more times.
\<close>

definition mix2 :: "bytes \<Rightarrow> bytes" where
  "mix2 v = mix_column (v ! 0) (v ! 1) (v ! 2) (v ! 3)"

lemmas xor_cancel = xor.assoc xor.left_commute xor.commute

lemma xor_self_left: "(a :: 'a :: len word) XOR (a XOR b) = b"
  by (simp add: xor.assoc [symmetric])

lemma mix_column_squared:
  "mix2 (mix_column a b c d) =
     [a XOR xtime (xtime a) XOR xtime (xtime c), b XOR xtime (xtime b) XOR xtime (xtime d),
      c XOR xtime (xtime c) XOR xtime (xtime a), d XOR xtime (xtime d) XOR xtime (xtime b)]"
  by (simp add: mix2_def mix_column_def xor_self_left xor_cancel)

lemma mix_column_fourth: "mix2 (mix2 (mix2 (mix_column a b c d))) = [a, b, c, d]"
proof -
  have "mix2 (mix2 [p, q, r, s]) =
     [p XOR xtime (xtime p) XOR xtime (xtime r), q XOR xtime (xtime q) XOR xtime (xtime s),
      r XOR xtime (xtime r) XOR xtime (xtime p), s XOR xtime (xtime s) XOR xtime (xtime q)]"
    for p q r s
    using mix_column_squared [of p q r s] by (simp add: mix2_def [of "[p, q, r, s]"])
  then show ?thesis
    by (simp add: mix_column_squared xor_self_left xor_cancel)
qed

lemma mix_column_inject:
  assumes "mix_column a b c d = mix_column a' b' c' d'"
  shows "[a, b, c, d] = [a', b', c', d']"
  using mix_column_fourth [of a b c d] mix_column_fourth [of a' b' c' d'] assms by metis

lemma length_mix_column [simp]: "length (mix_column a b c d) = 4"
  by (simp add: mix_column_def)

lemma length_MixColumns [simp]: "length (MixColumns s) = length s"
  by (induction s rule: MixColumns.induct) auto

lemma MixColumns_inject: "length s = length t \<Longrightarrow> MixColumns s = MixColumns t \<Longrightarrow> s = t"
proof (induction s arbitrary: t rule: MixColumns.induct)
  case (1 a b c d s)
  then obtain a' b' c' d' t' where t: "t = a' # b' # c' # d' # t'" "length s = length t'"
    by (metis (no_types, opaque_lifting) length_Cons length_Suc_conv)
  with 1 have "mix_column a b c d = mix_column a' b' c' d'" "MixColumns s = MixColumns t'"
    by simp_all
  with 1 t mix_column_inject show ?case by blast
qed (auto simp: length_Suc_conv Suc_length_conv)

lemma length_aes_round [simp]: "length rk = 16 \<Longrightarrow> length (aes_round rk s) = 16"
  by (simp add: aes_round_def)

lemma aes_round_inject:
  assumes "length rk = 16" "length s = 16" "length t = 16" "aes_round rk s = aes_round rk t"
  shows "s = t"
proof -
  have "MixColumns (ShiftRows (SubBytes s)) = MixColumns (ShiftRows (SubBytes t))"
    by (rule xor_bytes_right_inject [of _ _ rk]) (use assms in \<open>simp_all add: aes_round_def\<close>)
  then have "ShiftRows (SubBytes s) = ShiftRows (SubBytes t)"
    by (rule MixColumns_inject [rotated]) simp
  then have "SubBytes s = SubBytes t"
    by (rule ShiftRows_inject [rotated 2]) (use assms in simp_all)
  then show ?thesis by (rule SubBytes_inject)
qed

lemma aes_last_round_inject:
  assumes "length rk = 16" "length s = 16" "length t = 16"
    and "aes_last_round rk s = aes_last_round rk t"
  shows "s = t"
proof -
  have "ShiftRows (SubBytes s) = ShiftRows (SubBytes t)"
    by (rule xor_bytes_right_inject [of _ _ rk]) (use assms in \<open>simp_all add: aes_last_round_def\<close>)
  then have "SubBytes s = SubBytes t"
    by (rule ShiftRows_inject [rotated 2]) (use assms in simp_all)
  then show ?thesis by (rule SubBytes_inject)
qed

lemma length_rounds:
  "\<forall>r \<in> set rs. length (K r) = 16 \<Longrightarrow> length s = 16 \<Longrightarrow>
   length (fold (\<lambda>r. aes_round (K r)) rs s) = 16"
  by (induction rs arbitrary: s) simp_all

lemma rounds_inject:
  "\<forall>r \<in> set rs. length (K r) = 16 \<Longrightarrow> length s = 16 \<Longrightarrow> length t = 16 \<Longrightarrow>
   fold (\<lambda>r. aes_round (K r)) rs s = fold (\<lambda>r. aes_round (K r)) rs t \<Longrightarrow> s = t"
proof (induction rs arbitrary: s t)
  case (Cons r rs)
  have "aes_round (K r) s = aes_round (K r) t"
    by (rule Cons.IH) (use Cons.prems in simp_all)
  then show ?case by (rule aes_round_inject [rotated 3]) (use Cons.prems in simp_all)
qed simp

lemma words4_lengths: "\<forall>w \<in> set (words4 k). length w = 4"
  by (induction k rule: words4.induct) auto

lemma length_words4: "length (words4 k) = length k div 4"
  by (induction k rule: words4.induct) auto

lemma next_key_word_length:
  assumes "8 \<le> i" "length ws = i" "\<forall>w \<in> set ws. length w = 4"
  shows "length (next_key_word i ws) = 4"
proof -
  have "length (ws ! (i - 1)) = 4" "length (ws ! (i - 8)) = 4"
    using assms by (simp_all add: nth_mem)
  then show ?thesis by (simp add: next_key_word_def Let_def)
qed

lemma expand_key_upto:
  assumes "length k = KeySize" "8 \<le> n"
  shows "length (fold (\<lambda>i ws. ws @ [next_key_word i ws]) [8..<n] (words4 k)) = n \<and>
    (\<forall>w \<in> set (fold (\<lambda>i ws. ws @ [next_key_word i ws]) [8..<n] (words4 k)). length w = 4)"
  using assms(2)
proof (induction n rule: dec_induct)
  case base
  show ?case using assms(1) words4_lengths [of k] by (simp add: length_words4 KeySize_def)
next
  case (step n)
  then show ?case by (simp add: next_key_word_length)
qed

lemma length_round_key:
  assumes "length k = KeySize" "r < 15"
  shows "length (round_key (expand_key k) r) = 16"
proof -
  have "8 \<le> (60 :: nat)" by simp
  note up = expand_key_upto [OF assms(1) this]
  have len: "length (expand_key k) = 60" unfolding expand_key_def using up by (rule conjunct1)
  have four: "\<forall>w \<in> set (expand_key k). length w = 4"
    unfolding expand_key_def using up by (rule conjunct2)
  have "length (expand_key k ! j) = 4" if "j < 60" for j
    using four len that by simp
  with assms(2) show ?thesis by (simp add: round_key_def)
qed

lemma length_aes256 [simp]:
  assumes "length k = KeySize"
  shows "length (aes256 k s) = 16"
  using length_round_key [OF assms, of 14]
  by (simp add: aes256_def Let_def aes_last_round_def)

lemma aes256_inject:
  assumes "length k = KeySize" "length s = 16" "length t = 16" "aes256 k s = aes256 k t"
  shows "s = t"
proof -
  let ?K = "round_key (expand_key k)"
  let ?start = "\<lambda>s. xor_bytes s (?K 0)"
  let ?run = "\<lambda>s. fold (\<lambda>r. aes_round (?K r)) [1..<14] (?start s)"
  note len = length_round_key [OF assms(1)]
  have K: "\<forall>r \<in> set [1..<14]. length (?K r) = 16" using len by simp
  have start: "length (?start s) = 16" "length (?start t) = 16"
    using assms len by simp_all
  have "aes_last_round (?K 14) (?run s) = aes_last_round (?K 14) (?run t)"
    using assms(4) unfolding aes256_def Let_def .
  then have "?run s = ?run t"
    by (rule aes_last_round_inject [rotated 3])
      (use len length_rounds [OF K start(1)] length_rounds [OF K start(2)] in simp_all)
  then have "?start s = ?start t" by (rule rounds_inject [OF K start])
  then show ?thesis
    by (rule xor_bytes_right_inject [rotated 2]) (use assms len in simp_all)
qed

subsection \<open>The AEAD laws\<close>

lemma length_ctr_xor [simp]: "length k = KeySize \<Longrightarrow> length (ctr_xor k n c p) = length p"
proof (induction k n c p rule: ctr_xor.induct)
  case (1 k n c p)
  show ?case
  proof (cases "p = []")
    case True
    then show ?thesis by simp
  next
    case False
    with 1 show ?thesis by (subst ctr_xor.simps) simp
  qed
qed

lemma ctr_xor_involution: "length k = KeySize \<Longrightarrow> ctr_xor k n c (ctr_xor k n c p) = p"
proof (induction k n c p rule: ctr_xor.induct)
  case (1 k n c p)
  show ?case
  proof (cases "p = []")
    case True
    then show ?thesis by simp
  next
    case False
    let ?e = "aes256 k (n @ PutUint32 c)"
    let ?x = "xor_bytes (take 16 p) ?e" and ?r = "ctr_xor k n (c + 1) (drop 16 p)"
    have e: "length ?e = 16" using 1 by simp
    have out: "ctr_xor k n c p = ?x @ ?r" using False by (simp add: ctr_xor.simps [of k n c p])
    have ne: "?x @ ?r \<noteq> []" using False e by (auto simp: xor_bytes_def zip_eq_Nil_iff)
    have x: "length ?x = min 16 (length p)" using e by simp
    have r: "length p < 16 \<longrightarrow> ?r = []" by simp
    have tk: "take 16 (?x @ ?r) = ?x" and dr: "drop 16 (?x @ ?r) = ?r"
      using x r by (cases "length p < 16"; simp)+
    have "ctr_xor k n c (?x @ ?r) =
        xor_bytes ?x ?e @ ctr_xor k n (c + 1) ?r"
      by (subst ctr_xor.simps) (simp only: ne tk dr if_False)
    also have "\<dots> = take 16 p @ drop 16 p"
      using 1 False e by (simp add: xor_bytes_cancel)
    finally show ?thesis using out by simp
  qed
qed

lemma length_gcm_tag [simp]: "length k = KeySize \<Longrightarrow> length (gcm_tag k n c a) = TagSize"
  by (simp add: gcm_tag_def Let_def bytes_of_block_def TagSize_def)

text \<open>Two nonces never give one ciphertext the same tag.\<close>

lemma gcm_tag_nonce:
  assumes "length k = KeySize" "length n = nonceSize" "length n' = nonceSize"
    and "gcm_tag k n c a = gcm_tag k n' c a"
  shows "n = n'"
proof -
  have "aes256 k (n @ PutUint32 1) = aes256 k (n' @ PutUint32 1)"
    using assms(4) unfolding gcm_tag_def Let_def
    by (rule xor_bytes_right_inject [rotated 2]) (use assms in \<open>simp_all add: bytes_of_block_def\<close>)
  then have "n @ PutUint32 1 = n' @ PutUint32 1"
    by (rule aes256_inject [rotated 3]) (use assms in \<open>simp_all add: nonceSize_def\<close>)
  then show ?thesis by simp
qed

lemma gcm_open_seal:
  assumes "length k = KeySize"
  shows "gcm_open k n (gcm_seal k n p a) a = Some p"
  using assms by (simp add: gcm_open_def gcm_seal_def Let_def ctr_xor_involution)

lemma gcm_seal_open:
  assumes "length k = KeySize" "gcm_open k n c a = Some p"
  shows "c = gcm_seal k n p a"
proof -
  let ?b = "take (length c - TagSize) c"
  from assms(2) have "gcm_tag k n ?b a = drop (length c - TagSize) c" "p = ctr_xor k n 2 ?b"
    by (auto simp: gcm_open_def Let_def split: if_splits)
  then show ?thesis using assms(1) by (simp add: gcm_seal_def Let_def ctr_xor_involution)
qed

interpretation gcm: aead gcm_seal gcm_open
proof unfold_locales
  show "length (gcm_seal k n p a) = length p + TagSize"
    if "length k = KeySize" "length n = nonceSize" for k n p a
    using that by (simp add: gcm_seal_def Let_def)
  show "gcm_open k n c a = Some p \<longleftrightarrow> c = gcm_seal k n p a"
    if "length k = KeySize" "length n = nonceSize" for k n c a p
    using that gcm_open_seal gcm_seal_open by blast
  show "gcm_open k n' (gcm_seal k n p a) a = None"
    if "length k = KeySize" "length n = nonceSize" "length n' = nonceSize" "n \<noteq> n'" for k n n' p a
    using that gcm_tag_nonce [of k n n' "ctr_xor k n 2 p" a]
    by (auto simp: gcm_open_def gcm_seal_def Let_def)
qed

end
