(* ===== verification/Cryptobox_Stream.thy ===== *)
theory Cryptobox_Stream
  imports AES_GCM
begin

text \<open>
  The encrypted file format: src/internal/cryptobox/stream.go, seek.go and resume.go.  A
  \<open>writer\<close> seals a plaintext into a stream of fixed-size chunks, a \<open>reader\<close> opens it
  again from the start or (\<open>OpenAt\<close>) from any offset, and \<open>InspectPartial\<close>,
  \<open>AlignDown\<close> and \<open>NewResumeWriter\<close> continue an interrupted stream.

  A \<open>cipher.AEAD\<close> value is represented by the key it was made from.  The array
  \<open>w.buf\<close> and its fill count \<open>w.n\<close> are one list, \<open>w_buf\<close>, the slice \<open>w.buf[:w.n]\<close>, the only
  part of the array the code reads.
\<close>

subsection \<open>Format constants, nonces and sizes\<close>

definition magic :: bytes where
  "magic = [0x53, 0x46, 0x42, 0x01]"

definition newGCM :: "bytes \<Rightarrow> bytes res" where
  "newGCM key =
     (if length key \<noteq> KeySize then Inl (Other ''cryptobox: key must be 32 bytes'') else Inr key)"

definition nonce :: "bytes \<Rightarrow> u32 \<Rightarrow> bool \<Rightarrow> bytes" where
  "nonce prefix index final =
     (let n = copy_at (replicate nonceSize 0) 0 prefix;
          n' = copy_at n noncePrefixSize (PutUint32 index)
      in if final then n'[nonceSize - 1 := 1] else n')"

definition CiphertextSize :: "int \<Rightarrow> int" where
  "CiphertextSize n =
     (let chunks = n sdiv int ChunkSize; rem = n smod int ChunkSize;
          chunks' = (if rem \<noteq> 0 \<or> n = 0 then chunks + 1 else chunks)
      in i64 (int headerSize + n + chunks' * int TagSize))"

subsection \<open>Writer\<close>

record writer =
  w_key :: bytes
  w_dst :: sink
  w_prefix :: bytes
  w_buf :: bytes
  w_index :: u32
  w_wroteHeader :: bool
  w_closed :: bool

text \<open>\<open>prefix\<close> is what \<open>rand.Read\<close> delivered for the nonce prefix.\<close>

definition NewWriter :: "sink \<Rightarrow> bytes \<Rightarrow> bytes \<Rightarrow> writer res" where
  "NewWriter dst key prefix =
     (case newGCM key of
        Inl e \<Rightarrow> Inl e
      | Inr k \<Rightarrow>
          Inr \<lparr>w_key = k, w_dst = dst, w_prefix = prefix, w_buf = [], w_index = 0,
               w_wroteHeader = False, w_closed = False\<rparr>)"

definition writeHeader :: "writer \<Rightarrow> writer \<times> err option" where
  "writeHeader w =
     (if w_wroteHeader w then (w, None)
      else let h = magic @ [formatVersion] @ w_prefix w in
        case sink_write (w_dst w) h of
          (d, False) \<Rightarrow> (w\<lparr>w_dst := d\<rparr>, Some (Other ''cryptobox: write header''))
        | (d, True) \<Rightarrow> (w\<lparr>w_dst := d, w_wroteHeader := True\<rparr>, None))"

definition flush :: "bool \<Rightarrow> writer \<Rightarrow> writer \<times> err option" where
  "flush final w =
     (case writeHeader w of
        (w1, Some e) \<Rightarrow> (w1, Some e)
      | (w1, None) \<Rightarrow>
          let sealed = gcm_seal (w_key w1) (nonce (w_prefix w1) (w_index w1) final) (w_buf w1) [] in
          case sink_write (w_dst w1) sealed of
            (d, False) \<Rightarrow> (w1\<lparr>w_dst := d\<rparr>, Some (Other ''cryptobox: write chunk''))
          | (d, True) \<Rightarrow> (w1\<lparr>w_dst := d, w_index := w_index w1 + 1, w_buf := []\<rparr>, None))"

lemma flush_None_buf: "flush final w = (w', None) \<Longrightarrow> w_buf w' = []"
  by (auto simp: flush_def Let_def split: prod.splits option.splits bool.splits)

text \<open>
  The loop of \<open>Write\<close>.  A fill count above the array's length, which no operation
  produces, would panic in the slice expression \<open>w.buf[w.n:]\<close>.
\<close>

function Write_loop :: "writer \<Rightarrow> bytes \<Rightarrow> nat \<Rightarrow> writer \<times> nat \<times> err option" where
  "Write_loop w p written =
     (if p = [] then (w, written, None)
      else case (if length (w_buf w) = ChunkSize then flush False w else (w, None)) of
          (w1, Some e) \<Rightarrow> (w1, written, Some e)
        | (w1, None) \<Rightarrow>
            if ChunkSize < length (w_buf w1)
            then (w1, written, Some (Panic ''slice bounds out of range''))
            else let n = min (ChunkSize - length (w_buf w1)) (length p) in
              Write_loop (w1\<lparr>w_buf := w_buf w1 @ take n p\<rparr>) (drop n p) (written + n))"
  by pat_completeness auto
termination
  by (relation "measure (\<lambda>(w, p, written). length p)")
    (auto dest: flush_None_buf [OF sym] split: if_splits)

declare Write_loop.simps [simp del]

definition Write :: "writer \<Rightarrow> bytes \<Rightarrow> writer \<times> nat \<times> err option" where
  "Write w p =
     (if w_closed w then (w, 0, Some (Other ''cryptobox: write after close''))
      else Write_loop w p 0)"

definition FlushFull :: "writer \<Rightarrow> writer \<times> err option" where
  "FlushFull w =
     (if length (w_buf w) = ChunkSize then flush False w
      else if length (w_buf w) = 0 then writeHeader w
      else (w, Some CryptoUnaligned))"

definition CloseWriter :: "writer \<Rightarrow> writer \<times> err option" where
  "CloseWriter w =
     (if w_closed w then (w, None) else flush True (w\<lparr>w_closed := True\<rparr>))"

text \<open>
  \<open>io.Copy(w, io.LimitReader(body, lim))\<close>: the body arrives in the pieces the transport
  delivers and then ends cleanly or (\<open>fail\<close>) with a transport error.  Result: the writer,
  the bytes copied and the error.
\<close>

fun CopyBody :: "writer \<Rightarrow> bytes list \<Rightarrow> bool \<Rightarrow> nat \<Rightarrow> nat \<Rightarrow> writer \<times> nat \<times> err option" where
  "CopyBody w [] fail lim n = (w, n, if fail \<and> lim \<noteq> 0 then Some (Other ''read body'') else None)"
| "CopyBody w (s # ss) fail lim n =
     (if lim = 0 then (w, n, None)
      else let b = take lim s in
        case Write w b of
          (w', m, Some e) \<Rightarrow> (w', n + m, Some e)
        | (w', m, None) \<Rightarrow> CopyBody w' ss fail (lim - length b) (n + m))"

subsection \<open>Reader\<close>

record reader =
  r_key :: bytes
  r_src :: source
  r_prefix :: bytes
  r_out :: bytes
  r_off :: nat
  r_index :: u32
  r_done :: bool

definition badHeader :: "bytes \<Rightarrow> bool" where
  "badHeader h \<longleftrightarrow> take 4 h \<noteq> magic \<or> h ! 4 \<noteq> formatVersion"

definition NewReader :: "source \<Rightarrow> bytes \<Rightarrow> reader res" where
  "NewReader src key =
     (case newGCM key of
        Inl e \<Rightarrow> Inl e
      | Inr k \<Rightarrow>
          case ReadFull src headerSize of
            (h, Some e, s) \<Rightarrow> Inl e
          | (h, None, s) \<Rightarrow>
              if badHeader h then Inl CryptoCorrupt
              else Inr \<lparr>r_key = k, r_src = s, r_prefix = drop 5 h, r_out = [], r_off = 0,
                        r_index = 0, r_done = False\<rparr>)"

definition fill :: "reader \<Rightarrow> reader \<times> err option" where
  "fill r =
     (case ReadFull (r_src r) (ChunkSize + TagSize) of
        (c, e, s) \<Rightarrow>
          let r1 = r\<lparr>r_src := s\<rparr> in
          if e = Some EOF then (r1, Some CryptoCorrupt)
          else if e \<noteq> None \<and> e \<noteq> Some UnexpectedEOF
          then (r1, Some (Other ''cryptobox: read chunk''))
          else if length c < TagSize then (r1, Some CryptoCorrupt)
          else
            let interior =
              (if length c = ChunkSize + TagSize
               then gcm_open (r_key r) (nonce (r_prefix r) (r_index r) False) c [] else None)
            in case interior of
                 Some out \<Rightarrow> (r1\<lparr>r_out := out, r_off := 0, r_index := r_index r + 1\<rparr>, None)
               | None \<Rightarrow>
                   (case gcm_open (r_key r) (nonce (r_prefix r) (r_index r) True) c [] of
                      None \<Rightarrow> (r1, Some CryptoCorrupt)
                    | Some out \<Rightarrow>
                        (r1\<lparr>r_out := out, r_off := 0, r_index := r_index r + 1, r_done := True\<rparr>,
                         None)))"

text \<open>
  Every key makes \<open>Open\<close> return fewer bytes than it was given, so a successful \<open>fill\<close>
  leaves less to do.
\<close>

lemma length_ctr_xor_le: "length (ctr_xor k n c p) \<le> length p"
proof (induction k n c p rule: ctr_xor.induct)
  case (1 k n c p)
  show ?case
  proof (cases "p = []")
    case True
    then show ?thesis by simp
  next
    case False
    with 1 have "length (ctr_xor k n (c + 1) (drop 16 p)) \<le> length p - 16" by simp
    moreover have "length (xor_bytes (take 16 p) (aes256 k (n @ PutUint32 c))) \<le> min 16 (length p)"
      by (auto simp: min_le_iff_disj)
    ultimately show ?thesis using False by (subst ctr_xor.simps) (simp only: if_False length_append)
  qed
qed

lemma gcm_open_le: "gcm_open k n c a = Some p \<Longrightarrow> length p + TagSize \<le> length c"
  using length_ctr_xor_le [of k n 2 "take (length c - TagSize) c"]
  by (auto simp: gcm_open_def Let_def split: if_splits)

definition unread :: "reader \<Rightarrow> nat" where
  "unread r = (length (r_out r) - r_off r) + (if r_done r then 0 else length (src_data (r_src r)))"

lemma fill_decreases:
  assumes "fill r = (r', None)" "\<not> r_done r" "length (r_out r) \<le> r_off r"
  shows "unread r' < unread r"
proof -
  let ?N = "ChunkSize + TagSize" and ?d = "src_data (r_src r)"
  let ?c = "take ?N ?d"
  have tag: "TagSize \<le> length ?c"
    and out: "length (r_out r') + TagSize \<le> length ?c" "r_off r' = 0"
    and src: "src_data (r_src r') = drop ?N ?d"
    using assms(1)
    by (auto simp: fill_def ReadFull_def Let_def dest!: gcm_open_le
        split: if_splits option.splits)
  show ?thesis
    using tag out src assms(2,3) by (auto simp: unread_def TagSize_def)
qed

function Read_loop :: "reader \<Rightarrow> reader \<times> err option" where
  "Read_loop r =
     (if length (r_out r) \<le> r_off r
      then if r_done r then (r, Some EOF)
           else (case fill r of (r', Some e) \<Rightarrow> (r', Some e) | (r', None) \<Rightarrow> Read_loop r')
      else (r, None))"
  by pat_completeness auto
termination
  by (relation "measure unread") (auto simp: fill_decreases)

declare Read_loop.simps [simp del]

text \<open>\<open>Read(p)\<close> with \<open>len(p) = n\<close>.\<close>

definition Read :: "reader \<Rightarrow> nat \<Rightarrow> reader \<times> bytes res" where
  "Read r n =
     (case Read_loop r of
        (r', Some e) \<Rightarrow> (r', Inl e)
      | (r', None) \<Rightarrow>
          let b = take n (drop (r_off r') (r_out r')) in
          (r'\<lparr>r_off := r_off r' + length b\<rparr>, Inr b))"

subsection \<open>Draining a reader: io.Copy and io.CopyN\<close>

text \<open>
  The buffer of \<open>io.Copy\<close>; the results do not depend on its size (see
  \<open>CopyAll_pending\<close> and \<open>CopyN_pending\<close> in theory Stream\_Correct).
\<close>

definition copyBuf :: nat where "copyBuf = 32 * 1024"

lemma copyBuf_pos [simp]: "0 < copyBuf"
  by (simp add: copyBuf_def)

lemma Read_loop_unread:
  "Read_loop r = (r', None) \<Longrightarrow> r_off r' < length (r_out r') \<and> unread r' \<le> unread r"
proof (induction r rule: Read_loop.induct)
  case (1 r)
  show ?case
  proof (cases "length (r_out r) \<le> r_off r")
    case True
    with 1 obtain r1 where r1: "\<not> r_done r" "fill r = (r1, None)" "Read_loop r1 = (r', None)"
      by (auto simp: Read_loop.simps [of r] split: if_splits prod.splits option.splits)
    with True "1.IH" [OF True r1(1)] fill_decreases [OF r1(2,1) True] show ?thesis
      by fastforce
  next
    case False
    with "1.prems" show ?thesis by (simp add: Read_loop.simps [of r])
  qed
qed

lemma Read_progress:
  assumes "Read r n = (r', Inr b)" "0 < n"
  shows "0 < length b \<and> length b \<le> n \<and> unread r' + length b \<le> unread r"
proof -
  obtain r1 where r1: "Read_loop r = (r1, None)"
    and b: "b = take n (drop (r_off r1) (r_out r1))" and r': "r' = r1\<lparr>r_off := r_off r1 + length b\<rparr>"
    using assms(1) by (auto simp: Read_def Let_def split: prod.splits option.splits)
  from Read_loop_unread [OF r1] have "r_off r1 < length (r_out r1)" "unread r1 \<le> unread r" by simp_all
  with assms(2) b r' show ?thesis by (auto simp: unread_def)
qed

lemma Read_decreases: "Read r n = (r', Inr b) \<Longrightarrow> 0 < n \<Longrightarrow> unread r' < unread r"
  using Read_progress [of r n r' b] by linarith

text \<open>\<open>io.Copy(dst, r)\<close>: the bytes copied and the error, an end of file being none.\<close>

function CopyAll :: "reader \<Rightarrow> bytes \<times> err option" where
  "CopyAll r =
     (case Read r copyBuf of
        (r', Inl e) \<Rightarrow> ([], if e = EOF then None else Some e)
      | (r', Inr b) \<Rightarrow> (case CopyAll r' of (bs, e) \<Rightarrow> (b @ bs, e)))"
  by pat_completeness auto
termination
  by (relation "measure unread") (auto dest!: Read_decreases [OF sym])

declare CopyAll.simps [simp del]

text \<open>\<open>io.CopyN(dst, r, n)\<close>: the bytes copied, the error, and the reader afterwards.\<close>

function CopyN :: "reader \<Rightarrow> nat \<Rightarrow> bytes \<times> err option \<times> reader" where
  "CopyN r n =
     (if n = 0 then ([], None, r)
      else case Read r (min copyBuf n) of
          (r', Inl e) \<Rightarrow> ([], Some e, r')
        | (r', Inr b) \<Rightarrow> (case CopyN r' (n - length b) of (bs, e, r'') \<Rightarrow> (b @ bs, e, r'')))"
  by pat_completeness auto
termination
  by (relation "measure snd") (auto dest!: Read_progress [OF sym])

declare CopyN.simps [simp del]

subsection \<open>Random access\<close>

definition chunkOffset :: "int \<Rightarrow> int" where
  "chunkOffset index = i64 (int headerSize + i64 (index * int (ChunkSize + TagSize)))"

text \<open>
  \<open>file\<close> is the whole seekable source.  Seeking past the end succeeds and reads an end of
  file; seeking to a negative position is an error.
\<close>

definition OpenAt :: "source \<Rightarrow> bytes \<Rightarrow> int \<Rightarrow> reader res" where
  "OpenAt file key off =
     (if off < 0 then Inl (Other ''cryptobox: negative offset'')
      else case newGCM key of
        Inl e \<Rightarrow> Inl e
      | Inr k \<Rightarrow>
          case ReadFull file headerSize of
            (h, Some e, s) \<Rightarrow> Inl e
          | (h, None, s) \<Rightarrow>
              if badHeader h then Inl CryptoCorrupt
              else
                let index = off sdiv int ChunkSize; within = off smod int ChunkSize;
                    pos = chunkOffset index in
                if pos < 0 then Inl (Other ''cryptobox: seek to chunk'')
                else
                  let r = \<lparr>r_key = k, r_src = file\<lparr>src_data := drop (nat pos) (src_data file)\<rparr>,
                           r_prefix = drop 5 h, r_out = [], r_off = 0,
                           r_index = word_of_int index, r_done = False\<rparr> in
                  if within > 0
                  then (case CopyN r (nat within) of
                          (_, Some e, _) \<Rightarrow>
                            Inl (if e = EOF then Other ''cryptobox: offset past end of stream'' else e)
                        | (_, None, r') \<Rightarrow> Inr r')
                  else Inr r)"

subsection \<open>Resuming a partial stream\<close>

record resume_state =
  NoncePrefix :: bytes
  NextIndex :: u32
  PlaintextLen :: int

definition InspectPartial :: "source \<Rightarrow> int \<Rightarrow> resume_state res" where
  "InspectPartial src ciphertextLen =
     (if ciphertextLen < int headerSize
      then Inl (Other ''cryptobox: partial file shorter than header'')
      else case ReadFull src headerSize of
        (h, Some e, s) \<Rightarrow> Inl e
      | (h, None, s) \<Rightarrow>
          if badHeader h then Inl CryptoCorrupt
          else let body = ciphertextLen - int headerSize in
            if body smod int (ChunkSize + TagSize) \<noteq> 0 then Inl CryptoUnaligned
            else let chunks = body sdiv int (ChunkSize + TagSize) in
              Inr \<lparr>NoncePrefix = drop 5 h, NextIndex = word_of_int chunks,
                   PlaintextLen = chunks * int ChunkSize\<rparr>)"

definition AlignDown :: "int \<Rightarrow> int" where
  "AlignDown n =
     (if n \<le> int headerSize then int headerSize
      else let body = n - int headerSize in
        int headerSize + (body sdiv int (ChunkSize + TagSize)) * int (ChunkSize + TagSize))"

definition NewResumeWriter :: "sink \<Rightarrow> bytes \<Rightarrow> resume_state \<Rightarrow> writer res" where
  "NewResumeWriter dst key st =
     (case newGCM key of
        Inl e \<Rightarrow> Inl e
      | Inr k \<Rightarrow>
          if length (NoncePrefix st) \<noteq> noncePrefixSize
          then Inl (Other ''cryptobox: nonce prefix must be 7 bytes'')
          else Inr \<lparr>w_key = k, w_dst = dst,
                    w_prefix = copy_at (replicate noncePrefixSize 0) 0 (NoncePrefix st),
                    w_buf = [], w_index = NextIndex st, w_wroteHeader = True,
                    w_closed = False\<rparr>)"

end
