(* ===== verification/Stream_Correct.thy ===== *)
theory Stream_Correct
  imports Cryptobox_Stream
begin

text \<open>
  Correctness of the encrypted file format.  \<open>stream_of k pfx cs last\<close> is the ideal layout:
  the header, every chunk of \<open>cs\<close> sealed as an interior chunk at its index, and \<open>last\<close>
  sealed with the end-of-stream flag; \<open>partial_of\<close> is the same without the last chunk.
  The writer is related to it by \<open>writer_at\<close>; the reader by \<open>pending\<close>, what it will still
  deliver.
\<close>

subsection \<open>Nonces\<close>

lemma length_nonce [simp]: "length (nonce p i f) = nonceSize"
  by (simp add: nonce_def Let_def size_defs)

lemma nonce_layout:
  assumes "length p = noncePrefixSize"
  shows "nonce p i f = p @ PutUint32 i @ [if f then 1 else 0]"
proof -
  have p: "length p = 7" using assms by (simp add: noncePrefixSize_def)
  have "copy_at (replicate 12 0) 0 p = p @ replicate 5 0"
    using p by (simp add: copy_at_def drop_replicate)
  moreover have "copy_at (p @ replicate 5 0) 7 (PutUint32 i) = p @ PutUint32 i @ [0]"
    using p by (simp add: copy_at_def numeral_eq_Suc)
  moreover have "(p @ PutUint32 i @ [0])[11 := 1] = p @ PutUint32 i @ [1]"
    using p by (simp add: list_update_append)
  ultimately show ?thesis
    by (simp add: nonce_def Let_def nonceSize_def noncePrefixSize_def)
qed

lemma nonce_inject:
  assumes "length p = noncePrefixSize" "length q = noncePrefixSize"
  shows "nonce p i f = nonce q j g \<longleftrightarrow> p = q \<and> i = j \<and> f = g"
proof -
  have "nonce p i f = nonce q j g \<longleftrightarrow>
      p = q \<and> PutUint32 i = PutUint32 j \<and> (if f then (1::byte) else 0) = (if g then 1 else 0)"
    using assms by (simp add: nonce_layout)
  then show ?thesis by (auto simp: PutUint32_inject)
qed

subsection \<open>The ideal layout\<close>

definition stream_header :: "bytes \<Rightarrow> bytes" where
  "stream_header pfx = magic @ [formatVersion] @ pfx"

fun seal_chunks :: "bytes \<Rightarrow> bytes \<Rightarrow> nat \<Rightarrow> bytes list \<Rightarrow> bytes" where
  "seal_chunks k pfx i [] = []"
| "seal_chunks k pfx i (c # cs) =
     gcm_seal k (nonce pfx (of_nat i) False) c [] @ seal_chunks k pfx (Suc i) cs"

definition seal_last :: "bytes \<Rightarrow> bytes \<Rightarrow> nat \<Rightarrow> bytes \<Rightarrow> bytes" where
  "seal_last k pfx i c = gcm_seal k (nonce pfx (of_nat i) True) c []"

definition partial_of :: "bytes \<Rightarrow> bytes \<Rightarrow> bytes list \<Rightarrow> bytes" where
  "partial_of k pfx cs = stream_header pfx @ seal_chunks k pfx 0 cs"

definition stream_of :: "bytes \<Rightarrow> bytes \<Rightarrow> bytes list \<Rightarrow> bytes \<Rightarrow> bytes" where
  "stream_of k pfx cs c = partial_of k pfx cs @ seal_last k pfx (length cs) c"

definition full_chunks :: "bytes list \<Rightarrow> bool" where
  "full_chunks cs \<longleftrightarrow> (\<forall>c \<in> set cs. length c = ChunkSize)"

text \<open>A key and nonce prefix of the right sizes.\<close>

definition good_key :: "bytes \<Rightarrow> bytes \<Rightarrow> bool" where
  "good_key k pfx \<longleftrightarrow> length k = KeySize \<and> length pfx = noncePrefixSize"

lemma full_chunks_simps [simp]:
  "full_chunks []" "full_chunks (c # cs) \<longleftrightarrow> length c = ChunkSize \<and> full_chunks cs"
  "full_chunks (cs @ ds) \<longleftrightarrow> full_chunks cs \<and> full_chunks ds"
  by (auto simp: full_chunks_def)

lemma full_chunks_drop: "full_chunks cs \<Longrightarrow> full_chunks (drop i cs)"
  by (auto simp: full_chunks_def dest: in_set_dropD)

lemma full_chunks_take: "full_chunks cs \<Longrightarrow> full_chunks (take i cs)"
  by (auto simp: full_chunks_def dest: in_set_takeD)

lemma seal_chunks_append:
  "seal_chunks k pfx i (cs @ ds) = seal_chunks k pfx i cs @ seal_chunks k pfx (i + length cs) ds"
  by (induction cs arbitrary: i) auto

lemma length_seal [simp]:
  "length k = KeySize \<Longrightarrow> length (gcm_seal k (nonce p i f) c a) = length c + TagSize"
  by (simp add: gcm.seal_length)

lemma length_seal_chunks:
  "length k = KeySize \<Longrightarrow> full_chunks cs \<Longrightarrow>
   length (seal_chunks k pfx i cs) = length cs * (ChunkSize + TagSize)"
  by (induction cs arbitrary: i) auto

lemma length_concat_full: "full_chunks cs \<Longrightarrow> length (concat cs) = length cs * ChunkSize"
  by (induction cs) auto

lemma length_stream_header [simp]:
  "length pfx = noncePrefixSize \<Longrightarrow> length (stream_header pfx) = headerSize"
  by (simp add: stream_header_def magic_def size_defs)

lemma length_partial_of:
  "good_key k pfx \<Longrightarrow> full_chunks cs \<Longrightarrow>
   length (partial_of k pfx cs) = headerSize + length cs * (ChunkSize + TagSize)"
  by (simp add: partial_of_def good_key_def length_seal_chunks)

text \<open>Cutting the sealed chunks after the first \<open>i\<close>.\<close>

lemma seal_chunks_split:
  assumes "length k = KeySize" "full_chunks cs" "i \<le> length cs"
  shows "drop (i * (ChunkSize + TagSize)) (seal_chunks k pfx 0 cs) = seal_chunks k pfx i (drop i cs)"
proof -
  have cs: "seal_chunks k pfx 0 cs =
      seal_chunks k pfx 0 (take i cs) @ seal_chunks k pfx i (drop i cs)"
    using seal_chunks_append [of k pfx 0 "take i cs" "drop i cs"] assms(3) by (simp add: min_def)
  have "full_chunks (take i cs)" using assms(2) by (rule full_chunks_take)
  then have "length (seal_chunks k pfx 0 (take i cs)) = i * (ChunkSize + TagSize)"
    using assms by (simp add: length_seal_chunks min_def)
  then show ?thesis using cs by simp
qed

lemma concat_drop_full:
  assumes "full_chunks cs" "i \<le> length cs"
  shows "concat (drop i cs) = drop (i * ChunkSize) (concat cs)"
proof -
  have "concat cs = concat (take i cs) @ concat (drop i cs)"
    by (metis append_take_drop_id concat_append)
  moreover have "full_chunks (take i cs)" using assms(1) by (rule full_chunks_take)
  then have "length (concat (take i cs)) = i * ChunkSize"
    using assms(2) by (simp add: length_concat_full min_def)
  ultimately show ?thesis by simp
qed

subsection \<open>The writer\<close>

definition writer_at :: "writer \<Rightarrow> bytes \<Rightarrow> bytes \<Rightarrow> bytes list \<Rightarrow> bytes \<Rightarrow> bool" where
  "writer_at w k pfx cs buf \<longleftrightarrow>
     w_key w = k \<and> w_prefix w = pfx \<and> \<not> w_closed w \<and> sink_room (w_dst w) = None \<and>
     w_buf w = buf \<and> length buf \<le> ChunkSize \<and> full_chunks cs \<and>
     w_index w = of_nat (length cs) \<and>
     (if w_wroteHeader w then sink_data (w_dst w) = partial_of k pfx cs
      else sink_data (w_dst w) = [] \<and> cs = [])"

lemma writeHeader_unlimited:
  assumes "sink_room (w_dst w) = None" "w_prefix w = pfx"
    and "if w_wroteHeader w then sink_data (w_dst w) = partial_of k pfx cs
         else sink_data (w_dst w) = [] \<and> cs = []"
  obtains d where "writeHeader w = (w\<lparr>w_dst := d, w_wroteHeader := True\<rparr>, None)"
    and "sink_room d = None" "sink_data d = partial_of k pfx cs"
proof (cases "w_wroteHeader w")
  case True
  then have "writeHeader w = (w\<lparr>w_dst := w_dst w, w_wroteHeader := True\<rparr>, None)"
    by (simp add: writeHeader_def)
  with that assms True show ?thesis by auto
next
  case False
  then have "writeHeader w =
      (w\<lparr>w_dst := (w_dst w)\<lparr>sink_data := stream_header pfx\<rparr>, w_wroteHeader := True\<rparr>, None)"
    using assms by (simp add: writeHeader_def stream_header_def)
  then show ?thesis by (rule that) (use assms False in \<open>simp_all add: partial_of_def\<close>)
qed

lemma flush_False_at:
  assumes "writer_at w k pfx cs buf" "length buf = ChunkSize"
  obtains w' where "flush False w = (w', None)" "writer_at w' k pfx (cs @ [buf]) []"
    and "w_wroteHeader w'"
proof -
  obtain d where d: "writeHeader w = (w\<lparr>w_dst := d, w_wroteHeader := True\<rparr>, None)"
      "sink_room d = None" "sink_data d = partial_of k pfx cs"
    using assms(1) unfolding writer_at_def by (elim conjE) (rule writeHeader_unlimited)
  let ?w = "w\<lparr>w_dst := d\<lparr>sink_data := partial_of k pfx (cs @ [buf])\<rparr>, w_wroteHeader := True,
             w_index := w_index w + 1, w_buf := []\<rparr>"
  have "flush False w = (?w, None)"
    using assms d by (simp add: flush_def writer_at_def partial_of_def seal_chunks_append)
  moreover have "writer_at ?w k pfx (cs @ [buf]) []"
    using assms d by (simp add: writer_at_def add.commute)
  ultimately show ?thesis using that by simp
qed

lemma flush_True_at:
  assumes "w_key w = k" "w_prefix w = pfx" "sink_room (w_dst w) = None"
    and "w_index w = of_nat (length cs)"
    and "if w_wroteHeader w then sink_data (w_dst w) = partial_of k pfx cs
         else sink_data (w_dst w) = [] \<and> cs = []"
  shows "\<exists>w'. flush True w = (w', None) \<and> sink_data (w_dst w') = stream_of k pfx cs (w_buf w)"
proof -
  obtain d where "writeHeader w = (w\<lparr>w_dst := d, w_wroteHeader := True\<rparr>, None)"
      "sink_room d = None" "sink_data d = partial_of k pfx cs"
    using assms(3,2,5) by (rule writeHeader_unlimited)
  with assms show ?thesis by (simp add: flush_def stream_of_def seal_last_def)
qed

text \<open>
  \<open>Write\<close> stores all of \<open>p\<close>: it completes some chunks \<open>ds\<close> and keeps the rest
  buffered, never flushing the last chunk early.
\<close>

lemma Write_loop_at:
  assumes "writer_at w k pfx cs buf"
  shows "\<exists>w' ds buf'. Write_loop w p n = (w', n + length p, None) \<and>
    writer_at w' k pfx (cs @ ds) buf' \<and> buf @ p = concat ds @ buf' \<and>
    (buf @ p \<noteq> [] \<longrightarrow> buf' \<noteq> [])"
  using assms
proof (induction "length p" arbitrary: w p n cs buf rule: less_induct)
  case less
  show ?case
  proof (cases "p = []")
    case True
    with less.prems show ?thesis
      by (intro exI [of _ w] exI [of _ "[]"] exI [of _ buf]) (simp add: Write_loop.simps)
  next
    case False
    obtain w1 es buf1 where w1:
        "(if length (w_buf w) = ChunkSize then flush False w else (w, None)) = (w1, None)"
        "writer_at w1 k pfx (cs @ es) buf1" "buf = concat es @ buf1" "length buf1 < ChunkSize"
    proof (cases "length buf = ChunkSize")
      case True
      from less.prems True obtain w1 where "flush False w = (w1, None)"
          "writer_at w1 k pfx (cs @ [buf]) []" by (rule flush_False_at)
      with that [of w1 "[buf]" "[]"] True less.prems show ?thesis by (simp add: writer_at_def)
    next
      case False
      with that [of w "[]" buf] less.prems show ?thesis by (auto simp: writer_at_def)
    qed
    let ?m = "min (ChunkSize - length buf1) (length p)"
    let ?w2 = "w1\<lparr>w_buf := buf1 @ take ?m p\<rparr>"
    have buf1: "w_buf w1 = buf1" using w1(2) by (simp add: writer_at_def)
    have step: "Write_loop w p n = Write_loop ?w2 (drop ?m p) (n + ?m)"
      using False w1(1,4) buf1 by (subst Write_loop.simps) (simp add: Let_def)
    have at2: "writer_at ?w2 k pfx (cs @ es) (buf1 @ take ?m p)"
      using w1(2,4) by (auto simp: writer_at_def)
    have lt: "length (drop ?m p) < length p" using False w1(4) by simp
    from less.hyps [OF lt at2, of "n + ?m"] obtain w' ds buf' where *:
        "Write_loop ?w2 (drop ?m p) (n + ?m) = (w', n + ?m + length (drop ?m p), None)"
        "writer_at w' k pfx ((cs @ es) @ ds) buf'"
        "(buf1 @ take ?m p) @ drop ?m p = concat ds @ buf'"
        "(buf1 @ take ?m p) @ drop ?m p \<noteq> [] \<longrightarrow> buf' \<noteq> []"
      by blast
    have "buf' \<noteq> []" using *(4) False by simp
    with * w1(3) step show ?thesis
      by (intro exI [of _ w'] exI [of _ "es @ ds"] exI [of _ buf']) simp
  qed
qed

lemma Write_at:
  assumes "writer_at w k pfx cs buf"
  obtains w' ds buf' where "Write w p = (w', length p, None)"
    and "writer_at w' k pfx (cs @ ds) buf'" "buf @ p = concat ds @ buf'"
    and "buf @ p \<noteq> [] \<longrightarrow> buf' \<noteq> []"
proof -
  have "\<not> w_closed w" using assms by (simp add: writer_at_def)
  then have "Write w p = Write_loop w p 0" by (simp add: Write_def)
  with Write_loop_at [OF assms, of p 0] that show ?thesis by (metis add_0)
qed

lemma writer_at_length:
  "writer_at w k pfx cs buf \<Longrightarrow> length buf \<le> ChunkSize \<and> full_chunks cs"
  by (simp add: writer_at_def)

lemma CopyBody_at:
  assumes "writer_at w k pfx cs buf"
  shows "\<exists>w' ds buf'. CopyBody w ss fail lim n =
      (w', n + min lim (length (concat ss)),
       if fail \<and> length (concat ss) < lim then Some (Other ''read body'') else None) \<and>
    writer_at w' k pfx (cs @ ds) buf' \<and> buf @ take lim (concat ss) = concat ds @ buf' \<and>
    (buf @ take lim (concat ss) \<noteq> [] \<longrightarrow> buf' \<noteq> [])"
  using assms
proof (induction ss arbitrary: w cs buf lim n)
  case Nil
  then show ?case
    by (intro exI [of _ w] exI [of _ "[]"] exI [of _ buf]) simp
next
  case (Cons s ss)
  show ?case
  proof (cases "lim = 0")
    case True
    with Cons.prems show ?thesis
      by (intro exI [of _ w] exI [of _ "[]"] exI [of _ buf]) simp
  next
    case False
    let ?b = "take lim s"
    obtain w1 es buf1 where w1: "Write w ?b = (w1, length ?b, None)"
        "writer_at w1 k pfx (cs @ es) buf1" "buf @ ?b = concat es @ buf1" "buf @ ?b \<noteq> [] \<longrightarrow> buf1 \<noteq> []"
      by (rule Write_at [OF Cons.prems])
    from Cons.IH [OF w1(2), of "lim - length ?b" "n + length ?b"] obtain w' ds buf' where *:
        "CopyBody w1 ss fail (lim - length ?b) (n + length ?b) =
          (w', n + length ?b + min (lim - length ?b) (length (concat ss)),
           if fail \<and> length (concat ss) < lim - length ?b then Some (Other ''read body'') else None)"
        "writer_at w' k pfx ((cs @ es) @ ds) buf'"
        "buf1 @ take (lim - length ?b) (concat ss) = concat ds @ buf'"
        "buf1 @ take (lim - length ?b) (concat ss) \<noteq> [] \<longrightarrow> buf' \<noteq> []" by blast
    have tk: "take lim (concat (s # ss)) = ?b @ take (lim - length ?b) (concat ss)"
      by (cases "length s \<le> lim") simp_all
    have "buf @ take lim (concat (s # ss)) = concat (es @ ds) @ buf'"
      unfolding tk concat_append append_assoc [symmetric] w1(3)
      using *(3) by (simp only: append_assoc)
    moreover have "buf @ take lim (concat (s # ss)) \<noteq> [] \<longrightarrow> buf' \<noteq> []"
      unfolding tk using w1(4) *(4) by auto
    moreover have "CopyBody w (s # ss) fail lim n =
        (w', n + min lim (length (concat (s # ss))),
         if fail \<and> length (concat (s # ss)) < lim then Some (Other ''read body'') else None)"
      using False w1(1) *(1) by (auto simp: Let_def)
    ultimately show ?thesis
      using *(2) by (intro exI [of _ w'] exI [of _ "es @ ds"] exI [of _ buf']) simp
  qed
qed

lemma FlushFull_at_full:
  assumes "writer_at w k pfx cs buf" "length buf = ChunkSize"
  obtains w' where "FlushFull w = (w', None)" "writer_at w' k pfx (cs @ [buf]) []"
    and "w_wroteHeader w'"
  using flush_False_at [OF assms] assms by (auto simp: FlushFull_def writer_at_def)

lemma FlushFull_at_empty:
  assumes "writer_at w k pfx cs []"
  obtains w' where "FlushFull w = (w', None)" "writer_at w' k pfx cs []" "w_wroteHeader w'"
proof -
  obtain d where d: "writeHeader w = (w\<lparr>w_dst := d, w_wroteHeader := True\<rparr>, None)"
      "sink_room d = None" "sink_data d = partial_of k pfx cs"
    using assms unfolding writer_at_def by (elim conjE) (rule writeHeader_unlimited)
  show ?thesis
    by (rule that [of "w\<lparr>w_dst := d, w_wroteHeader := True\<rparr>"])
      (use d assms in \<open>simp_all add: FlushFull_def writer_at_def\<close>)
qed

lemma FlushFull_unaligned:
  assumes "writer_at w k pfx cs buf" "buf \<noteq> []" "length buf \<noteq> ChunkSize"
  shows "FlushFull w = (w, Some CryptoUnaligned)"
  using assms by (auto simp: FlushFull_def writer_at_def)

lemma CloseWriter_at:
  assumes "writer_at w k pfx cs buf"
  obtains w' where "CloseWriter w = (w', None)" "sink_data (w_dst w') = stream_of k pfx cs buf"
proof -
  have "\<exists>w'. flush True (w\<lparr>w_closed := True\<rparr>) = (w', None) \<and>
      sink_data (w_dst w') = stream_of k pfx cs (w_buf (w\<lparr>w_closed := True\<rparr>))"
    by (rule flush_True_at) (use assms in \<open>simp_all add: writer_at_def\<close>)
  with assms that show ?thesis by (auto simp: CloseWriter_def writer_at_def)
qed

lemma NewWriter_at:
  assumes "length k = KeySize"
  obtains w where "NewWriter \<lparr>sink_data = [], sink_room = None\<rparr> k pfx = Inr w"
    and "writer_at w k pfx [] []"
  using assms by (auto simp: NewWriter_def newGCM_def writer_at_def)

lemma NewResumeWriter_at:
  assumes "good_key k pfx" "full_chunks cs"
  obtains w where
    "NewResumeWriter \<lparr>sink_data = partial_of k pfx cs, sink_room = None\<rparr> k
       \<lparr>NoncePrefix = pfx, NextIndex = of_nat (length cs), PlaintextLen = n\<rparr> = Inr w"
    and "writer_at w k pfx cs []" "w_wroteHeader w"
proof -
  let ?w = "\<lparr>w_key = k, w_dst = \<lparr>sink_data = partial_of k pfx cs, sink_room = None\<rparr>, w_prefix = pfx,
     w_buf = [], w_index = of_nat (length cs), w_wroteHeader = True, w_closed = False\<rparr>"
  show ?thesis
    by (rule that [of ?w])
      (use assms in \<open>simp_all add: NewResumeWriter_def newGCM_def writer_at_def good_key_def copy_at_def\<close>)
qed

subsection \<open>The reader\<close>

lemma badHeader_stream: "\<not> badHeader (stream_header pfx)"
  by (simp add: badHeader_def stream_header_def magic_def)

lemma ReadFull_exact:
  "src_data s = a @ b \<Longrightarrow> length a = n \<Longrightarrow> ReadFull s n = (a, None, s\<lparr>src_data := b\<rparr>)"
  by (simp add: ReadFull_def)

lemma fill_interior:
  assumes "good_key (r_key r) (r_prefix r)" "length c = ChunkSize"
    and "src_data (r_src r) = gcm_seal (r_key r) (nonce (r_prefix r) (r_index r) False) c [] @ rest"
  shows "fill r = (r\<lparr>r_src := (r_src r)\<lparr>src_data := rest\<rparr>, r_out := c, r_off := 0,
                     r_index := r_index r + 1\<rparr>, None)"
proof -
  have "length (gcm_seal (r_key r) (nonce (r_prefix r) (r_index r) False) c []) = ChunkSize + TagSize"
    using assms by (simp add: good_key_def)
  with assms show ?thesis
    by (simp add: fill_def ReadFull_exact [OF assms(3)] gcm.open_seal good_key_def)
qed

lemma fill_last:
  assumes "good_key (r_key r) (r_prefix r)" "length c \<le> ChunkSize" "\<not> src_fail (r_src r)"
    and "src_data (r_src r) = gcm_seal (r_key r) (nonce (r_prefix r) (r_index r) True) c []"
  shows "fill r = (r\<lparr>r_src := (r_src r)\<lparr>src_data := []\<rparr>, r_out := c, r_off := 0,
                     r_index := r_index r + 1, r_done := True\<rparr>, None)"
proof -
  let ?n = "\<lambda>f. nonce (r_prefix r) (r_index r) f"
  let ?c = "gcm_seal (r_key r) (?n True) c []"
  have len: "length ?c = length c + TagSize" using assms by (simp add: good_key_def)
  have "?n True \<noteq> ?n False" using assms(1) by (simp add: nonce_inject good_key_def)
  then have "gcm_open (r_key r) (?n False) ?c [] = None"
    using assms(1) by (intro gcm.nonce_separation) (simp_all add: good_key_def)
  moreover have "gcm_open (r_key r) (?n True) ?c [] = Some c"
    using assms(1) by (simp add: gcm.open_seal good_key_def)
  moreover have "ReadFull (r_src r) (ChunkSize + TagSize) =
      (?c, if length c = ChunkSize then None else Some UnexpectedEOF, (r_src r)\<lparr>src_data := []\<rparr>)"
    using assms(2,3,4) len by (auto simp: ReadFull_def Let_def TagSize_def)
  ultimately show ?thesis using len by (simp add: fill_def)
qed

text \<open>A source that ends where a chunk should begin is corrupt.\<close>

lemma fill_truncated:
  assumes "src_data (r_src r) = []" "\<not> src_fail (r_src r)"
  shows "\<exists>r'. fill r = (r', Some CryptoCorrupt)"
  using assms by (simp add: fill_def ReadFull_def)

text \<open>
  A chunk is bound to its position: at any index, under any prefix and with any flag other
  than the ones it was sealed for, it does not open.
\<close>

lemma fill_misplaced:
  assumes "good_key (r_key r) (r_prefix r)" "good_key (r_key r) q" "length c = ChunkSize"
    and "src_data (r_src r) = gcm_seal (r_key r) (nonce q j g) c [] @ rest"
    and "(q, j) \<noteq> (r_prefix r, r_index r)"
  shows "\<exists>r'. fill r = (r', Some CryptoCorrupt)"
proof -
  let ?c = "gcm_seal (r_key r) (nonce q j g) c []"
  have "gcm_open (r_key r) (nonce (r_prefix r) (r_index r) f) ?c [] = None" for f
    using assms(1,2,5) by (intro gcm.nonce_separation) (auto simp: nonce_inject good_key_def)
  moreover have "length ?c = ChunkSize + TagSize" using assms by (simp add: good_key_def)
  ultimately show ?thesis
    by (simp add: fill_def ReadFull_exact [OF assms(4)])
qed

subsection \<open>What a reader will still deliver\<close>

lemma fill_src:
  assumes "fill r = (r', None)"
  shows "length (src_data (r_src r')) < length (src_data (r_src r))"
  using assms
  by (auto simp: fill_def ReadFull_def Let_def TagSize_def split: if_splits option.splits)

lemma fill_error: "fill r = (r', Some e) \<Longrightarrow> e \<noteq> EOF"
  by (auto simp: fill_def ReadFull_def Let_def split: if_splits option.splits)

text \<open>\<open>fill\<close> overwrites the consumed part of the previous chunk.\<close>

lemma fill_off:
  "fill (r\<lparr>r_off := x\<rparr>) = (case fill r of (r', None) \<Rightarrow> (r', None)
     | (r', Some e) \<Rightarrow> (r'\<lparr>r_off := x\<rparr>, Some e))"
  by (auto simp: fill_def Let_def split: prod.splits option.splits)

text \<open>The chunks still to be opened, one \<open>fill\<close> after the other.\<close>

function rest_of :: "reader \<Rightarrow> bytes \<times> err option" where
  "rest_of r =
     (if r_done r then ([], None)
      else case fill r of
          (r', Some e) \<Rightarrow> ([], Some e)
        | (r', None) \<Rightarrow> (case rest_of r' of (b, e) \<Rightarrow> (r_out r' @ b, e)))"
  by pat_completeness auto
termination
  by (relation "measure (\<lambda>r. length (src_data (r_src r)))") (auto dest!: fill_src [OF sym])

declare rest_of.simps [simp del]

definition pending :: "reader \<Rightarrow> bytes \<times> err option" where
  "pending r = (case rest_of r of (b, e) \<Rightarrow> (drop (r_off r) (r_out r) @ b, e))"

lemma rest_of_off [simp]: "rest_of (r\<lparr>r_off := x\<rparr>) = rest_of r"
proof -
  have "rest_of (r\<lparr>r_off := x\<rparr>) =
     (if r_done r then ([], None)
      else case fill r of
          (r', Some e) \<Rightarrow> ([], Some e)
        | (r', None) \<Rightarrow> (case rest_of r' of (b, e) \<Rightarrow> (r_out r' @ b, e)))"
    by (subst rest_of.simps) (simp add: fill_off split: prod.splits option.splits)
  also have "\<dots> = rest_of r" by (rule rest_of.simps [symmetric])
  finally show ?thesis .
qed

lemma fill_off_zero: "fill r = (r', None) \<Longrightarrow> r_off r' = 0"
  by (auto simp: fill_def ReadFull_def Let_def split: if_splits option.splits)

lemma Read_loop_pending:
  "Read_loop r = (r', None) \<Longrightarrow> pending r' = pending r"
  "Read_loop r = (r', Some e) \<Longrightarrow> pending r = ([], if e = EOF then None else Some e)"
proof (induction r rule: Read_loop.induct)
  case (1 r)
  {
    case 1
    show ?case
    proof (cases "length (r_out r) \<le> r_off r")
      case True
      with 1 obtain r1 where r1: "\<not> r_done r" "fill r = (r1, None)" "Read_loop r1 = (r', None)"
        by (auto simp: Read_loop.simps [of r] split: if_splits prod.splits option.splits)
      have "pending r = pending r1"
        using True r1 fill_off_zero [OF r1(2)] by (simp add: pending_def rest_of.simps [of r] split: prod.splits)
      with True r1 "1.IH"(1) [OF True r1(1) r1(2) [symmetric] refl] show ?thesis by simp
    next
      case False
      with 1 show ?thesis by (simp add: Read_loop.simps [of r])
    qed
  next
    case 2
    show ?case
    proof (cases "r_done r")
      case True
      with 2 show ?thesis
        by (auto simp: Read_loop.simps [of r] pending_def rest_of.simps [of r] split: if_splits)
    next
      case False
      with 2 have off: "length (r_out r) \<le> r_off r"
        by (auto simp: Read_loop.simps [of r] split: if_splits)
      show ?thesis
      proof (cases "snd (fill r)")
        case None
        then obtain r1 where r1: "fill r = (r1, None)" by (metis prod.collapse)
        have "pending r = pending r1"
          using off False r1 fill_off_zero [OF r1]
          by (simp add: pending_def rest_of.simps [of r] split: prod.splits)
        moreover have "Read_loop r1 = (r', Some e)"
          using 2 off False r1 by (simp add: Read_loop.simps [of r])
        ultimately show ?thesis using "1.IH"(2) [OF off False r1 [symmetric] refl] by simp
      next
        case (Some e')
        then obtain r1 where r1: "fill r = (r1, Some e')" by (metis prod.collapse)
        with 2 off False fill_error [OF r1] show ?thesis
          by (auto simp: Read_loop.simps [of r] pending_def rest_of.simps [of r])
      qed
    qed
  }
qed

lemma Read_pending:
  "Read r n = (r', Inr b) \<Longrightarrow> pending r = (case pending r' of (x, e) \<Rightarrow> (b @ x, e))"
  "Read r n = (r', Inl e) \<Longrightarrow> pending r = ([], if e = EOF then None else Some e)"
proof -
  assume "Read r n = (r', Inr b)"
  then obtain r1 where r1: "Read_loop r = (r1, None)"
    and b: "b = take n (drop (r_off r1) (r_out r1))" and r': "r' = r1\<lparr>r_off := r_off r1 + length b\<rparr>"
    by (auto simp: Read_def Let_def split: prod.splits option.splits)
  obtain x e where rest: "rest_of r1 = (x, e)" by (cases "rest_of r1")
  have "drop (r_off r1) (r_out r1) = b @ drop (r_off r1 + length b) (r_out r1)"
    unfolding b by (simp add: min_def)
      (metis append_take_drop_id drop_drop add.commute length_drop order_refl take_all append_Nil2 drop_all)
  with r' rest have "pending r1 = (case pending r' of (x, e) \<Rightarrow> (b @ x, e))"
    by (simp add: pending_def)
  with Read_loop_pending(1) [OF r1] show "pending r = (case pending r' of (x, e) \<Rightarrow> (b @ x, e))"
    by simp
next
  assume "Read r n = (r', Inl e)"
  then have "Read_loop r = (r', Some e)"
    by (auto simp: Read_def Let_def split: prod.splits option.splits)
  then show "pending r = ([], if e = EOF then None else Some e)" by (rule Read_loop_pending(2))
qed

lemma CopyAll_pending: "CopyAll r = pending r"
proof (induction r rule: CopyAll.induct)
  case (1 r)
  show ?case
  proof (cases "snd (Read r copyBuf)")
    case (Inl e)
    then obtain r' where rd: "Read r copyBuf = (r', Inl e)" by (metis prod.collapse)
    with Read_pending(2) [OF rd] show ?thesis by (subst CopyAll.simps) simp
  next
    case (Inr b)
    then obtain r' where rd: "Read r copyBuf = (r', Inr b)" by (metis prod.collapse)
    have "CopyAll r' = pending r'" by (rule "1.IH" [OF rd [symmetric] refl])
    with Read_pending(1) [OF rd] rd show ?thesis by (subst CopyAll.simps) simp
  qed
qed

lemma CopyN_pending:
  "pending r = (pt, e) \<Longrightarrow> n \<le> length pt \<Longrightarrow>
   \<exists>r'. CopyN r n = (take n pt, None, r') \<and> pending r' = (drop n pt, e)"
proof (induction r n arbitrary: pt rule: CopyN.induct)
  case (1 r n)
  show ?case
  proof (cases "n = 0")
    case True
    with "1.prems" show ?thesis by (simp add: CopyN.simps)
  next
    case False
    let ?m = "min copyBuf n"
    have m: "0 < ?m" using False by simp
    obtain r' b where rd: "Read r ?m = (r', Inr b)"
    proof (cases "snd (Read r ?m)")
      case (Inl e')
      then have "Read r ?m = (fst (Read r ?m), Inl e')" by (metis prod.collapse)
      from Read_pending(2) [OF this] "1.prems" False show ?thesis by simp
    next
      case (Inr b)
      then have "Read r ?m = (fst (Read r ?m), Inr b)" by (metis prod.collapse)
      then show ?thesis by (rule that)
    qed
    from Read_progress [OF rd m] have b: "0 < length b" "length b \<le> n" by simp_all
    obtain x where pend': "pending r' = (x, e)" and pt: "pt = b @ x"
      using Read_pending(1) [OF rd] "1.prems"(1) by (cases "pending r'") simp
    have "n - length b \<le> length x" using "1.prems"(2) pt by simp
    from "1.IH" [OF False rd [symmetric] refl pend' this]
    obtain r'' where "CopyN r' (n - length b) = (take (n - length b) x, None, r'')"
        "pending r'' = (drop (n - length b) x, e)" by blast
    then show ?thesis using False rd pt b by (subst CopyN.simps) (simp only: if_False prod.case sum.case take_append drop_append, simp)
  qed
qed

subsection \<open>Reading the ideal layout\<close>

lemma rest_of_stream:
  assumes "good_key (r_key r) (r_prefix r)" "full_chunks cs" "length c \<le> ChunkSize"
    and "\<not> r_done r" "\<not> src_fail (r_src r)" "r_index r = of_nat i"
    and "src_data (r_src r) =
      seal_chunks (r_key r) (r_prefix r) i cs @ seal_last (r_key r) (r_prefix r) (i + length cs) c"
  shows "rest_of r = (concat cs @ c, None)"
  using assms
proof (induction cs arbitrary: r i)
  case Nil
  let ?r' = "r\<lparr>r_src := (r_src r)\<lparr>src_data := []\<rparr>, r_out := c, r_off := 0,
               r_index := r_index r + 1, r_done := True\<rparr>"
  have "fill r = (?r', None)"
    by (rule fill_last) (use Nil in \<open>simp_all add: seal_last_def\<close>)
  moreover have "rest_of ?r' = ([], None)" by (subst rest_of.simps) simp
  ultimately show ?case using Nil.prems(4) by (subst rest_of.simps) simp
next
  case (Cons d cs)
  let ?rest = "seal_chunks (r_key r) (r_prefix r) (Suc i) cs @
      seal_last (r_key r) (r_prefix r) (Suc i + length cs) c"
  let ?r' = "r\<lparr>r_src := (r_src r)\<lparr>src_data := ?rest\<rparr>, r_out := d, r_off := 0,
               r_index := r_index r + 1\<rparr>"
  have "fill r = (?r', None)"
    by (rule fill_interior) (use Cons.prems in simp_all)
  moreover have "rest_of ?r' = (concat cs @ c, None)"
    by (rule Cons.IH [of _ "Suc i"]) (use Cons.prems in \<open>simp_all add: add.commute\<close>)
  ultimately show ?case using Cons.prems(4) by (subst rest_of.simps) simp
qed

lemma rest_of_truncated:
  assumes "good_key (r_key r) (r_prefix r)" "full_chunks cs"
    and "\<not> r_done r" "\<not> src_fail (r_src r)" "r_index r = of_nat i"
    and "src_data (r_src r) = seal_chunks (r_key r) (r_prefix r) i cs"
  shows "rest_of r = (concat cs, Some CryptoCorrupt)"
  using assms
proof (induction cs arbitrary: r i)
  case Nil
  then obtain r' where "fill r = (r', Some CryptoCorrupt)"
    using fill_truncated [of r] by auto
  with Nil.prems(3) show ?case by (subst rest_of.simps) simp
next
  case (Cons d cs)
  let ?r' = "r\<lparr>r_src := (r_src r)\<lparr>src_data := seal_chunks (r_key r) (r_prefix r) (Suc i) cs\<rparr>,
               r_out := d, r_off := 0, r_index := r_index r + 1\<rparr>"
  have "fill r = (?r', None)"
    by (rule fill_interior) (use Cons.prems in simp_all)
  moreover have "rest_of ?r' = (concat cs, Some CryptoCorrupt)"
    by (rule Cons.IH [of _ "Suc i"]) (use Cons.prems in \<open>simp_all add: add.commute\<close>)
  ultimately show ?case using Cons.prems(3) by (subst rest_of.simps) simp
qed

abbreviation file_source :: "bytes \<Rightarrow> source" where
  "file_source b \<equiv> \<lparr>src_data = b, src_fail = False\<rparr>"

lemma ReadFull_header:
  "length pfx = noncePrefixSize \<Longrightarrow>
   ReadFull (file_source (stream_header pfx @ b)) headerSize =
     (stream_header pfx, None, file_source b)"
  by (subst ReadFull_exact) (simp_all add: stream_header_def magic_def size_defs)

lemma drop5_stream_header [simp]: "drop 5 (stream_header pfx) = pfx"
  by (simp add: stream_header_def magic_def)

lemma NewReader_header:
  assumes "good_key k pfx"
  shows "NewReader (file_source (stream_header pfx @ b)) k =
    Inr \<lparr>r_key = k, r_src = file_source b, r_prefix = pfx, r_out = [], r_off = 0, r_index = 0,
         r_done = False\<rparr>"
  using assms by (simp add: NewReader_def newGCM_def good_key_def ReadFull_header badHeader_stream)

lemma sdiv_nat: "int a sdiv int b = int (a div b)"
  by (simp add: signed_divide_int_def sgn_if zdiv_int)

lemma smod_nat: "int a smod int b = int (a mod b)"
  by (cases "a = 0") (simp_all add: signed_modulo_int_def sdiv_nat zdiv_int zmod_int minus_div_mult_eq_mod)

lemma chunkOffset_nat:
  assumes "off < 2 ^ 61"
  shows "chunkOffset (int (off div ChunkSize)) =
    int (headerSize + (off div ChunkSize) * (ChunkSize + TagSize))"
proof -
  let ?i = "off div ChunkSize"
  have "?i * ChunkSize \<le> off" by simp
  moreover have "?i * TagSize \<le> ?i * ChunkSize" by (simp add: TagSize_def ChunkSize_def)
  ultimately have "?i * (ChunkSize + TagSize) \<le> 2 * off" unfolding distrib_left by linarith
  with assms have "?i * (ChunkSize + TagSize) < 2 ^ 62" by simp
  then have "int (?i * (ChunkSize + TagSize)) < int (2 ^ 62)" by (simp only: of_nat_less_iff)
  moreover define X where "X = int (?i * (ChunkSize + TagSize))"
  ultimately have "0 \<le> X" "X < 2 ^ 62" by simp_all
  then have "i64 X = X" "i64 (int headerSize + X) = int headerSize + X"
    by (simp_all add: headerSize_def)
  moreover have "int ?i * int (ChunkSize + TagSize) = X" by (simp add: X_def)
  ultimately show ?thesis by (simp only: chunkOffset_def X_def of_nat_add)
qed

lemma OpenAt_stream:
  assumes "good_key k pfx" "full_chunks cs" "length c \<le> ChunkSize"
    and off: "off < length (concat cs @ c)" and big: "off < 2 ^ 61"
  obtains r where "OpenAt (file_source (stream_of k pfx cs c)) k (int off) = Inr r"
    and "pending r = (drop off (concat cs @ c), None)"
proof -
  let ?i = "off div ChunkSize" and ?w = "off mod ChunkSize"
  let ?tail = "seal_chunks k pfx ?i (drop ?i cs) @ seal_last k pfx (length cs) c"
  let ?r = "\<lparr>r_key = k, r_src = file_source ?tail, r_prefix = pfx, r_out = [], r_off = 0,
             r_index = of_nat ?i, r_done = False\<rparr>"
  have i: "?i \<le> length cs"
  proof -
    have "off < (length cs + 1) * ChunkSize" using off assms(2,3) by (simp add: length_concat_full)
    then have "?i < length cs + 1" by (simp add: div_less_iff_less_mult)
    then show ?thesis by simp
  qed
  have seek: "drop (headerSize + ?i * (ChunkSize + TagSize)) (stream_of k pfx cs c) = ?tail"
    using assms(1,2) i
    by (simp add: stream_of_def partial_of_def good_key_def seal_chunks_split length_seal_chunks)
  have "rest_of ?r = (concat (drop ?i cs) @ c, None)"
    by (rule rest_of_stream [where i = ?i]) (use assms i in \<open>simp_all add: full_chunks_drop\<close>)
  then have pend: "pending ?r = (drop (?i * ChunkSize) (concat cs @ c), None)"
    using assms(2) i by (simp add: pending_def concat_drop_full length_concat_full)
  note pos = chunkOffset_nat [OF big]
  have hd: "ReadFull (file_source (stream_of k pfx cs c)) headerSize =
      (stream_header pfx, None,
       file_source (seal_chunks k pfx 0 cs @ seal_last k pfx (length cs) c))"
    using assms(1) by (simp add: stream_of_def partial_of_def good_key_def ReadFull_header)
  have dd: "drop ?w (drop (?i * ChunkSize) xs) = drop off xs" for xs :: bytes
    by (simp add: mult.commute)
  have open_at: "OpenAt (file_source (stream_of k pfx cs c)) k (int off) =
      (if 0 < ?w then (case CopyN ?r ?w of
          (_, Some e, _) \<Rightarrow> Inl (if e = EOF then Other ''cryptobox: offset past end of stream'' else e)
        | (_, None, r') \<Rightarrow> Inr r') else Inr ?r)"
    using assms(1)
    by (simp add: OpenAt_def newGCM_def good_key_def hd badHeader_stream sdiv_nat smod_nat pos
        nat_int_add seek Let_def del: of_nat_add of_nat_mult)
  show ?thesis
  proof (cases "?w = 0")
    case True
    then have "off = ?i * ChunkSize" by (metis add.right_neutral div_mult_mod_eq)
    with True that [of ?r] open_at pend show ?thesis by simp
  next
    case False
    have "?w \<le> length (drop (?i * ChunkSize) (concat cs @ c))"
      unfolding length_drop minus_div_mult_eq_mod [symmetric] using off by (intro diff_le_mono) simp
    from CopyN_pending [OF pend this] obtain r' where
        "CopyN ?r ?w = (take ?w (drop (?i * ChunkSize) (concat cs @ c)), None, r')"
        "pending r' = (drop off (concat cs @ c), None)"
      by (auto simp only: dd)
    with False that [of r'] open_at show ?thesis by simp
  qed
qed

subsection \<open>Encrypting and decrypting whole files\<close>

text \<open>
  The two pipelines the code runs: a fresh writer fed from a body and closed, and a reader
  drained to its end.
\<close>

abbreviation empty_sink :: sink where
  "empty_sink \<equiv> \<lparr>sink_data = [], sink_room = None\<rparr>"

definition encrypt_pieces :: "bytes \<Rightarrow> bytes \<Rightarrow> bytes list \<Rightarrow> bytes res" where
  "encrypt_pieces k pfx ps =
     (case NewWriter empty_sink k pfx of
        Inl e \<Rightarrow> Inl e
      | Inr w \<Rightarrow>
          case CopyBody w ps False (length (concat ps)) 0 of
            (w', n, Some e) \<Rightarrow> Inl e
          | (w', n, None) \<Rightarrow>
              (case CloseWriter w' of
                 (w'', Some e) \<Rightarrow> Inl e
               | (w'', None) \<Rightarrow> Inr (sink_data (w_dst w''))))"

definition decrypt_file :: "source \<Rightarrow> bytes \<Rightarrow> bytes \<times> err option" where
  "decrypt_file f k = (case NewReader f k of Inl e \<Rightarrow> ([], Some e) | Inr r \<Rightarrow> CopyAll r)"

definition decrypt_at :: "source \<Rightarrow> bytes \<Rightarrow> int \<Rightarrow> bytes \<times> err option" where
  "decrypt_at f k off = (case OpenAt f k off of Inl e \<Rightarrow> ([], Some e) | Inr r \<Rightarrow> CopyAll r)"

lemma encrypt_pieces_stream:
  assumes "length k = KeySize"
  obtains cs c where "encrypt_pieces k pfx ps = Inr (stream_of k pfx cs c)"
    and "full_chunks cs" "length c \<le> ChunkSize" "concat ps = concat cs @ c"
    and "concat ps \<noteq> [] \<longrightarrow> c \<noteq> []"
proof -
  obtain w where w: "NewWriter empty_sink k pfx = Inr w" "writer_at w k pfx [] []"
    by (rule NewWriter_at [OF assms])
  have "\<exists>w' cs c. CopyBody w ps False (length (concat ps)) 0 = (w', length (concat ps), None) \<and>
      writer_at w' k pfx cs c \<and> concat ps = concat cs @ c \<and> (concat ps \<noteq> [] \<longrightarrow> c \<noteq> [])"
    using CopyBody_at [OF w(2), of ps False "length (concat ps)" 0]
    by (simp only: append_Nil add_0 min.idem take_all order_refl less_irrefl simp_thms if_False)
  then obtain w' cs c where *:
      "CopyBody w ps False (length (concat ps)) 0 = (w', length (concat ps), None)"
      "writer_at w' k pfx cs c" "concat ps = concat cs @ c" "concat ps \<noteq> [] \<longrightarrow> c \<noteq> []"
    by blast
  obtain w'' where w'': "CloseWriter w' = (w'', None)" "sink_data (w_dst w'') = stream_of k pfx cs c"
    by (rule CloseWriter_at [OF *(2)])
  show ?thesis
    by (rule that [of cs c])
      (use w(1) * w'' writer_at_length [OF *(2)] in \<open>auto simp: encrypt_pieces_def\<close>)
qed

lemma decrypt_file_header:
  assumes "good_key k pfx"
    and "rest_of \<lparr>r_key = k, r_src = file_source b, r_prefix = pfx, r_out = [], r_off = 0, r_index = 0,
         r_done = False\<rparr> = res"
  shows "decrypt_file (file_source (stream_header pfx @ b)) k = res"
  using assms by (simp add: decrypt_file_def NewReader_header CopyAll_pending pending_def)

lemma decrypt_file_stream:
  assumes "good_key k pfx" "full_chunks cs" "length c \<le> ChunkSize"
  shows "decrypt_file (file_source (stream_of k pfx cs c)) k = (concat cs @ c, None)"
  unfolding stream_of_def partial_of_def append_assoc
  by (rule decrypt_file_header [OF assms(1)], rule rest_of_stream [where i = 0]) (use assms in simp_all)

lemma decrypt_file_partial:
  assumes "good_key k pfx" "full_chunks cs"
  shows "decrypt_file (file_source (partial_of k pfx cs)) k = (concat cs, Some CryptoCorrupt)"
  unfolding partial_of_def
  by (rule decrypt_file_header [OF assms(1)], rule rest_of_truncated [where i = 0]) (use assms in simp_all)

lemma decrypt_at_stream:
  assumes "good_key k pfx" "full_chunks cs" "length c \<le> ChunkSize"
    and "off < length (concat cs @ c)" "off < 2 ^ 61"
  shows "decrypt_at (file_source (stream_of k pfx cs c)) k (int off) = (drop off (concat cs @ c), None)"
  by (rule OpenAt_stream [OF assms]) (simp add: decrypt_at_def CopyAll_pending)

subsection \<open>Torn files\<close>

lemma partial_prefix:
  assumes "good_key k pfx" "full_chunks cs" "i \<le> length cs"
  shows "take (headerSize + i * (ChunkSize + TagSize)) (partial_of k pfx cs) =
    partial_of k pfx (take i cs)"
proof -
  have "partial_of k pfx cs = partial_of k pfx (take i cs) @ seal_chunks k pfx i (drop i cs)"
    using seal_chunks_append [of k pfx 0 "take i cs" "drop i cs"] assms(3)
    by (simp add: partial_of_def min_def)
  moreover have "length (partial_of k pfx (take i cs)) = headerSize + i * (ChunkSize + TagSize)"
    using assms by (simp add: length_partial_of full_chunks_take min_def)
  ultimately show ?thesis by simp
qed

lemma AlignDown_nat:
  "AlignDown (int (headerSize + n * (ChunkSize + TagSize) + t)) =
    int (headerSize + (n + t div (ChunkSize + TagSize)) * (ChunkSize + TagSize))"
proof -
  let ?N = "ChunkSize + TagSize"
  have N: "0 < ?N" by simp
  show ?thesis
  proof (cases "n * ?N + t = 0")
    case True
    then have "n = 0" "t = 0" using N by simp_all
    then show ?thesis by (simp add: AlignDown_def)
  next
    case False
    have "int (headerSize + n * ?N + t) - int headerSize = int (n * ?N + t)" by simp
    moreover have "(n * ?N + t) div ?N = n + t div ?N" using N by (simp only: div_mult_self3 neq0_conv)
    moreover have "\<not> int (headerSize + n * ?N + t) \<le> int headerSize"
      using False unfolding of_nat_le_iff by linarith
    ultimately have "AlignDown (int (headerSize + n * ?N + t)) =
        int headerSize + int (n + t div ?N) * int ?N"
      by (simp only: AlignDown_def Let_def sdiv_nat if_False)
    then show ?thesis by (simp only: of_nat_add of_nat_mult)
  qed
qed

text \<open>
  Whatever a broken write left after the last whole chunk, truncating to \<open>AlignDown\<close> leaves
  the chunks before it.
\<close>

lemma AlignDown_torn:
  assumes "good_key k pfx" "full_chunks cs" "length torn < ChunkSize + TagSize"
  shows "take (nat (AlignDown (int (length (partial_of k pfx cs @ torn))))) (partial_of k pfx cs @ torn) =
    partial_of k pfx cs"
proof -
  have len: "length (partial_of k pfx cs @ torn) =
      headerSize + length cs * (ChunkSize + TagSize) + length torn"
    using assms by (simp add: length_partial_of)
  have "nat (AlignDown (int (length (partial_of k pfx cs @ torn)))) = length (partial_of k pfx cs)"
    using assms AlignDown_nat [of "length cs" "length torn"]
    by (simp add: len length_partial_of del: length_append of_nat_add of_nat_mult)
  then show ?thesis by simp
qed

lemma InspectPartial_partial:
  assumes "good_key k pfx" "full_chunks cs"
  shows "InspectPartial (file_source (partial_of k pfx cs)) (int (length (partial_of k pfx cs))) =
    Inr \<lparr>NoncePrefix = pfx, NextIndex = of_nat (length cs), PlaintextLen = int (length (concat cs))\<rparr>"
proof -
  let ?N = "ChunkSize + TagSize"
  have "int (length (partial_of k pfx cs)) - int headerSize = int (length cs * ?N)"
    using assms by (simp add: length_partial_of)
  moreover have "ReadFull (file_source (partial_of k pfx cs)) headerSize =
      (stream_header pfx, None, file_source (seal_chunks k pfx 0 cs))"
    using assms(1) by (simp add: partial_of_def good_key_def ReadFull_header)
  moreover have "headerSize \<le> length (partial_of k pfx cs)"
    using assms by (simp add: length_partial_of)
  ultimately show ?thesis
    using assms(2)
    by (simp add: InspectPartial_def badHeader_stream Let_def sdiv_nat smod_nat length_concat_full
        del: of_nat_add of_nat_mult) simp
qed

text \<open>
  Resuming: drop a torn tail, read the resume point back from the header and the length,
  append the rest of the plaintext and close.
\<close>

definition resume_pieces :: "bytes \<Rightarrow> bytes \<Rightarrow> bytes list \<Rightarrow> bytes res" where
  "resume_pieces k file ps =
     (let aligned = AlignDown (int (length file)); data = take (nat aligned) file in
      case InspectPartial (file_source data) aligned of
        Inl e \<Rightarrow> Inl e
      | Inr st \<Rightarrow>
          case NewResumeWriter \<lparr>sink_data = data, sink_room = None\<rparr> k st of
            Inl e \<Rightarrow> Inl e
          | Inr w \<Rightarrow>
              case CopyBody w ps False (length (concat ps)) 0 of
                (w', n, Some e) \<Rightarrow> Inl e
              | (w', n, None) \<Rightarrow>
                  (case CloseWriter w' of
                     (w'', Some e) \<Rightarrow> Inl e
                   | (w'', None) \<Rightarrow> Inr (sink_data (w_dst w''))))"

text \<open>The nonces of a stream of \<open>m\<close> interior chunks and its last one, in order.\<close>

definition stream_nonces :: "bytes \<Rightarrow> nat \<Rightarrow> bytes list" where
  "stream_nonces pfx m =
     map (\<lambda>i. nonce pfx (of_nat i) False) [0..<m] @ [nonce pfx (of_nat m) True]"

lemma of_nat_u32_inject: "i < 2 ^ 32 \<Longrightarrow> j < 2 ^ 32 \<Longrightarrow> (of_nat i :: u32) = of_nat j \<longleftrightarrow> i = j"
  by (simp add: word_of_nat_eq_iff take_bit_eq_mod)

lemma of_nat_u32_wraps: "(of_nat (2 ^ 32) :: u32) = of_nat 0"
  by (simp only: word_of_nat_eq_iff) (simp add: take_bit_eq_mod)

text \<open>How many chunks a plaintext of \<open>m * ChunkSize + b\<close> bytes takes.\<close>

lemma CiphertextSize_chunks:
  assumes "b \<le> ChunkSize" "b = 0 \<longrightarrow> m = 0" "m * ChunkSize + b < 2 ^ 61"
  shows "CiphertextSize (int (m * ChunkSize + b)) =
    int (headerSize + m * (ChunkSize + TagSize) + b + TagSize)"
proof -
  let ?L = "m * ChunkSize + b"
  have "(if ?L mod ChunkSize \<noteq> 0 \<or> ?L = 0 then ?L div ChunkSize + 1 else ?L div ChunkSize) = m + 1"
    using assms(1,2) by (cases "b = ChunkSize") auto
  then have chunks: "(if int ?L smod int ChunkSize \<noteq> 0 \<or> int ?L = 0
      then int ?L sdiv int ChunkSize + 1 else int ?L sdiv int ChunkSize) = int (m + 1)"
    unfolding sdiv_nat smod_nat of_nat_eq_0_iff by (simp split: if_splits)
  have "m * TagSize \<le> m * ChunkSize" by (simp add: TagSize_def ChunkSize_def)
  moreover have "headerSize + ?L + (m + 1) * TagSize = headerSize + TagSize + ?L + m * TagSize"
    by (simp add: distrib_right)
  ultimately have "headerSize + ?L + (m + 1) * TagSize < headerSize + TagSize + 2 ^ 61 + 2 ^ 61"
    using assms(3) by linarith
  then have "headerSize + ?L + (m + 1) * TagSize < 2 ^ 63"
    by (simp add: headerSize_def TagSize_def)
  then have "int (headerSize + ?L + (m + 1) * TagSize) < int (2 ^ 63)" by (simp only: of_nat_less_iff)
  moreover define X where "X = int (headerSize + ?L + (m + 1) * TagSize)"
  ultimately have "X < int (2 ^ 63)" "0 \<le> X" by (simp_all only: X_def of_nat_0_le_iff)
  then have "i64 X = X" by simp
  moreover have "int headerSize + int ?L + int (m + 1) * int TagSize = X"
    by (simp only: X_def of_nat_add of_nat_mult)
  ultimately have "i64 (int headerSize + int ?L + int (m + 1) * int TagSize) =
      int (headerSize + ?L + (m + 1) * TagSize)" by (simp only: X_def)
  then show ?thesis
    by (simp only: CiphertextSize_def Let_def chunks) (simp add: algebra_simps)
qed

subsection \<open>Properties of the format\<close>

text \<open>
  C6: encrypting a plaintext, in whatever pieces it arrives, succeeds, and decrypting the
  resulting file with the same key delivers exactly that plaintext and a clean end.
\<close>

theorem stream_roundtrip:
  assumes "length k = KeySize" "length pfx = noncePrefixSize"
  shows "\<exists>ct. encrypt_pieces k pfx ps = Inr ct \<and> decrypt_file (file_source ct) k = (concat ps, None)"
proof -
  obtain cs c where "encrypt_pieces k pfx ps = Inr (stream_of k pfx cs c)"
      "full_chunks cs" "length c \<le> ChunkSize" "concat ps = concat cs @ c"
    using encrypt_pieces_stream [OF assms(1)] by blast
  with assms show ?thesis by (auto simp: good_key_def decrypt_file_stream)
qed

theorem stream_roundtrip_witness:
  "\<exists>ct. encrypt_pieces (replicate 32 7) (replicate 7 1) [[1, 2], [], [3]] = Inr ct \<and>
    decrypt_file (file_source ct) (replicate 32 7) = ([1, 2, 3], None)"
  using stream_roundtrip [of "replicate 32 7" "replicate 7 1" "[[1, 2], [], [3]]"]
  by (simp add: size_defs)

text \<open>
  C7: opening an encrypted file at any plaintext offset inside it delivers exactly the
  plaintext from that offset to the end, although only the chunks from the one containing
  the offset are read.
\<close>

theorem stream_seek:
  assumes "length k = KeySize" "length pfx = noncePrefixSize"
    and "encrypt_pieces k pfx ps = Inr ct" "off < length (concat ps)" "off < 2 ^ 61"
  shows "decrypt_at (file_source ct) k (int off) = (drop off (concat ps), None)"
proof -
  obtain cs c where "encrypt_pieces k pfx ps = Inr (stream_of k pfx cs c)"
      "full_chunks cs" "length c \<le> ChunkSize" "concat ps = concat cs @ c"
    using encrypt_pieces_stream [OF assms(1)] by blast
  with assms show ?thesis using decrypt_at_stream [of k pfx cs c off] by (simp add: good_key_def)
qed

theorem stream_seek_witness:
  "\<exists>ct. encrypt_pieces (replicate 32 7) (replicate 7 1) [[1, 2], [3]] = Inr ct \<and>
    decrypt_at (file_source ct) (replicate 32 7) (int 2) = ([3], None)"
proof -
  have k: "length (replicate 32 (7::byte)) = KeySize"
    and p: "length (replicate 7 (1::byte)) = noncePrefixSize" by (simp_all add: size_defs)
  obtain cs c where "encrypt_pieces (replicate 32 7) (replicate 7 1) [[1, 2], [3]] =
      Inr (stream_of (replicate 32 7) (replicate 7 1) cs c)"
    by (rule encrypt_pieces_stream [OF k])
  with stream_seek [OF k p this, of 2] show ?thesis by auto
qed

text \<open>
  C8: a file cut short at a chunk boundary anywhere before its last chunk never decrypts as
  a shorter file: the reader delivers the whole chunks it kept and then reports corruption.
\<close>

theorem stream_truncation_detected:
  assumes "length k = KeySize" "length pfx = noncePrefixSize"
    and "encrypt_pieces k pfx ps = Inr ct"
    and "headerSize + i * (ChunkSize + TagSize) < length ct"
  shows "decrypt_file (file_source (take (headerSize + i * (ChunkSize + TagSize)) ct)) k =
    (take (i * ChunkSize) (concat ps), Some CryptoCorrupt)"
proof -
  obtain cs c where cs: "encrypt_pieces k pfx ps = Inr (stream_of k pfx cs c)"
      "full_chunks cs" "length c \<le> ChunkSize" "concat ps = concat cs @ c"
    using encrypt_pieces_stream [OF assms(1)] by blast
  have gk: "good_key k pfx" using assms by (simp add: good_key_def)
  have ct: "ct = partial_of k pfx cs @ seal_last k pfx (length cs) c"
    using cs(1) assms(3) by (simp add: stream_of_def)
  have "i * (ChunkSize + TagSize) < (length cs + 1) * (ChunkSize + TagSize)"
    using assms(1,4) gk cs(2,3) by (simp add: ct length_partial_of seal_last_def)
  then have i: "i \<le> length cs" by (simp only: mult_less_cancel2 Suc_eq_plus1 [symmetric] less_Suc_eq_le)
  then have "take (headerSize + i * (ChunkSize + TagSize)) ct = partial_of k pfx (take i cs)"
    using gk cs(2) by (simp add: ct length_partial_of partial_prefix)
  moreover have "take (i * ChunkSize) (concat ps) = concat (take i cs)"
  proof -
    have "length (concat (take i cs)) = i * ChunkSize"
      using length_concat_full [OF full_chunks_take [OF cs(2)], of i] i by (simp add: min_def)
    moreover have "concat ps = concat (take i cs) @ concat (drop i cs) @ c"
      unfolding cs(4) by (metis append_assoc append_take_drop_id concat_append)
    ultimately show ?thesis by simp
  qed
  ultimately show ?thesis
    using decrypt_file_partial [OF gk full_chunks_take [OF cs(2)]] by simp
qed

theorem stream_truncation_detected_witness:
  "\<exists>ct. encrypt_pieces (replicate 32 7) (replicate 7 1) [[1, 2, 3]] = Inr ct \<and>
    decrypt_file (file_source (take 12 ct)) (replicate 32 7) = ([], Some CryptoCorrupt)"
proof -
  have k: "length (replicate 32 (7::byte)) = KeySize"
    and p: "length (replicate 7 (1::byte)) = noncePrefixSize" by (simp_all add: size_defs)
  obtain cs c where e: "encrypt_pieces (replicate 32 7) (replicate 7 1) [[1, 2, 3]] =
      Inr (stream_of (replicate 32 7) (replicate 7 1) cs c)" and cs: "full_chunks cs"
    by (rule encrypt_pieces_stream [OF k])
  have "headerSize + 0 * (ChunkSize + TagSize) < length (stream_of (replicate 32 7) (replicate 7 1) cs c)"
    using k p cs by (simp add: stream_of_def length_partial_of good_key_def seal_last_def TagSize_def)
  from stream_truncation_detected [OF k p e this] e show ?thesis by (simp add: headerSize_def)
qed





text \<open>
  \<open>CiphertextSize\<close> is exact: it is the length of the file that encrypting a plaintext
  of that many bytes produces.
\<close>

theorem ciphertext_size_exact:
  assumes "length k = KeySize" "length pfx = noncePrefixSize"
    and "encrypt_pieces k pfx ps = Inr ct" "length (concat ps) < 2 ^ 61"
  shows "CiphertextSize (int (length (concat ps))) = int (length ct)"
proof -
  obtain cs c where cs: "encrypt_pieces k pfx ps = Inr (stream_of k pfx cs c)"
      "full_chunks cs" "length c \<le> ChunkSize" "concat ps = concat cs @ c" "concat ps \<noteq> [] \<longrightarrow> c \<noteq> []"
    using encrypt_pieces_stream [OF assms(1)] by blast
  have len: "length (concat ps) = length cs * ChunkSize + length c"
    using cs(2,4) by (simp add: length_concat_full)
  have "length c = 0 \<longrightarrow> length cs = 0"
    using cs(5) len by (metis ChunkSize_neq_0 add_is_0 length_0_conv mult_is_0)
  from CiphertextSize_chunks [OF cs(3) this] assms(4) len
  have "CiphertextSize (int (length (concat ps))) =
      int (headerSize + length cs * (ChunkSize + TagSize) + length c + TagSize)" by simp
  also have "headerSize + length cs * (ChunkSize + TagSize) + length c + TagSize = length ct"
    using assms cs(1,2) by (auto simp: stream_of_def length_partial_of good_key_def seal_last_def)
  finally show ?thesis .
qed

theorem ciphertext_size_exact_witness:
  "\<exists>ct. encrypt_pieces (replicate 32 7) (replicate 7 1) [[1, 2], [3]] = Inr ct \<and>
    CiphertextSize 3 = int (length ct)"
proof -
  have k: "length (replicate 32 (7::byte)) = KeySize"
    and p: "length (replicate 7 (1::byte)) = noncePrefixSize" by (simp_all add: size_defs)
  obtain cs c where e: "encrypt_pieces (replicate 32 7) (replicate 7 1) [[1, 2], [3]] =
      Inr (stream_of (replicate 32 7) (replicate 7 1) cs c)"
    by (rule encrypt_pieces_stream [OF k])
  with ciphertext_size_exact [OF k p e] show ?thesis by simp
qed

text \<open>
  C9: an interrupted stream resumes.  Whatever a broken write left behind the last whole
  chunk, truncating to \<open>AlignDown\<close>, reading the resume point back and appending the rest of
  the plaintext yields a file that decrypts to the whole plaintext.
\<close>

theorem stream_resume:
  assumes "length k = KeySize" "length pfx = noncePrefixSize" "full_chunks cs"
    and "length torn < ChunkSize + TagSize"
  shows "\<exists>ct. resume_pieces k (partial_of k pfx cs @ torn) ps = Inr ct \<and>
    decrypt_file (file_source ct) k = (concat cs @ concat ps, None)"
proof -
  let ?f = "partial_of k pfx cs @ torn" and ?st = "\<lparr>NoncePrefix = pfx,
      NextIndex = of_nat (length cs), PlaintextLen = int (length (concat cs))\<rparr>"
  have gk: "good_key k pfx" using assms by (simp add: good_key_def)
  have al: "AlignDown (int (length ?f)) = int (length (partial_of k pfx cs))"
    using assms(4) AlignDown_nat [of "length cs" "length torn"]
    by (simp add: length_partial_of [OF gk assms(3)] del: of_nat_add of_nat_mult)
  obtain w where w: "NewResumeWriter \<lparr>sink_data = partial_of k pfx cs, sink_room = None\<rparr> k ?st = Inr w"
      "writer_at w k pfx cs []"
    by (rule NewResumeWriter_at [OF gk assms(3)])
  have "\<exists>w' ds c. CopyBody w ps False (length (concat ps)) 0 = (w', length (concat ps), None) \<and>
      writer_at w' k pfx (cs @ ds) c \<and> concat ps = concat ds @ c"
    using CopyBody_at [OF w(2), of ps False "length (concat ps)" 0]
    by (simp only: append_Nil add_0 min.idem take_all order_refl less_irrefl simp_thms if_False) blast
  then obtain w' ds c where w': "CopyBody w ps False (length (concat ps)) 0 = (w', length (concat ps), None)"
      "writer_at w' k pfx (cs @ ds) c" "concat ps = concat ds @ c" by blast
  obtain w'' where w'': "CloseWriter w' = (w'', None)"
      "sink_data (w_dst w'') = stream_of k pfx (cs @ ds) c"
    by (rule CloseWriter_at [OF w'(2)])
  have "resume_pieces k ?f ps = Inr (stream_of k pfx (cs @ ds) c)"
    using w(1) w'(1) w''
    by (simp add: resume_pieces_def al Let_def InspectPartial_partial [OF gk assms(3)]
        del: length_append)
  moreover have "decrypt_file (file_source (stream_of k pfx (cs @ ds) c)) k = (concat cs @ concat ps, None)"
    using writer_at_length [OF w'(2)] w'(3) by (subst decrypt_file_stream [OF gk]) simp_all
  ultimately show ?thesis by blast
qed

theorem stream_resume_witness:
  "\<exists>ct. resume_pieces (replicate 32 7)
      (partial_of (replicate 32 7) (replicate 7 1) [replicate ChunkSize 9] @ [1, 2, 3]) [[4], [5]] = Inr ct \<and>
    decrypt_file (file_source ct) (replicate 32 7) = (replicate ChunkSize 9 @ [4, 5], None)"
  using stream_resume [of "replicate 32 7" "replicate 7 1" "[replicate ChunkSize 9]" "[1, 2, 3]" "[[4], [5]]"]
  by (simp add: size_defs)

end
