(* ===== verification/Cryptobox_Keys.thy ===== *)
theory Cryptobox_Keys
  imports Stream_Correct SHA256
begin

text \<open>
  Small sealed values, key wrapping and generated secrets: src/internal/cryptobox/box.go,
  passwd.go, token.go and \<open>NewKey\<close> of stream.go.

  Randomness.  \<open>crypto/rand\<close> is a tape of bytes to come; an operation that draws from it
  returns its result and the rest of the tape.  Reading past the end of the tape is the
  error return of \<open>rand.Read\<close>.

  Key derivation.  \<open>golang.org/x/crypto/argon2\<close> and \<open>.../hkdf\<close> are not part of the
  repository; they are the record parameter \<open>kdf\<close>.  The theorems that need it assume
  \<open>good_kdf\<close>: both return as many bytes as they are asked for.
\<close>

type_synonym tape = bytes
type_synonym 'a rand = "tape \<Rightarrow> 'a res \<times> tape"

definition rand_Read :: "nat \<Rightarrow> bytes rand" where
  "rand_Read n t =
     (if length t < n then (Inl (Other ''rand.Read''), t) else (Inr (take n t), drop n t))"

record kdf =
  argon2_IDKey :: "bytes \<Rightarrow> bytes \<Rightarrow> u32 \<Rightarrow> u32 \<Rightarrow> byte \<Rightarrow> nat \<Rightarrow> bytes"
  hkdf_sha256 :: "bytes \<Rightarrow> bytes \<Rightarrow> nat \<Rightarrow> bytes"

definition good_kdf :: "kdf \<Rightarrow> bool" where
  "good_kdf K \<longleftrightarrow>
     (\<forall>p s t m h n. length (argon2_IDKey K p s t m h n) = n) \<and>
     (\<forall>s i n. length (hkdf_sha256 K s i n) = n)"

subsection \<open>Keys and sealed values\<close>

definition NewKey :: "bytes rand" where
  "NewKey = rand_Read KeySize"

definition Seal :: "bytes \<Rightarrow> bytes \<Rightarrow> bytes rand" where
  "Seal key plaintext t =
     (case newGCM key of
        Inl e \<Rightarrow> (Inl e, t)
      | Inr k \<Rightarrow>
          case rand_Read nonceSize t of
            (Inl e, t1) \<Rightarrow> (Inl e, t1)
          | (Inr n, t1) \<Rightarrow> (Inr (n @ gcm_seal k n plaintext []), t1))"

definition Open :: "bytes \<Rightarrow> bytes \<Rightarrow> bytes res" where
  "Open key blob =
     (if length blob < nonceSize + TagSize then Inl CryptoCorrupt
      else case newGCM key of
        Inl e \<Rightarrow> Inl e
      | Inr k \<Rightarrow>
          case gcm_open k (take nonceSize blob) (drop nonceSize blob) [] of
            None \<Rightarrow> Inl CryptoCorrupt
          | Some out \<Rightarrow> Inr out)"

definition DeriveFromToken :: "kdf \<Rightarrow> string \<Rightarrow> string \<Rightarrow> bytes res" where
  "DeriveFromToken K token purpose =
     Inr (hkdf_sha256 K (bytes_of token) (bytes_of purpose) KeySize)"

definition WrapKeyWithToken :: "kdf \<Rightarrow> bytes \<Rightarrow> string \<Rightarrow> string \<Rightarrow> bytes rand" where
  "WrapKeyWithToken K dek token purpose t =
     (case DeriveFromToken K token purpose of Inl e \<Rightarrow> (Inl e, t) | Inr k \<Rightarrow> Seal k dek t)"

definition UnwrapKeyWithToken :: "kdf \<Rightarrow> bytes \<Rightarrow> string \<Rightarrow> string \<Rightarrow> bytes res" where
  "UnwrapKeyWithToken K wrapped token purpose =
     (case DeriveFromToken K token purpose of
        Inl e \<Rightarrow> Inl e
      | Inr k \<Rightarrow>
          case Open k wrapped of
            Inl e \<Rightarrow> Inl CryptoWrongPassword
          | Inr dek \<Rightarrow>
              if length dek \<noteq> KeySize then Inl CryptoWrongPassword else Inr dek)"

subsection \<open>Password-wrapped keys\<close>

definition argonTime :: u32 where "argonTime = 3"
definition argonMemory :: u32 where "argonMemory = 64 * 1024"
definition argonThreads :: byte where "argonThreads = 4"
definition saltSize :: nat where "saltSize = 16"
definition wrapVersion :: byte where "wrapVersion = 1"

definition deriveKEK :: "kdf \<Rightarrow> string \<Rightarrow> bytes \<Rightarrow> u32 \<Rightarrow> u32 \<Rightarrow> byte \<Rightarrow> bytes" where
  "deriveKEK K password salt time memory threads =
     argon2_IDKey K (bytes_of password) salt time memory threads KeySize"

definition headLen :: nat where "headLen = 1 + 4 + 4 + 1 + saltSize"

definition WrapKey :: "kdf \<Rightarrow> bytes \<Rightarrow> string \<Rightarrow> bytes rand" where
  "WrapKey K dek password t =
     (if length dek \<noteq> KeySize then (Inl (Other ''cryptobox: dek must be 32 bytes''), t)
      else case rand_Read saltSize t of
        (Inl e, t1) \<Rightarrow> (Inl e, t1)
      | (Inr salt, t1) \<Rightarrow>
          let kek = deriveKEK K password salt argonTime argonMemory argonThreads in
          case newGCM kek of
            Inl e \<Rightarrow> (Inl e, t1)
          | Inr k \<Rightarrow>
              case rand_Read nonceSize t1 of
                (Inl e, t2) \<Rightarrow> (Inl e, t2)
              | (Inr n, t2) \<Rightarrow>
                  let out = [wrapVersion] @ PutUint32 argonTime @ PutUint32 argonMemory @
                            [argonThreads] @ salt @ n
                  in (Inr (out @ gcm_seal k n dek (take headLen out)), t2))"

definition UnwrapKey :: "kdf \<Rightarrow> bytes \<Rightarrow> string \<Rightarrow> bytes res" where
  "UnwrapKey K wrapped password =
     (if length wrapped < headLen + nonceSize + TagSize then Inl CryptoWrongPassword
      else if wrapped ! 0 \<noteq> wrapVersion then Inl (Other ''cryptobox: unknown wrap version'')
      else
        let time = Uint32 (take 4 (drop 1 wrapped));
            memory = Uint32 (take 4 (drop 5 wrapped));
            threads = wrapped ! 9;
            salt = take saltSize (drop 10 wrapped);
            n = take nonceSize (drop headLen wrapped);
            ct = drop (headLen + nonceSize) wrapped;
            kek = deriveKEK K password salt time memory threads
        in case newGCM kek of
             Inl e \<Rightarrow> Inl e
           | Inr k \<Rightarrow>
               case gcm_open k n ct (take headLen wrapped) of
                 None \<Rightarrow> Inl CryptoWrongPassword
               | Some dek \<Rightarrow>
                   if length dek \<noteq> KeySize then Inl CryptoWrongPassword else Inr dek)"

subsection \<open>Generated secrets\<close>

definition keyAlphabet :: string where
  "keyAlphabet = ''23456789abcdefghjkmnpqrstuvwxyz''"

definition passwordAlphabet :: string where
  "passwordAlphabet = ''23456789ABCDEFGHJKMNPQRSTUVWXYZabcdefghijkmnpqrstuvwxyz''"

definition keyLength :: nat where "keyLength = 14"
definition passwordLength :: nat where "passwordLength = 16"

text \<open>
  \<open>rand.Int(rand.Reader, max)\<close> for \<open>1 < max \<le> 256\<close>: draw a byte, keep as many low bits as
  \<open>max - 1\<close> has, and draw again while the value is not below \<open>max\<close>.
\<close>

fun BitLen :: "nat \<Rightarrow> nat" where
  "BitLen n = (if n = 0 then 0 else Suc (BitLen (n div 2)))"

declare BitLen.simps [simp del]

fun rand_Int :: "nat \<Rightarrow> nat rand" where
  "rand_Int m [] = (Inl (Other ''rand.Int''), [])"
| "rand_Int m (b # t) =
     (let v = unat b mod 2 ^ BitLen (m - 1) in
      if v < m then (Inr v, t) else rand_Int m t)"

fun randomString :: "string \<Rightarrow> nat \<Rightarrow> string rand" where
  "randomString alphabet 0 t = (Inr [], t)"
| "randomString alphabet (Suc n) t =
     (case rand_Int (length alphabet) t of
        (Inl e, t1) \<Rightarrow> (Inl e, t1)
      | (Inr v, t1) \<Rightarrow>
          case randomString alphabet n t1 of
            (Inl e, t2) \<Rightarrow> (Inl e, t2)
          | (Inr s, t2) \<Rightarrow> (Inr (alphabet ! v # s), t2))"

definition NewDropKey :: "string rand" where
  "NewDropKey = randomString keyAlphabet keyLength"

definition NewPassword :: "string rand" where
  "NewPassword = randomString passwordAlphabet passwordLength"

definition NewToken :: "string rand" where
  "NewToken = randomString passwordAlphabet 32"

definition NewManageToken :: "string rand" where
  "NewManageToken = randomString passwordAlphabet 32"

definition ManageTokenHash :: "string \<Rightarrow> bytes" where
  "ManageTokenHash token = sha256 (bytes_of token)"

subsection \<open>Lemmas\<close>

lemma rand_Read_length: "rand_Read n t = (Inr b, t') \<Longrightarrow> length b = n"
  by (auto simp: rand_Read_def split: if_splits)

lemma newGCM_Inr: "newGCM key = Inr k \<longleftrightarrow> k = key \<and> length key = KeySize"
  by (auto simp: newGCM_def)

lemma Seal_Inr:
  assumes "Seal key p t = (Inr blob, t')"
  obtains n where "length key = KeySize" "length n = nonceSize" "blob = n @ gcm_seal key n p []"
  using assms by (auto simp: Seal_def newGCM_Inr dest: rand_Read_length split: sum.splits prod.splits)

lemma Open_sealed:
  assumes "length key = KeySize" "length n = nonceSize"
  shows "Open key (n @ gcm_seal key n p []) = Inr p"
  using assms by (simp add: Open_def newGCM_def gcm.seal_length gcm.open_seal)

lemma Open_Seal: "Seal key p t = (Inr blob, t') \<Longrightarrow> Open key blob = Inr p"
  by (erule Seal_Inr) (simp add: Open_sealed)

lemma Open_iff:
  assumes "length key = KeySize"
  shows "Open key blob = Inr p \<longleftrightarrow> (\<exists>n. length n = nonceSize \<and> blob = n @ gcm_seal key n p [])"
proof
  assume "Open key blob = Inr p"
  then have "nonceSize \<le> length blob" "gcm_open key (take nonceSize blob) (drop nonceSize blob) [] = Some p"
    using assms by (auto simp: Open_def newGCM_def split: if_splits option.splits)
  with assms have "drop nonceSize blob = gcm_seal key (take nonceSize blob) p []"
    by (simp add: gcm.open_iff)
  with \<open>nonceSize \<le> length blob\<close> show "\<exists>n. length n = nonceSize \<and> blob = n @ gcm_seal key n p []"
    by (intro exI [of _ "take nonceSize blob"]) (simp, metis append_take_drop_id)
qed (auto simp: Open_sealed assms)

lemma UnwrapKeyWithToken_Seal:
  assumes "Seal (hkdf_sha256 K (bytes_of token) (bytes_of purpose) KeySize) dek t = (Inr w, t')"
    and "length dek = KeySize"
  shows "UnwrapKeyWithToken K w token purpose = Inr dek"
  using assms Open_Seal [OF assms(1)] by (simp add: UnwrapKeyWithToken_def DeriveFromToken_def)

text \<open>The layout of a password-wrapped key.\<close>

definition wrap_blob :: "kdf \<Rightarrow> string \<Rightarrow> u32 \<Rightarrow> u32 \<Rightarrow> byte \<Rightarrow> bytes \<Rightarrow> bytes \<Rightarrow> bytes \<Rightarrow> bytes" where
  "wrap_blob K password time memory threads salt n dek =
     (let head = [wrapVersion] @ PutUint32 time @ PutUint32 memory @ [threads] @ salt in
      head @ n @ gcm_seal (deriveKEK K password salt time memory threads) n dek head)"

lemma wrap_blob_parts:
  fixes K :: kdf and password :: string and time memory :: u32 and threads :: byte
    and salt n dek :: bytes
  assumes "length salt = saltSize" "length n = nonceSize"
  defines "w \<equiv> wrap_blob K password time memory threads salt n dek"
    and "head \<equiv> [wrapVersion] @ PutUint32 time @ PutUint32 memory @ [threads] @ salt"
  shows "w ! 0 = wrapVersion" "take 4 (drop 1 w) = PutUint32 time"
    "take 4 (drop 5 w) = PutUint32 memory" "w ! 9 = threads" "take saltSize (drop 10 w) = salt"
    "take headLen w = head" "take nonceSize (drop headLen w) = n"
    "drop (headLen + nonceSize) w =
      gcm_seal (deriveKEK K password salt time memory threads) n dek head"
  using assms(1,2)
  by (simp_all add: w_def head_def wrap_blob_def Let_def headLen_def nth_append saltSize_def
      nonceSize_def)

lemma UnwrapKey_wrap_blob:
  assumes "good_kdf K" "length salt = saltSize" "length n = nonceSize" "length dek = KeySize"
  shows "UnwrapKey K (wrap_blob K password time memory threads salt n dek) password = Inr dek"
proof -
  let ?w = "wrap_blob K password time memory threads salt n dek"
  let ?kek = "deriveKEK K password salt time memory threads"
  have kek: "length ?kek = KeySize" using assms(1) by (simp add: deriveKEK_def good_kdf_def)
  have len: "length ?w = headLen + nonceSize + KeySize + TagSize"
    using assms kek by (simp add: wrap_blob_def Let_def headLen_def saltSize_def gcm.seal_length)
  show ?thesis
    using kek assms(3,4) len
    by (simp add: UnwrapKey_def wrap_blob_parts [OF assms(2,3)] newGCM_def gcm.open_seal Let_def
        del: One_nat_def)
qed

lemma take_wrap_head:
  assumes "10 \<le> length w"
  shows "take (10 + m) w =
    [w ! 0] @ take 4 (drop 1 w) @ take 4 (drop 5 w) @ [w ! 9] @ take m (drop 10 w)"
  using assms by (auto simp: numeral_eq_Suc Suc_le_length_iff)

lemma UnwrapKey_Inr:
  assumes "good_kdf K" "UnwrapKey K w password = Inr dek"
  obtains time memory threads salt n where "length salt = saltSize" "length n = nonceSize"
    and "length dek = KeySize" "w = wrap_blob K password time memory threads salt n dek"
proof -
  let ?time = "Uint32 (take 4 (drop 1 w))" and ?memory = "Uint32 (take 4 (drop 5 w))"
  let ?salt = "take saltSize (drop 10 w)" and ?n = "take nonceSize (drop headLen w)"
  let ?kek = "deriveKEK K password ?salt ?time ?memory (w ! 9)"
  have kek: "length ?kek = KeySize" using assms(1) by (simp add: deriveKEK_def good_kdf_def)
  have len: "headLen + nonceSize + TagSize \<le> length w" and ver: "w ! 0 = wrapVersion"
    and op: "gcm_open ?kek ?n (drop (headLen + nonceSize) w) (take headLen w) = Some dek"
    and dek: "length dek = KeySize"
    using assms(2) kek
    by (auto simp: UnwrapKey_def newGCM_def Let_def split: if_splits option.splits)
  have n: "length ?n = nonceSize" and salt: "length ?salt = saltSize"
    using len by (simp_all add: headLen_def saltSize_def)
  have head: "take headLen w = [wrapVersion] @ PutUint32 ?time @ PutUint32 ?memory @ [w ! 9] @ ?salt"
    (is "_ = ?head")
    using len ver
    by (simp add: headLen_def take_wrap_head PutUint32_Uint32 del: append.simps One_nat_def)
  have "drop (headLen + nonceSize) w = gcm_seal ?kek ?n dek (take headLen w)"
    using op gcm.open_iff [OF kek n] by blast
  moreover have "w = take headLen w @ ?n @ drop (headLen + nonceSize) w"
    by (metis add.commute append_take_drop_id drop_drop)
  ultimately have "w = wrap_blob K password ?time ?memory (w ! 9) ?salt ?n dek"
    unfolding wrap_blob_def Let_def head [symmetric] by simp
  with salt n dek show ?thesis by (rule that)
qed


lemma WrapKey_ok:
  assumes "good_kdf K" "length dek = KeySize" "saltSize + nonceSize \<le> length t"
  shows "WrapKey K dek password t =
    (Inr (wrap_blob K password argonTime argonMemory argonThreads (take saltSize t)
            (take nonceSize (drop saltSize t)) dek),
     drop (saltSize + nonceSize) t)"
proof -
  have kek: "length (deriveKEK K password (take saltSize t) argonTime argonMemory argonThreads) = KeySize"
    using assms(1) by (simp add: deriveKEK_def good_kdf_def)
  show ?thesis
    using assms(2,3) kek
    by (simp add: WrapKey_def rand_Read_def newGCM_def wrap_blob_def Let_def headLen_def saltSize_def
        add.commute)
qed

lemma Seal_ok:
  assumes "length key = KeySize" "nonceSize \<le> length t"
  shows "Seal key p t =
    (Inr (take nonceSize t @ gcm_seal key (take nonceSize t) p []), drop nonceSize t)"
  using assms by (simp add: Seal_def newGCM_def rand_Read_def)

text \<open>Uniformity of the generated strings, by counting tapes.\<close>

lemma BitLen_bounds: "n < 2 ^ BitLen n \<and> (n \<noteq> 0 \<longrightarrow> 2 ^ BitLen n \<le> 2 * n)"
proof (induction n rule: BitLen.induct)
  case (1 n)
  then show ?case by (cases "n = 0") (auto simp: BitLen.simps [of n] BitLen.simps [of 0])
qed

definition yields :: "string \<Rightarrow> nat \<Rightarrow> string \<Rightarrow> tape set" where
  "yields a N s = {t. length t = N \<and> (\<exists>t'. randomString a (length s) t = (Inr s, t'))}"

definition low_bits :: "nat \<Rightarrow> byte \<Rightarrow> nat" where
  "low_bits m b = unat b mod 2 ^ BitLen (m - 1)"

lemma rand_Int_Cons: "rand_Int m (b # t) = (if low_bits m b < m then (Inr (low_bits m b), t) else rand_Int m t)"
  by (simp add: low_bits_def Let_def)

lemma rand_Int_Inr: "rand_Int m t = (Inr v, t') \<Longrightarrow> v < m"
  by (induction t) (auto simp: rand_Int_Cons simp del: rand_Int.simps(2) split: if_splits)

lemma card_mod_class:
  assumes "v < 2 ^ k" "k \<le> n"
  shows "card {x::nat. x < 2 ^ n \<and> x mod 2 ^ k = v} = 2 ^ (n - k)"
proof -
  have "{x::nat. x < 2 ^ n \<and> x mod 2 ^ k = v} = (\<lambda>q. q * 2 ^ k + v) ` {..<2 ^ (n - k)}"
  proof (intro set_eqI iffI)
    fix x :: nat
    assume "x \<in> {x. x < 2 ^ n \<and> x mod 2 ^ k = v}"
    then have "x < 2 ^ (n - k) * 2 ^ k" "x = x div 2 ^ k * 2 ^ k + v"
      using assms(2) div_mult_mod_eq [of x "2 ^ k"] by (auto simp flip: power_add)
    then show "x \<in> (\<lambda>q. q * 2 ^ k + v) ` {..<2 ^ (n - k)}"
      by (intro image_eqI [of _ _ "x div 2 ^ k"]) (auto simp: less_mult_imp_div_less)
  next
    fix x :: nat
    assume "x \<in> (\<lambda>q. q * 2 ^ k + v) ` {..<2 ^ (n - k)}"
    then obtain q where q: "q < 2 ^ (n - k)" "x = q * 2 ^ k + v" by auto
    have "x < (q + 1) * 2 ^ k" using q(2) assms(1) by simp
    also have "\<dots> \<le> 2 ^ (n - k) * 2 ^ k" using q(1) by (intro mult_right_mono) auto
    also have "\<dots> = 2 ^ n" using assms(2) by (simp flip: power_add)
    finally show "x \<in> {x. x < 2 ^ n \<and> x mod 2 ^ k = v}" using q(2) assms(1) by simp
  qed
  moreover have "inj_on (\<lambda>q. q * 2 ^ k + v) {..<2 ^ (n - k) :: nat}" by (auto intro: inj_onI)
  ultimately show ?thesis by (simp add: card_image)
qed

lemma card_low_bits:
  assumes "0 < m" "m \<le> 256" "v < m"
  shows "card {b. low_bits m b = v} = 2 ^ (8 - BitLen (m - 1))"
proof -
  let ?k = "BitLen (m - 1)"
  have v: "v < 2 ^ ?k" using BitLen_bounds [of "m - 1"] assms by linarith
  have k: "?k \<le> 8"
  proof (rule ccontr)
    assume "\<not> ?k \<le> 8"
    then have "(2::nat) ^ 9 \<le> 2 ^ ?k" by (intro power_increasing) auto
    then show False using BitLen_bounds [of "m - 1"] assms by (cases "m = 1") (auto simp: BitLen.simps [of 0])
  qed
  have "bij_betw unat {b :: byte. low_bits m b = v} {x. x < 2 ^ 8 \<and> x mod 2 ^ ?k = v}"
    by (rule bij_betw_byWitness [where f' = of_nat])
       (auto simp: low_bits_def unat_of_nat take_bit_eq_mod intro: unsigned_less [where 'b = 8 and 'a = nat, simplified])
  then show ?thesis using card_mod_class [OF v k] by (simp add: bij_betw_same_card)
qed

lemma yields_finite: "finite (yields a N s)"
  by (rule finite_subset [OF _ finite_lists_length_eq [of UNIV N]]) (auto simp: yields_def)

lemma yields_step:
  assumes "distinct a" "v < length a"
  shows "yields a (Suc N) (a ! v # s) =
    (\<lambda>(b, t). b # t) ` ({b. low_bits (length a) b = v} \<times> yields a N s) \<union>
    (\<lambda>(b, t). b # t) ` ({b. \<not> low_bits (length a) b < length a} \<times> yields a N (a ! v # s))"
    (is "?L = ?A \<union> ?B")
proof (intro set_eqI iffI)
  fix x
  assume "x \<in> ?L"
  then obtain b t where x: "x = b # t" "length t = N" and
    ex: "\<exists>t'. randomString a (Suc (length s)) (b # t) = (Inr (a ! v # s), t')"
    by (auto simp: yields_def length_Suc_conv)
  show "x \<in> ?A \<union> ?B"
  proof (cases "low_bits (length a) b < length a")
    case True
    then have "low_bits (length a) b = v" "\<exists>t'. randomString a (length s) t = (Inr s, t')"
      using ex assms by (auto simp: rand_Int_Cons nth_eq_iff_index_eq simp del: rand_Int.simps(2)
        split: sum.splits prod.splits)
    then show ?thesis using x by (auto simp: yields_def)
  next
    case False
    then have "\<exists>t'. randomString a (Suc (length s)) t = (Inr (a ! v # s), t')"
      using ex by (simp add: rand_Int_Cons del: rand_Int.simps(2))
    then show ?thesis using x False by (auto simp: yields_def simp del: randomString.simps)
  qed
next
  fix x
  assume "x \<in> ?A \<union> ?B"
  then show "x \<in> ?L"
    using assms
    by (auto simp: yields_def rand_Int_Cons simp del: rand_Int.simps(2))
qed

lemma card_yields_step:
  assumes "distinct a" "v < length a"
  shows "card (yields a (Suc N) (a ! v # s)) =
    card {b. low_bits (length a) b = v} * card (yields a N s) +
    card {b. \<not> low_bits (length a) b < length a} * card (yields a N (a ! v # s))"
  unfolding yields_step [OF assms]
  using assms(2)
  by (subst card_Un_disjoint)
     (auto simp: card_image inj_on_def card_cartesian_product yields_finite)

lemma yields_zero: "yields a 0 (c # s) = {}"
  by (auto simp: yields_def)

lemma card_yields_eq:
  assumes "distinct a" "0 < length a" "length a \<le> 256"
  shows "length s = length s' \<Longrightarrow> set s \<subseteq> set a \<Longrightarrow> set s' \<subseteq> set a \<Longrightarrow>
    card (yields a N s) = card (yields a N s')"
proof (induction N arbitrary: s s')
  case 0
  then show ?case by (cases s; cases s') (auto simp: yields_zero)
next
  case (Suc N)
  show ?case
  proof (cases s)
    case Nil
    then show ?thesis using Suc.prems by simp
  next
    case (Cons c r)
    then obtain c' r' where s': "s' = c' # r'" using Suc.prems by (cases s') auto
    obtain v v' where v: "v < length a" "c = a ! v" and v': "v' < length a" "c' = a ! v'"
      using Suc.prems Cons s' by (auto simp: in_set_conv_nth)
    have "card (yields a N r) = card (yields a N r')"
      by (rule Suc.IH) (use Suc.prems Cons s' in simp_all)
    moreover have "card (yields a N (a ! v # r)) = card (yields a N (a ! v' # r'))"
      by (rule Suc.IH) (use Suc.prems Cons s' v v' in simp_all)
    ultimately show ?thesis
      unfolding Cons s' v(2) v'(2) card_yields_step [OF assms(1) v(1)]
        card_yields_step [OF assms(1) v'(1)] card_low_bits [OF assms(2,3) v(1)]
        card_low_bits [OF assms(2,3) v'(1)]
      by (simp only:)
  qed
qed

lemma randomString_shape:
  "randomString a n t = (Inr s, t') \<Longrightarrow> length s = n \<and> set s \<subseteq> set a"
proof (induction n arbitrary: t t' s)
  case (Suc n)
  then obtain v t1 r where "rand_Int (length a) t = (Inr v, t1)" "randomString a n t1 = (Inr r, t')"
    "s = a ! v # r"
    by (auto split: sum.splits prod.splits)
  with Suc.IH [of t1 r t'] rand_Int_Inr [of "length a" t v t1] show ?case by simp
qed simp


subsection \<open>Properties\<close>

text \<open>A key-derivation instance on which the witnesses below run.\<close>

definition sample_kdf :: kdf where
  "sample_kdf =
     \<lparr> argon2_IDKey = (\<lambda>p s t m h n. take n (p @ s @ replicate n (of_nat (length p)))),
       hkdf_sha256 = (\<lambda>s i n. take n (s @ i @ replicate n 7)) \<rparr>"

lemma sample_kdf_good: "good_kdf sample_kdf"
  by (simp add: good_kdf_def sample_kdf_def min_def)

text \<open>
  C12: wrapping a data key under a password never fails while the random source delivers its
  28 bytes, records the current Argon2 parameters in the head, and unwrapping the result with
  the same password returns exactly the key.
\<close>

theorem key_wrap_roundtrip:
  assumes "good_kdf K" "length dek = KeySize" "saltSize + nonceSize \<le> length t"
  shows "\<exists>w. WrapKey K dek password t = (Inr w, drop (saltSize + nonceSize) t) \<and>
    UnwrapKey K w password = Inr dek \<and>
    take 10 w = [wrapVersion] @ PutUint32 argonTime @ PutUint32 argonMemory @ [argonThreads]"
proof -
  let ?s = "take saltSize t" and ?n = "take nonceSize (drop saltSize t)"
  have l: "length ?s = saltSize" "length ?n = nonceSize" using assms(3) by simp_all
  show ?thesis
    unfolding WrapKey_ok [OF assms]
    using UnwrapKey_wrap_blob [OF assms(1) l assms(2)] by (simp add: wrap_blob_def Let_def)
qed

theorem key_wrap_roundtrip_witness:
  "\<exists>w. WrapKey sample_kdf (replicate 32 9) ''pw'' (replicate 28 1) = (Inr w, []) \<and>
    UnwrapKey sample_kdf w ''pw'' = Inr (replicate 32 9) \<and>
    take 10 w = [1] @ PutUint32 3 @ PutUint32 65536 @ [4]"
  using key_wrap_roundtrip [OF sample_kdf_good, of "replicate 32 9" "replicate 28 1" "''pw''"]
  by (simp add: size_defs saltSize_def wrapVersion_def argonTime_def argonMemory_def argonThreads_def)



text \<open>
  A key wrapped under a token opens again with the token and purpose it was wrapped for.
  In general a blob opens to \<open>d\<close> under a token and purpose exactly when it is a nonce and the
  seal of the 32-byte key \<open>d\<close> under the key they derive, and every other blob is reported as
  a wrong password.
\<close>

theorem token_wrap_roundtrip:
  assumes "good_kdf K" "length dek = KeySize" "nonceSize \<le> length t"
  shows "(\<exists>w. WrapKeyWithToken K dek token purpose t = (Inr w, drop nonceSize t) \<and>
      UnwrapKeyWithToken K w token purpose = Inr dek) \<and>
    (\<forall>w d. UnwrapKeyWithToken K w token purpose = Inr d \<longleftrightarrow> length d = KeySize \<and>
      (\<exists>n. length n = nonceSize \<and>
         w = n @ gcm_seal (hkdf_sha256 K (bytes_of token) (bytes_of purpose) KeySize) n d [])) \<and>
    (\<forall>w e. UnwrapKeyWithToken K w token purpose = Inl e \<longrightarrow> e = CryptoWrongPassword)"
proof -
  let ?k = "hkdf_sha256 K (bytes_of token) (bytes_of purpose) KeySize"
  have k: "length ?k = KeySize" using assms(1) by (simp add: good_kdf_def)
  have "\<exists>w. WrapKeyWithToken K dek token purpose t = (Inr w, drop nonceSize t) \<and>
      UnwrapKeyWithToken K w token purpose = Inr dek"
    using Seal_ok [OF k assms(3), of dek] UnwrapKeyWithToken_Seal [OF Seal_ok [OF k assms(3)] assms(2)]
    by (simp add: WrapKeyWithToken_def DeriveFromToken_def)
  moreover have "UnwrapKeyWithToken K w token purpose = Inr d \<longleftrightarrow> length d = KeySize \<and>
      (\<exists>n. length n = nonceSize \<and> w = n @ gcm_seal ?k n d [])" for w d
    unfolding Open_iff [OF k, symmetric]
    by (auto simp: UnwrapKeyWithToken_def DeriveFromToken_def split: sum.splits)
  moreover have "UnwrapKeyWithToken K w token purpose = Inl e \<Longrightarrow> e = CryptoWrongPassword" for w e
    by (auto simp: UnwrapKeyWithToken_def DeriveFromToken_def split: sum.splits if_splits)
  ultimately show ?thesis by blast
qed

theorem token_wrap_roundtrip_witness:
  "\<exists>w. WrapKeyWithToken sample_kdf (replicate 32 9) ''tok'' ''manage'' (replicate 12 1) = (Inr w, []) \<and>
    UnwrapKeyWithToken sample_kdf w ''tok'' ''manage'' = Inr (replicate 32 9)"
  using conjunct1 [OF token_wrap_roundtrip [OF sample_kdf_good, of "replicate 32 9" "replicate 12 1"
    "''tok''" "''manage''"]]
  by (simp add: size_defs)

text \<open>
  Every generated secret has its fixed length, is drawn from its alphabet (which has
  none of the easily confused \<open>0\<close>, \<open>1\<close>, \<open>O\<close>, \<open>I\<close>, \<open>l\<close>), and is uniform: over all
  random tapes of any given length, each admissible string of that length is produced by
  equally many tapes.
\<close>

theorem generated_secrets_uniform:
  assumes "(gen, a, n) \<in> {(NewDropKey, keyAlphabet, 14), (NewPassword, passwordAlphabet, 16),
      (NewToken, passwordAlphabet, 32), (NewManageToken, passwordAlphabet, 32)}"
  shows "(\<forall>t s t'. gen t = (Inr s, t') \<longrightarrow> length s = n \<and> set s \<subseteq> set a) \<and>
    set a \<inter> set ''01OIl'' = {} \<and>
    (\<forall>N s s'. length s = n \<longrightarrow> length s' = n \<longrightarrow> set s \<subseteq> set a \<longrightarrow> set s' \<subseteq> set a \<longrightarrow>
      card {t. length t = N \<and> fst (gen t) = Inr s} = card {t. length t = N \<and> fst (gen t) = Inr s'})"
proof -
  have g: "gen = randomString a n"
    using assms by (auto simp: NewDropKey_def NewPassword_def NewToken_def NewManageToken_def
      keyLength_def passwordLength_def)
  have a: "distinct a" "0 < length a" "length a \<le> 256" "set a \<inter> set ''01OIl'' = {}"
    using assms by (auto simp: keyAlphabet_def passwordAlphabet_def)
  have y: "{t. length t = N \<and> fst (gen t) = Inr s} = yields a N s" if "length s = n" for N s
    using that by (auto simp: yields_def g prod_eq_iff)
  have "card {t. length t = N \<and> fst (gen t) = Inr s} = card {t. length t = N \<and> fst (gen t) = Inr s'}"
    if "length s = n" "length s' = n" "set s \<subseteq> set a" "set s' \<subseteq> set a" for N s s'
    unfolding y [OF that(1)] y [OF that(2)]
    by (rule card_yields_eq [OF a(1-3)]) (use that in simp_all)
  moreover have "\<forall>t s t'. gen t = (Inr s, t') \<longrightarrow> length s = n \<and> set s \<subseteq> set a"
    using randomString_shape [of a n] unfolding g by blast
  ultimately show ?thesis using a(4) by (intro conjI allI impI) (assumption | blast)+
qed

theorem generated_secrets_uniform_witness:
  "card {t. length t = 40 \<and> fst (NewDropKey t) = Inr ''aaaaaaaaaaaaaa''} =
   card {t. length t = 40 \<and> fst (NewDropKey t) = Inr ''23456789abcdef''}"
  using generated_secrets_uniform [of NewDropKey keyAlphabet 14]
  by (simp add: keyAlphabet_def)

end
