(* ===== verification/Tables.thy ===== *)
theory Tables
  imports GoTime "HOL-Library.Char_ord" "HOL-Library.List_Lexorder" "HOL-Library.Multiset"
begin

text \<open>
  Rows of a SQL table as lists, in rowid order, and the statements the program runs on them.
  An \<open>INTEGER PRIMARY KEY\<close> without \<open>AUTOINCREMENT\<close> is assigned the largest id in the table
  plus one, so the id of a deleted last row is handed out again.  The locale \<open>id_table\<close> is
  the contract of such a table; the store interprets it for drops, files and reports.
\<close>

subsection \<open>Statements\<close>

definition next_id :: "int list \<Rightarrow> int" where
  "next_id ids = fold max ids 0 + 1"

definition insert_row :: "('r \<Rightarrow> int) \<Rightarrow> (int \<Rightarrow> 'r) \<Rightarrow> 'r list \<Rightarrow> 'r list \<times> int" where
  "insert_row rid mk rows = (let i = next_id (map rid rows) in (rows @ [mk i], i))"

definition update_where :: "('r \<Rightarrow> bool) \<Rightarrow> ('r \<Rightarrow> 'r) \<Rightarrow> 'r list \<Rightarrow> 'r list" where
  "update_where p f rows = map (\<lambda>r. if p r then f r else r) rows"

definition delete_where :: "('r \<Rightarrow> bool) \<Rightarrow> 'r list \<Rightarrow> 'r list" where
  "delete_where p rows = filter (\<lambda>r. \<not> p r) rows"

definition count_where :: "('r \<Rightarrow> bool) \<Rightarrow> 'r list \<Rightarrow> int" where
  "count_where p rows = int (length (filter p rows))"

definition sql_limit :: "int \<Rightarrow> 'r list \<Rightarrow> 'r list" where
  "sql_limit n rows = (if n < 0 then rows else take (nat n) rows)"

text \<open>\<open>SUM\<close> over integers fails as soon as a partial sum leaves the 64-bit range.\<close>

fun sum_from :: "int \<Rightarrow> int list \<Rightarrow> int option" where
  "sum_from acc [] = Some acc"
| "sum_from acc (x # xs) =
     (if acc + x < -(2 ^ 63) \<or> 2 ^ 63 \<le> acc + x then None else sum_from (acc + x) xs)"

definition sql_sum :: "int list \<Rightarrow> int option" where
  "sql_sum xs = sum_from 0 xs"

subsection \<open>Laws of the statements\<close>

lemma fold_max_ge: "a \<le> fold max xs (a :: int)" "x \<in> set xs \<Longrightarrow> x \<le> fold max xs (a :: int)"
proof (induction xs arbitrary: a)
  case (Cons y ys)
  { case 1 show ?case using Cons.IH(1) [of "max y a"] by simp }
  { case 2 then show ?case using Cons.IH [of "max y a"] by auto }
qed simp_all

lemma next_id_greater: "i \<in> set ids \<Longrightarrow> i < next_id ids"
  using fold_max_ge(2) [of i ids 0] by (simp add: next_id_def)

lemma next_id_fresh: "next_id ids \<notin> set ids"
  using next_id_greater by blast

lemma next_id_pos: "0 < next_id ids"
  using fold_max_ge(1) [of 0 ids] by (simp add: next_id_def)

lemma map_update_where:
  "(\<And>r. g (f r) = g r) \<Longrightarrow> map g (update_where p f rows) = map g rows"
  by (simp add: update_where_def)

lemma update_where_append [simp]:
  "update_where p f (xs @ ys) = update_where p f xs @ update_where p f ys"
  by (simp add: update_where_def)

lemma set_update_where: "set (update_where p f rows) = (\<lambda>r. if p r then f r else r) ` set rows"
  by (simp add: update_where_def)

lemma update_where_cong:
  "(\<And>r. r \<in> set rows \<Longrightarrow> p r \<Longrightarrow> f r = r) \<Longrightarrow> update_where p f rows = rows"
  by (auto simp: update_where_def intro: map_idI)

lemma find_update_where_other:
  "(\<And>r. p r \<Longrightarrow> \<not> q r \<and> \<not> q (f r)) \<Longrightarrow> find q (update_where p f rows) = find q rows"
  by (induction rows) (auto simp: update_where_def)

lemma find_update_where_same:
  "(\<And>r. p r = q r) \<Longrightarrow> (\<And>r. q (f r) = q r) \<Longrightarrow>
    find q (update_where p f rows) = map_option f (find q rows)"
  by (induction rows) (auto simp: update_where_def)

lemma find_update_where_sub:
  "(\<And>r. q r \<Longrightarrow> p r) \<Longrightarrow> (\<And>r. q (f r) = q r) \<Longrightarrow>
    find q (update_where p f rows) = map_option f (find q rows)"
  by (induction rows) (auto simp: update_where_def)

lemma find_delete_where:
  "(\<And>r. q r \<Longrightarrow> \<not> p r) \<Longrightarrow> find q (delete_where p rows) = find q rows"
  by (induction rows) (auto simp: delete_where_def)

lemma sum_from_sum: "sum_from acc xs = Some s \<Longrightarrow> s = acc + sum_list xs"
  by (induction acc xs rule: sum_from.induct) (auto split: if_splits)

lemma sql_sum_sum: "sql_sum xs = Some s \<Longrightarrow> s = sum_list xs"
  unfolding sql_sum_def by (drule sum_from_sum) simp

lemma sum_from_nonneg:
  "(\<forall>x \<in> set xs. 0 \<le> x) \<Longrightarrow> 0 \<le> acc \<Longrightarrow> acc + sum_list xs < 2 ^ 63 \<Longrightarrow>
    sum_from acc xs = Some (acc + sum_list xs)"
proof (induction acc xs rule: sum_from.induct)
  case (2 acc x xs)
  then have "0 \<le> sum_list xs" by (auto intro: sum_list_nonneg)
  with 2 show ?case by auto
qed simp

lemma sql_sum_nonneg:
  "\<forall>x \<in> set xs. 0 \<le> x \<Longrightarrow> sum_list xs < 2 ^ 63 \<Longrightarrow> sql_sum xs = Some (sum_list xs)"
  unfolding sql_sum_def using sum_from_nonneg [of xs 0] by simp

lemma sum_list_sort_key:
  fixes f :: "'r \<Rightarrow> int"
  shows "sum_list (map f (sort_key g xs)) = sum_list (map f xs)"
proof -
  have "mset (map f (sort_key g xs)) = mset (map f xs)" by simp
  then show ?thesis by (metis sum_mset_sum_list)
qed

subsection \<open>Tables with an integer primary key\<close>

locale id_table =
  fixes rid :: "'r \<Rightarrow> int" and new_row :: "'a \<Rightarrow> int \<Rightarrow> 'r"
  assumes rid_new: "rid (new_row x i) = i"
begin

definition ids_ok :: "'r list \<Rightarrow> bool" where
  "ids_ok rows \<longleftrightarrow> sorted_wrt (<) (map rid rows) \<and> (\<forall>r \<in> set rows. 0 < rid r)"

definition by_id :: "int \<Rightarrow> 'r list \<Rightarrow> 'r option" where
  "by_id i rows = find (\<lambda>r. rid r = i) rows"

lemma ids_ok_Nil [simp]: "ids_ok []"
  by (simp add: ids_ok_def)

lemma ids_ok_distinct: "ids_ok rows \<Longrightarrow> distinct (map rid rows)"
  by (auto simp: ids_ok_def strict_sorted_iff)

lemma ids_ok_insert:
  assumes "ids_ok rows" "insert_row rid (new_row x) rows = (rows', i)"
  shows "ids_ok rows'"
  using assms next_id_greater [of _ "map rid rows"] next_id_pos [of "map rid rows"]
  by (auto simp: ids_ok_def sorted_wrt_append insert_row_def Let_def rid_new)

lemma by_id_insert:
  assumes "insert_row rid (new_row x) rows = (rows', i)"
  shows "by_id j rows' = (if j = i then Some (new_row x i) else by_id j rows)"
proof -
  have r: "rows' = rows @ [new_row x i]" "i = next_id (map rid rows)"
    using assms by (auto simp: insert_row_def Let_def)
  have "find (\<lambda>r. rid r = i) rows = None"
    using next_id_fresh [of "map rid rows"] r(2) by (force simp: find_None)
  then show ?thesis by (auto simp: by_id_def find_append r(1) rid_new split: option.splits)
qed

lemma insert_fresh: "insert_row rid (new_row x) rows = (rows', i) \<Longrightarrow> i \<notin> rid ` set rows"
  using next_id_fresh [of "map rid rows"] by (auto simp: insert_row_def Let_def)

lemma ids_ok_alt:
  "ids_ok rows \<longleftrightarrow> sorted_wrt (<) (map rid rows) \<and> (\<forall>i \<in> set (map rid rows). 0 < i)"
  by (simp add: ids_ok_def)

lemma ids_ok_update: "(\<And>r. rid (f r) = rid r) \<Longrightarrow> ids_ok (update_where p f rows) = ids_ok rows"
  by (simp only: ids_ok_alt map_update_where)

lemma ids_ok_delete: "ids_ok rows \<Longrightarrow> ids_ok (delete_where p rows)"
  by (auto simp: ids_ok_def delete_where_def sorted_wrt_map sorted_wrt_filter)

lemma by_id_Some: "ids_ok rows \<Longrightarrow> by_id i rows = Some r \<longleftrightarrow> r \<in> set rows \<and> rid r = i"
  unfolding by_id_def using find_unique [OF ids_ok_distinct] find_Some_D by fastforce

lemma by_id_update:
  "(\<And>r. rid (f r) = rid r) \<Longrightarrow>
    by_id i (update_where (\<lambda>r. rid r = j) f rows) =
      (if i = j then map_option f (by_id i rows) else by_id i rows)"
  unfolding by_id_def by (auto intro: find_update_where_same find_update_where_other)

lemma by_id_delete:
  "by_id i (delete_where (\<lambda>r. rid r = j) rows) = (if i = j then None else by_id i rows)"
  unfolding by_id_def
  by (auto simp: find_None delete_where_def intro: find_delete_where [unfolded delete_where_def])

end

end
