(* ===== verification/Store.thy ===== *)
theory Store
  imports Tables
begin

text \<open>
  The metadata store: src/internal/store/store.go over the tables of schema.sql.  A table is
  its rows in rowid order; every method is the SQL statement (or transaction) it runs, with
  the uniqueness and foreign-key constraints of the schema as error returns.  Failures of the
  database itself (I/O, a cancelled context) are not modelled.
\<close>

subsection \<open>Data\<close>

definition StatusPending :: string where "StatusPending = ''pending''"
definition StatusReady :: string where "StatusReady = ''ready''"

lemma status_neq [simp]: "StatusPending \<noteq> StatusReady" "StatusReady \<noteq> StatusPending"
  by (simp_all add: StatusPending_def StatusReady_def)

record Drop =
  d_ID :: int
  d_Key :: string
  d_WrappedDEK :: bytes
  d_CreatedAt :: time
  d_ExpiresAt :: time
  d_MaxDownloads :: int
  d_Downloads :: int
  d_TotalBytes :: int
  d_Status :: string
  d_DeleteAllowed :: bool
  d_Kind :: string
  d_ManageHash :: bytes
  d_BlockedAt :: time

definition Blocked :: "Drop \<Rightarrow> bool" where
  "Blocked d \<longleftrightarrow> \<not> IsZero (d_BlockedAt d)"

record File =
  f_ID :: int
  f_DropID :: int
  f_Ordinal :: int
  f_NameEnc :: bytes
  f_Size :: int
  f_Received :: int
  f_BlobPath :: string

definition Complete :: "File \<Rightarrow> bool" where
  "Complete f \<longleftrightarrow> f_Received f \<ge> f_Size f"

record UploadSession =
  u_ID :: string
  u_DropID :: int
  u_Wrapped :: bytes
  u_ExpiresAt :: time

record Report =
  rp_DropID :: "int option"
  rp_DropKey :: string
  rp_Reason :: string
  rp_Reporter :: string
  rp_ReporterIP :: string
  rp_CreatedAt :: time
  rp_Status :: string

text \<open>Rows as stored; a \<open>File\<close> is its own row.\<close>

record drop_row =
  dr_id :: int
  dr_key :: string
  dr_wrapped_dek :: bytes
  dr_created_at :: int
  dr_expires_at :: int
  dr_max_downloads :: int
  dr_downloads :: int
  dr_total_bytes :: int
  dr_status :: string
  dr_uploader_hash :: bytes
  dr_uploader_ip :: "string option"
  dr_delete_allowed :: int
  dr_kind :: string
  dr_manage_hash :: "bytes option"
  dr_blocked_at :: "int option"

record session_row =
  s_id :: string
  s_drop_id :: int
  s_wrapped :: bytes
  s_created_at :: int
  s_expires_at :: int

record report_row =
  p_id :: int
  p_drop_id :: "int option"
  p_drop_key :: string
  p_reason :: "string option"
  p_reporter :: "string option"
  p_reporter_ip :: "string option"
  p_created_at :: int
  p_status :: string

record usage_row =
  y_day :: string
  y_uploads :: int
  y_downloads :: int
  y_bytes :: int

record store =
  drops :: "drop_row list"
  files :: "File list"
  upload_sessions :: "session_row list"
  reports :: "report_row list"
  usage_daily :: "usage_row list"

definition empty_store :: store where
  "empty_store = \<lparr>drops = [], files = [], upload_sessions = [], reports = [], usage_daily = []\<rparr>"

definition boolToInt :: "bool \<Rightarrow> int" where
  "boolToInt b = (if b then 1 else 0)"

definition nullIfEmpty :: "string \<Rightarrow> string option" where
  "nullIfEmpty s = (if s = [] then None else Some s)"

definition nilIfEmpty :: "bytes \<Rightarrow> bytes option" where
  "nilIfEmpty b = (if b = [] then None else Some b)"

subsection \<open>Schema migration\<close>

text \<open>The columns of \<open>drops\<close> are a list of names; \<open>ALTER TABLE ADD COLUMN\<close> appends one and fails on a duplicate.\<close>

definition hasColumn :: "string list \<Rightarrow> string \<Rightarrow> bool" where
  "hasColumn cols c \<longleftrightarrow> c \<in> set cols"

definition add_column :: "string \<Rightarrow> string list \<Rightarrow> string list res" where
  "add_column c cols =
     (if c \<in> set cols then Inl (Other ''duplicate column name'') else Inr (cols @ [c]))"

definition migrations :: "string list" where
  "migrations = [''delete_allowed'', ''uploader_ip'', ''blocked_at'', ''kind'', ''manage_hash'']"

fun migrate_loop :: "string list \<Rightarrow> string list \<Rightarrow> string list res" where
  "migrate_loop [] cols = Inr cols"
| "migrate_loop (a # as) cols =
     (if hasColumn cols a then migrate_loop as cols
      else case add_column a cols of
        Inl e \<Rightarrow> Inl e
      | Inr cols' \<Rightarrow> migrate_loop as cols')"

definition migrate :: "string list \<Rightarrow> string list res" where
  "migrate cols =
     (case migrate_loop migrations cols of
        Inl e \<Rightarrow> Inl e
      | Inr cols' \<Rightarrow>
          if ''manage_hash'' \<in> set cols' then Inr cols'
          else Inl (Other ''store: create manage_hash index''))"

text \<open>
  \<open>Open\<close>: the schema creates the table where there is none, and the migration adds what an
  older one lacks.  \<open>cols\<close> are the columns found, \<open>ok\<close> whether the database opens at all.
\<close>

definition schemaColumns :: "string list" where
  "schemaColumns = [''id'', ''key'', ''wrapped_dek'', ''created_at'', ''expires_at'', ''max_downloads'', ''downloads'',
     ''total_bytes'', ''status'', ''uploader_hash'', ''uploader_ip'', ''delete_allowed'', ''kind'', ''manage_hash'']"

definition OpenStore :: "bool \<Rightarrow> string list option \<Rightarrow> string list res" where
  "OpenStore ok cols =
     (if \<not> ok then Inl (Other ''store: open'')
      else migrate (case cols of None \<Rightarrow> schemaColumns | Some cs \<Rightarrow> cs))"

text \<open>The columns every query on drops reads.\<close>

definition dropColumns :: "string list" where
  "dropColumns = [''id'', ''key'', ''wrapped_dek'', ''created_at'', ''expires_at'', ''max_downloads'', ''downloads'',
     ''total_bytes'', ''status'', ''delete_allowed'', ''blocked_at'', ''kind'', ''manage_hash'']"

subsection \<open>Drops\<close>

definition new_drop :: "Drop \<times> string \<times> bytes \<times> string \<Rightarrow> int \<Rightarrow> drop_row" where
  "new_drop x i =
     (case x of (d, kind, uploaderHash, uploaderIP) \<Rightarrow>
       \<lparr>dr_id = i, dr_key = d_Key d, dr_wrapped_dek = d_WrappedDEK d,
        dr_created_at = Unix (d_CreatedAt d), dr_expires_at = Unix (d_ExpiresAt d),
        dr_max_downloads = d_MaxDownloads d, dr_downloads = 0, dr_total_bytes = 0,
        dr_status = StatusPending, dr_uploader_hash = uploaderHash,
        dr_uploader_ip = nullIfEmpty uploaderIP, dr_delete_allowed = boolToInt (d_DeleteAllowed d),
        dr_kind = kind, dr_manage_hash = nilIfEmpty (d_ManageHash d), dr_blocked_at = None\<rparr>)"

definition CreateDrop :: "Drop \<Rightarrow> bytes \<Rightarrow> string \<Rightarrow> store \<Rightarrow> Drop res \<times> store" where
  "CreateDrop d uploaderHash uploaderIP s =
     (let kind = (if d_Kind d = [] then ''file'' else d_Kind d) in
      if d_Key d \<in> dr_key ` set (drops s) then (Inl (Other ''store: create drop''), s)
      else
        let (rows, i) = insert_row dr_id (new_drop (d, kind, uploaderHash, uploaderIP)) (drops s)
        in (Inr (d\<lparr>d_ID := i, d_Status := StatusPending, d_Kind := kind\<rparr>), s\<lparr>drops := rows\<rparr>))"

definition scanDrop :: "drop_row option \<Rightarrow> Drop res" where
  "scanDrop row =
     (case row of
        None \<Rightarrow> Inl StoreNotFound
      | Some r \<Rightarrow> Inr
          \<lparr>d_ID = dr_id r, d_Key = dr_key r, d_WrappedDEK = dr_wrapped_dek r,
           d_CreatedAt = fromUnix (dr_created_at r), d_ExpiresAt = fromUnix (dr_expires_at r),
           d_MaxDownloads = dr_max_downloads r, d_Downloads = dr_downloads r,
           d_TotalBytes = dr_total_bytes r, d_Status = dr_status r,
           d_DeleteAllowed = (dr_delete_allowed r \<noteq> 0), d_Kind = dr_kind r,
           d_ManageHash = (case dr_manage_hash r of None \<Rightarrow> [] | Some h \<Rightarrow> h),
           d_BlockedAt = (case dr_blocked_at r of None \<Rightarrow> zeroTime | Some t \<Rightarrow> fromUnix t)\<rparr>)"

definition DropByManageHash :: "bytes \<Rightarrow> store \<Rightarrow> Drop res" where
  "DropByManageHash hash s =
     (if length hash = 0 then Inl StoreNotFound
      else scanDrop (find (\<lambda>r. dr_manage_hash r = Some hash) (drops s)))"

definition DropByKey :: "string \<Rightarrow> store \<Rightarrow> Drop res" where
  "DropByKey key s = scanDrop (find (\<lambda>r. dr_key r = key) (drops s))"

definition DropByID :: "int \<Rightarrow> store \<Rightarrow> Drop res" where
  "DropByID i s = scanDrop (find (\<lambda>r. dr_id r = i) (drops s))"

text \<open>The \<open>WHERE\<close> clause that \<open>LiveDropByKey\<close> and \<open>ClaimDownload\<close> share.\<close>

definition claimable :: "string \<Rightarrow> time \<Rightarrow> drop_row \<Rightarrow> bool" where
  "claimable key now r \<longleftrightarrow>
     dr_key r = key \<and> dr_status r = StatusReady \<and> dr_expires_at r > Unix now \<and>
     dr_downloads r < dr_max_downloads r \<and> dr_blocked_at r = None"

definition LiveDropByKey :: "string \<Rightarrow> time \<Rightarrow> store \<Rightarrow> Drop res" where
  "LiveDropByKey key now s = scanDrop (find (claimable key now) (drops s))"

subsection \<open>Files\<close>

definition new_file :: "File \<Rightarrow> int \<Rightarrow> File" where
  "new_file f i = f\<lparr>f_ID := i, f_Received := 0\<rparr>"

definition AddFile :: "File \<Rightarrow> store \<Rightarrow> File res \<times> store" where
  "AddFile f s =
     (if f_DropID f \<notin> dr_id ` set (drops s) then (Inl (Other ''store: add file''), s)
      else
        let (rows, i) = insert_row f_ID (new_file f) (files s)
        in (Inr (f\<lparr>f_ID := i\<rparr>), s\<lparr>files := rows\<rparr>))"

definition Files :: "int \<Rightarrow> store \<Rightarrow> File list" where
  "Files dropID s = sort_key f_Ordinal (filter (\<lambda>f. f_DropID f = dropID) (files s))"

definition FileByID :: "int \<Rightarrow> int \<Rightarrow> store \<Rightarrow> File res" where
  "FileByID dropID fileID s =
     (case find (\<lambda>f. f_ID f = fileID \<and> f_DropID f = dropID) (files s) of
        None \<Rightarrow> Inl StoreNotFound | Some f \<Rightarrow> Inr f)"

definition SetBlobPath :: "int \<Rightarrow> string \<Rightarrow> store \<Rightarrow> store" where
  "SetBlobPath fileID path s =
     s\<lparr>files := update_where (\<lambda>f. f_ID f = fileID) (\<lambda>f. f\<lparr>f_BlobPath := path\<rparr>) (files s)\<rparr>"

definition SetReceived :: "int \<Rightarrow> int \<Rightarrow> store \<Rightarrow> store" where
  "SetReceived fileID received s =
     s\<lparr>files := update_where (\<lambda>f. f_ID f = fileID) (\<lambda>f. f\<lparr>f_Received := received\<rparr>) (files s)\<rparr>"

subsection \<open>Finalizing and claiming\<close>

definition Finalize :: "int \<Rightarrow> store \<Rightarrow> err option \<times> store" where
  "Finalize dropID s =
     (let rows = filter (\<lambda>f. f_DropID f = dropID) (files s);
          incomplete = count_where (\<lambda>f. f_Received f < f_Size f) rows
      in case sql_sum (map f_Size rows) of
           None \<Rightarrow> (Some (Other ''store: check completeness''), s)
         | Some tot \<Rightarrow>
             if incomplete > 0 then (Some (Other ''store: finalize drop: file(s) incomplete''), s)
             else (None, s\<lparr>
               drops := update_where (\<lambda>r. dr_id r = dropID)
                          (\<lambda>r. r\<lparr>dr_status := StatusReady, dr_total_bytes := tot\<rparr>) (drops s),
               upload_sessions := delete_where (\<lambda>u. s_drop_id u = dropID) (upload_sessions s)\<rparr>))"

definition ClaimDownload :: "string \<Rightarrow> time \<Rightarrow> store \<Rightarrow> Drop res \<times> store" where
  "ClaimDownload key now s =
     (let n = count_where (claimable key now) (drops s);
          s' = s\<lparr>drops := update_where (claimable key now)
                  (\<lambda>r. r\<lparr>dr_downloads := dr_downloads r + 1\<rparr>) (drops s)\<rparr>
      in if n = 0 then (Inl StoreNotFound, s') else (DropByKey key s', s'))"

subsection \<open>Upload sessions\<close>

definition CreateUploadSession :: "UploadSession \<Rightarrow> time \<Rightarrow> store \<Rightarrow> err option \<times> store" where
  "CreateUploadSession sess now s =
     (if u_ID sess \<in> s_id ` set (upload_sessions s) \<or> u_DropID sess \<notin> dr_id ` set (drops s)
      then (Some (Other ''store: create upload session''), s)
      else (None, s\<lparr>upload_sessions := upload_sessions s @
        [\<lparr>s_id = u_ID sess, s_drop_id = u_DropID sess, s_wrapped = u_Wrapped sess,
          s_created_at = Unix now, s_expires_at = Unix (u_ExpiresAt sess)\<rparr>]\<rparr>))"

definition UploadSessionByID :: "string \<Rightarrow> time \<Rightarrow> store \<Rightarrow> UploadSession res" where
  "UploadSessionByID i now s =
     (case find (\<lambda>u. s_id u = i \<and> s_expires_at u > Unix now) (upload_sessions s) of
        None \<Rightarrow> Inl StoreNotFound
      | Some u \<Rightarrow> Inr \<lparr>u_ID = s_id u, u_DropID = s_drop_id u, u_Wrapped = s_wrapped u,
                      u_ExpiresAt = fromUnix (s_expires_at u)\<rparr>)"

subsection \<open>Reaping and deletion\<close>

definition reapable :: "time \<Rightarrow> time \<Rightarrow> drop_row \<Rightarrow> bool" where
  "reapable now pendingCutoff r \<longleftrightarrow>
     dr_blocked_at r = None \<and>
     (dr_expires_at r \<le> Unix now \<or>
      dr_status r = StatusReady \<and> dr_downloads r \<ge> dr_max_downloads r \<or>
      dr_status r = StatusPending \<and> dr_created_at r \<le> Unix pendingCutoff)"

definition toDrop :: "drop_row \<Rightarrow> Drop" where
  "toDrop r = (case scanDrop (Some r) of Inr d \<Rightarrow> d)"

definition Reapable :: "time \<Rightarrow> time \<Rightarrow> store \<Rightarrow> Drop list" where
  "Reapable now pendingCutoff s = map toDrop (filter (reapable now pendingCutoff) (drops s))"

definition DeleteDrop :: "int \<Rightarrow> store \<Rightarrow> store" where
  "DeleteDrop i s = s\<lparr>
     drops := delete_where (\<lambda>r. dr_id r = i) (drops s),
     files := delete_where (\<lambda>f. f_DropID f = i) (files s),
     upload_sessions := delete_where (\<lambda>u. s_drop_id u = i) (upload_sessions s),
     reports := update_where (\<lambda>p. p_drop_id p = Some i) (\<lambda>p. p\<lparr>p_drop_id := None\<rparr>) (reports s)\<rparr>"

subsection \<open>Statistics\<close>

record StatsRec =
  st_Drops :: int
  st_Files :: int
  st_Bytes :: int

definition live :: "time \<Rightarrow> drop_row \<Rightarrow> bool" where
  "live now r \<longleftrightarrow> dr_status r = StatusReady \<and> dr_expires_at r > Unix now \<and> dr_blocked_at r = None"

definition live_files :: "time \<Rightarrow> store \<Rightarrow> int" where
  "live_files now s =
     sum_list (map (\<lambda>f. count_where (\<lambda>r. dr_id r = f_DropID f \<and> live now r) (drops s)) (files s))"

definition Stats :: "time \<Rightarrow> store \<Rightarrow> StatsRec res" where
  "Stats now s =
     (case sql_sum (map dr_total_bytes (filter (live now) (drops s))) of
        None \<Rightarrow> Inl (Other ''store: stats'')
      | Some b \<Rightarrow> Inr \<lparr>st_Drops = count_where (live now) (drops s),
                      st_Files = live_files now s, st_Bytes = b\<rparr>)"

record LiveStats =
  l_ReadyDrops :: int
  l_TextDrops :: int
  l_FileDrops :: int
  l_Files :: int
  l_Bytes :: int
  l_DownloadsConsumed :: int
  l_Pending :: int
  l_Blocked :: int

definition LiveBreakdown :: "time \<Rightarrow> store \<Rightarrow> LiveStats res" where
  "LiveBreakdown now s =
     (case (sql_sum (map dr_total_bytes (filter (live now) (drops s))),
            sql_sum (map dr_downloads (filter (live now) (drops s)))) of
        (Some b, Some n) \<Rightarrow> Inr
          \<lparr>l_ReadyDrops = count_where (live now) (drops s),
           l_TextDrops = count_where (\<lambda>r. live now r \<and> dr_kind r = ''text'') (drops s),
           l_FileDrops = count_where (\<lambda>r. live now r \<and> dr_kind r \<noteq> ''text'') (drops s),
           l_Files = live_files now s, l_Bytes = b, l_DownloadsConsumed = n,
           l_Pending = count_where (\<lambda>r. dr_status r = StatusPending) (drops s),
           l_Blocked = count_where (\<lambda>r. dr_blocked_at r \<noteq> None) (drops s)\<rparr>
      | _ \<Rightarrow> Inl (Other ''store: live breakdown''))"

subsection \<open>Reports and blocking\<close>

definition BlockDrop :: "int \<Rightarrow> time \<Rightarrow> store \<Rightarrow> store" where
  "BlockDrop i at s =
     s\<lparr>drops := update_where (\<lambda>r. dr_id r = i \<and> dr_blocked_at r = None)
                 (\<lambda>r. r\<lparr>dr_blocked_at := Some (Unix at)\<rparr>) (drops s)\<rparr>"

definition UnblockDrop :: "int \<Rightarrow> store \<Rightarrow> store" where
  "UnblockDrop i s =
     s\<lparr>drops := update_where (\<lambda>r. dr_id r = i) (\<lambda>r. r\<lparr>dr_blocked_at := None\<rparr>) (drops s)\<rparr>"

definition new_report :: "Report \<Rightarrow> int \<Rightarrow> report_row" where
  "new_report r i =
     \<lparr>p_id = i, p_drop_id = rp_DropID r, p_drop_key = rp_DropKey r,
      p_reason = nullIfEmpty (rp_Reason r), p_reporter = nullIfEmpty (rp_Reporter r),
      p_reporter_ip = nullIfEmpty (rp_ReporterIP r), p_created_at = Unix (rp_CreatedAt r),
      p_status = rp_Status r\<rparr>"

definition CreateReport :: "Report \<Rightarrow> store \<Rightarrow> err option \<times> store" where
  "CreateReport r s =
     (case rp_DropID r of
        Some i \<Rightarrow>
          if i \<in> dr_id ` set (drops s)
          then (None, s\<lparr>reports := fst (insert_row p_id (new_report r) (reports s))\<rparr>)
          else (Some (Other ''store: create report''), s)
      | None \<Rightarrow> (None, s\<lparr>reports := fst (insert_row p_id (new_report r) (reports s))\<rparr>))"

definition SetReportStatus :: "int \<Rightarrow> string \<Rightarrow> store \<Rightarrow> store" where
  "SetReportStatus i status s =
     s\<lparr>reports := update_where (\<lambda>p. p_id p = i) (\<lambda>p. p\<lparr>p_status := status\<rparr>) (reports s)\<rparr>"

definition OpenReportCount :: "store \<Rightarrow> int" where
  "OpenReportCount s = count_where (\<lambda>p. p_status p = ''open'') (reports s)"

definition TotalReportCount :: "store \<Rightarrow> int" where
  "TotalReportCount s = int (length (reports s))"

definition coalesce :: "'a \<Rightarrow> 'a option \<Rightarrow> 'a" where
  "coalesce x v = (case v of None \<Rightarrow> x | Some y \<Rightarrow> y)"

record ReportView =
  v_ID :: int
  v_DropID :: int
  v_DropKey :: string
  v_Reason :: string
  v_Reporter :: string
  v_ReporterIP :: string
  v_CreatedAt :: time
  v_Status :: string
  v_DropExists :: bool
  v_DropBlocked :: bool

definition report_view :: "store \<Rightarrow> report_row \<Rightarrow> ReportView" where
  "report_view s p =
     (let d = find (\<lambda>r. Some (dr_id r) = p_drop_id p) (drops s) in
      \<lparr>v_ID = p_id p, v_DropID = (case d of None \<Rightarrow> 0 | Some r \<Rightarrow> dr_id r),
       v_DropKey = p_drop_key p, v_Reason = coalesce [] (p_reason p),
       v_Reporter = coalesce [] (p_reporter p), v_ReporterIP = coalesce [] (p_reporter_ip p),
       v_CreatedAt = fromUnix (p_created_at p), v_Status = p_status p,
       v_DropExists = (d \<noteq> None),
       v_DropBlocked = (case d of None \<Rightarrow> False | Some r \<Rightarrow> dr_blocked_at r \<noteq> None)\<rparr>)"

definition ListReports :: "int \<Rightarrow> store \<Rightarrow> ReportView list" where
  "ListReports limit s =
     map (report_view s) (sql_limit limit (sort_key (\<lambda>p. - p_created_at p) (reports s)))"

record DropView =
  w_ID :: int
  w_Key :: string
  w_CreatedAt :: time
  w_ExpiresAt :: time
  w_MaxDownloads :: int
  w_Downloads :: int
  w_TotalBytes :: int
  w_Status :: string
  w_Blocked :: bool
  w_UploaderIP :: string
  w_FileCount :: int
  w_ReportCount :: int

definition drop_view :: "store \<Rightarrow> drop_row \<Rightarrow> DropView" where
  "drop_view s r =
     \<lparr>w_ID = dr_id r, w_Key = dr_key r, w_CreatedAt = fromUnix (dr_created_at r),
      w_ExpiresAt = fromUnix (dr_expires_at r), w_MaxDownloads = dr_max_downloads r,
      w_Downloads = dr_downloads r, w_TotalBytes = dr_total_bytes r, w_Status = dr_status r,
      w_Blocked = (dr_blocked_at r \<noteq> None), w_UploaderIP = coalesce [] (dr_uploader_ip r),
      w_FileCount = count_where (\<lambda>f. f_DropID f = dr_id r) (files s),
      w_ReportCount = count_where (\<lambda>p. p_drop_id p = Some (dr_id r)) (reports s)\<rparr>"

definition ListDrops :: "int \<Rightarrow> store \<Rightarrow> DropView list" where
  "ListDrops limit s =
     map (drop_view s) (sql_limit limit (sort_key (\<lambda>r. - dr_created_at r) (drops s)))"

subsection \<open>Usage counters\<close>

definition jstOffset :: int where "jstOffset = 9 * 3600"

definition jst_day :: "time \<Rightarrow> int" where
  "jst_day t = (Unix t + jstOffset) div 86400"

definition DayKey :: "time \<Rightarrow> string" where
  "DayKey t =
     (case civil (jst_day t) of (y, m, d) \<Rightarrow>
        pad_digits 4 (nat y) @ ''-'' @ pad_digits 2 (nat m) @ ''-'' @ pad_digits 2 (nat d))"

definition BumpUsage :: "string \<Rightarrow> int \<Rightarrow> int \<Rightarrow> int \<Rightarrow> store \<Rightarrow> store" where
  "BumpUsage day uploads downloads b s =
     (if day \<in> y_day ` set (usage_daily s)
      then s\<lparr>usage_daily := update_where (\<lambda>y. y_day y = day)
             (\<lambda>y. y\<lparr>y_uploads := y_uploads y + uploads, y_downloads := y_downloads y + downloads,
                    y_bytes := y_bytes y + b\<rparr>) (usage_daily s)\<rparr>
      else s\<lparr>usage_daily := usage_daily s @
             [\<lparr>y_day = day, y_uploads = uploads, y_downloads = downloads, y_bytes = b\<rparr>]\<rparr>)"

record UsageTotal =
  t_Uploads :: int
  t_Downloads :: int
  t_Bytes :: int
  t_Since :: string

fun min_day :: "string list \<Rightarrow> string option" where
  "min_day [] = None"
| "min_day (d # ds) = Some (fold min ds d)"

definition UsageTotals :: "store \<Rightarrow> UsageTotal res" where
  "UsageTotals s =
     (let rows = usage_daily s in
      case (sql_sum (map y_uploads rows), sql_sum (map y_downloads rows), sql_sum (map y_bytes rows)) of
        (Some u, Some d, Some b) \<Rightarrow>
          Inr \<lparr>t_Uploads = u, t_Downloads = d, t_Bytes = b, t_Since = coalesce [] (min_day (map y_day rows))\<rparr>
      | _ \<Rightarrow> Inl (Other ''store: usage totals''))"

definition UsageDaily :: "int \<Rightarrow> store \<Rightarrow> usage_row list" where
  "UsageDaily days s = sql_limit days (rev (sort_key y_day (usage_daily s)))"

end
