(* ===== verification/Store_Correct.thy ===== *)
theory Store_Correct
  imports Store
begin

text \<open>
  Correctness of the metadata store.  Drops, files and reports interpret the contract of a
  table with an integer primary key; \<open>store_ok\<close> is the database invariant (keys and ids
  unique, every foreign key resolved, download counters within bounds), and \<open>store_step\<close>
  the transitions of one database, one constructor per mutating method.
\<close>

subsection \<open>The tables as instances of the contract\<close>

interpretation drop_tab: id_table dr_id new_drop
  by unfold_locales (simp add: new_drop_def split: prod.splits)

interpretation file_tab: id_table f_ID new_file
  by unfold_locales (simp add: new_file_def)

interpretation report_tab: id_table p_id new_report
  by unfold_locales (simp add: new_report_def)

subsection \<open>Invariant\<close>

definition drop_ok :: "drop_row \<Rightarrow> bool" where
  "drop_ok r \<longleftrightarrow>
     0 \<le> dr_downloads r \<and> dr_downloads r \<le> max 0 (dr_max_downloads r) \<and>
     (dr_status r = StatusPending \<and> dr_downloads r = 0 \<or> dr_status r = StatusReady)"

definition refs_ok :: "store \<Rightarrow> bool" where
  "refs_ok s \<longleftrightarrow>
     f_DropID ` set (files s) \<subseteq> dr_id ` set (drops s) \<and>
     s_drop_id ` set (upload_sessions s) \<subseteq> dr_id ` set (drops s) \<and>
     (\<forall>p \<in> set (reports s). \<forall>i. p_drop_id p = Some i \<longrightarrow> i \<in> dr_id ` set (drops s))"

definition store_ok :: "store \<Rightarrow> bool" where
  "store_ok s \<longleftrightarrow>
     drop_tab.ids_ok (drops s) \<and> file_tab.ids_ok (files s) \<and> report_tab.ids_ok (reports s) \<and>
     distinct (map dr_key (drops s)) \<and> distinct (map s_id (upload_sessions s)) \<and>
     distinct (map y_day (usage_daily s)) \<and>
     (\<forall>r \<in> set (drops s). drop_ok r) \<and> refs_ok s"

inductive store_step :: "store \<Rightarrow> store \<Rightarrow> bool" where
  create_drop: "store_step s (snd (CreateDrop d h ip s))"
| add_file: "store_step s (snd (AddFile f s))"
| set_blob_path: "store_step s (SetBlobPath i p s)"
| set_received: "store_step s (SetReceived i n s)"
| finalize: "store_step s (snd (Finalize i s))"
| claim: "store_step s (snd (ClaimDownload key now s))"
| create_session: "store_step s (snd (CreateUploadSession u now s))"
| delete_drop: "store_step s (DeleteDrop i s)"
| block: "store_step s (BlockDrop i now s)"
| unblock: "store_step s (UnblockDrop i s)"
| create_report: "store_step s (snd (CreateReport r s))"
| report_status: "store_step s (SetReportStatus i st s)"
| bump: "store_step s (BumpUsage day u d b s)"

inductive store_reachable :: "store \<Rightarrow> bool" where
  init: "store_reachable empty_store"
| step: "store_reachable s \<Longrightarrow> store_step s s' \<Longrightarrow> store_reachable s'"

subsection \<open>Every operation preserves the invariant\<close>

lemma store_ok_empty: "store_ok empty_store"
  by (simp add: store_ok_def empty_store_def refs_ok_def)

lemma drop_ok_new: "drop_ok (new_drop x i)"
  by (simp add: drop_ok_def new_drop_def split: prod.splits)

lemma insert_row_parts:
  "insert_row rid mk rows = (rows', i) \<Longrightarrow> rows' = rows @ [mk i] \<and> i = next_id (map rid rows)"
  by (auto simp: insert_row_def Let_def)

lemma store_ok_CreateDrop: "store_ok s \<Longrightarrow> store_ok (snd (CreateDrop d h ip s))"
proof (cases "d_Key d \<in> dr_key ` set (drops s)")
  case False
  assume ok: "store_ok s"
  let ?x = "(d, if d_Kind d = [] then ''file'' else d_Kind d, h, ip)"
  obtain rows i where ins: "insert_row dr_id (new_drop ?x) (drops s) = (rows, i)"
    by (cases "insert_row dr_id (new_drop ?x) (drops s)") auto
  have rows: "rows = drops s @ [new_drop ?x i]" using insert_row_parts [OF ins] by blast
  have key: "dr_key (new_drop ?x i) = d_Key d" by (simp add: new_drop_def)
  have "drop_tab.ids_ok rows" using drop_tab.ids_ok_insert [OF _ ins] ok by (simp add: store_ok_def)
  then show ?thesis
    using ok False ins key
    by (auto simp: CreateDrop_def Let_def store_ok_def refs_ok_def rows drop_ok_new)
qed (simp add: CreateDrop_def)

lemma store_ok_AddFile: "store_ok s \<Longrightarrow> store_ok (snd (AddFile f s))"
proof (cases "f_DropID f \<in> dr_id ` set (drops s)")
  case True
  assume ok: "store_ok s"
  obtain rows i where ins: "insert_row f_ID (new_file f) (files s) = (rows, i)"
    by (cases "insert_row f_ID (new_file f) (files s)") auto
  have rows: "rows = files s @ [new_file f i]" using insert_row_parts [OF ins] by blast
  have "file_tab.ids_ok rows" using file_tab.ids_ok_insert [OF _ ins] ok by (simp add: store_ok_def)
  then show ?thesis
    using ok True ins
    by (auto simp: AddFile_def store_ok_def refs_ok_def rows new_file_def)
qed (simp add: AddFile_def)

lemma store_ok_files_update:
  assumes "\<And>f. f_ID (g f) = f_ID f" "\<And>f. f_DropID (g f) = f_DropID f" "store_ok s"
  shows "store_ok (s\<lparr>files := update_where p g (files s)\<rparr>)"
  using assms by (auto simp: store_ok_def refs_ok_def set_update_where file_tab.ids_ok_update)

lemma store_ok_drops_update:
  assumes "\<And>r. dr_id (g r) = dr_id r" "\<And>r. dr_key (g r) = dr_key r"
    and "\<And>r. r \<in> set (drops s) \<Longrightarrow> p r \<Longrightarrow> drop_ok r \<Longrightarrow> drop_ok (g r)" "store_ok s"
  shows "store_ok (s\<lparr>drops := update_where p g (drops s)\<rparr>)"
proof -
  have "dr_id ` set (update_where p g (drops s)) = dr_id ` set (drops s)"
    using map_update_where [of dr_id g p "drops s"] assms(1) by (metis list.set_map)
  then show ?thesis
    using assms by (auto simp: store_ok_def refs_ok_def map_update_where drop_tab.ids_ok_update)
      (auto simp: set_update_where)
qed

lemma store_ok_SetBlobPath: "store_ok s \<Longrightarrow> store_ok (SetBlobPath i p s)"
  unfolding SetBlobPath_def by (rule store_ok_files_update) auto

lemma store_ok_SetReceived: "store_ok s \<Longrightarrow> store_ok (SetReceived i n s)"
  unfolding SetReceived_def by (rule store_ok_files_update) auto

lemma store_ok_sessions_delete:
  "store_ok s \<Longrightarrow> store_ok (s\<lparr>upload_sessions := delete_where p (upload_sessions s)\<rparr>)"
  by (auto simp: store_ok_def refs_ok_def delete_where_def distinct_map_filter)

lemma store_ok_Finalize: "store_ok s \<Longrightarrow> store_ok (snd (Finalize i s))"
proof -
  assume ok: "store_ok s"
  let ?u = "\<lambda>n s. s\<lparr>drops := update_where (\<lambda>r. dr_id r = i)
    (\<lambda>r. r\<lparr>dr_status := StatusReady, dr_total_bytes := n\<rparr>) (drops s)\<rparr>"
  have "store_ok (?u n s)" for n
    by (rule store_ok_drops_update) (auto simp: ok drop_ok_def)
  from store_ok_sessions_delete [OF this, of "\<lambda>u. s_drop_id u = i"] show ?thesis
    using ok by (simp add: Finalize_def Let_def split: option.splits)
qed

lemma store_ok_ClaimDownload: "store_ok s \<Longrightarrow> store_ok (snd (ClaimDownload key now s))"
proof -
  assume ok: "store_ok s"
  have "store_ok (s\<lparr>drops := update_where (claimable key now)
      (\<lambda>r. r\<lparr>dr_downloads := dr_downloads r + 1\<rparr>) (drops s)\<rparr>)"
    by (rule store_ok_drops_update) (auto simp: ok drop_ok_def claimable_def)
  then show ?thesis by (simp add: ClaimDownload_def Let_def)
qed

lemma store_ok_CreateUploadSession: "store_ok s \<Longrightarrow> store_ok (snd (CreateUploadSession u now s))"
  by (auto simp: CreateUploadSession_def store_ok_def refs_ok_def)

lemma store_ok_DeleteDrop:
  assumes "store_ok s"
  shows "store_ok (DeleteDrop i s)"
proof -
  have *: "dr_id ` set (delete_where (\<lambda>r. dr_id r = i) (drops s)) = dr_id ` set (drops s) - {i}"
    by (auto simp: delete_where_def)
  have ids: "drop_tab.ids_ok (delete_where (\<lambda>r. dr_id r = i) (drops s))"
    "file_tab.ids_ok (delete_where (\<lambda>f. f_DropID f = i) (files s))"
    "report_tab.ids_ok (update_where (\<lambda>p. p_drop_id p = Some i) (\<lambda>p. p\<lparr>p_drop_id := None\<rparr>) (reports s))"
    using assms by (simp_all add: store_ok_def drop_tab.ids_ok_delete file_tab.ids_ok_delete
      report_tab.ids_ok_update)
  have refs: "refs_ok (DeleteDrop i s)"
    using assms by (auto simp: DeleteDrop_def store_ok_def refs_ok_def * set_update_where)
      (auto simp: delete_where_def)
  show ?thesis
    using assms ids refs
    by (simp add: store_ok_def DeleteDrop_def) (auto simp: delete_where_def distinct_map_filter)
qed

lemma store_ok_BlockDrop: "store_ok s \<Longrightarrow> store_ok (BlockDrop i now s)"
  unfolding BlockDrop_def by (rule store_ok_drops_update) (auto simp: drop_ok_def)

lemma store_ok_UnblockDrop: "store_ok s \<Longrightarrow> store_ok (UnblockDrop i s)"
  unfolding UnblockDrop_def by (rule store_ok_drops_update) (auto simp: drop_ok_def)

lemma store_ok_CreateReport: "store_ok s \<Longrightarrow> store_ok (snd (CreateReport r s))"
proof -
  assume ok: "store_ok s"
  obtain rows i where ins: "insert_row p_id (new_report r) (reports s) = (rows, i)"
    by (cases "insert_row p_id (new_report r) (reports s)") auto
  have rows: "rows = reports s @ [new_report r i]" using insert_row_parts [OF ins] by blast
  have "report_tab.ids_ok rows" using report_tab.ids_ok_insert [OF _ ins] ok by (simp add: store_ok_def)
  then show ?thesis
    using ok ins rows
    by (cases "rp_DropID r") (auto simp: CreateReport_def store_ok_def refs_ok_def new_report_def)
qed

lemma store_ok_SetReportStatus: "store_ok s \<Longrightarrow> store_ok (SetReportStatus i st s)"
  by (auto simp: SetReportStatus_def store_ok_def refs_ok_def report_tab.ids_ok_update set_update_where)

lemma store_ok_BumpUsage: "store_ok s \<Longrightarrow> store_ok (BumpUsage day u d b s)"
  by (auto simp: BumpUsage_def store_ok_def refs_ok_def map_update_where)

lemmas store_ok_ops =
  store_ok_CreateDrop store_ok_AddFile store_ok_SetBlobPath store_ok_SetReceived store_ok_Finalize
  store_ok_ClaimDownload store_ok_CreateUploadSession store_ok_DeleteDrop store_ok_BlockDrop
  store_ok_UnblockDrop store_ok_CreateReport store_ok_SetReportStatus store_ok_BumpUsage

lemma store_ok_step: "store_step s s' \<Longrightarrow> store_ok s \<Longrightarrow> store_ok s'"
  by (induction rule: store_step.induct) (simp_all add: store_ok_ops)

lemma store_ok_reachable: "store_reachable s \<Longrightarrow> store_ok s"
  by (induction rule: store_reachable.induct) (auto intro: store_ok_empty store_ok_step)

subsection \<open>Lookups\<close>

lemma scanDrop_toDrop [simp]: "scanDrop (Some r) = Inr (toDrop r)" "scanDrop None = Inl StoreNotFound"
  by (simp_all add: toDrop_def scanDrop_def)

lemma toDrop_simps [simp]:
  "d_ID (toDrop r) = dr_id r" "d_Key (toDrop r) = dr_key r" "d_WrappedDEK (toDrop r) = dr_wrapped_dek r"
  "d_CreatedAt (toDrop r) = fromUnix (dr_created_at r)" "d_ExpiresAt (toDrop r) = fromUnix (dr_expires_at r)"
  "d_MaxDownloads (toDrop r) = dr_max_downloads r" "d_Downloads (toDrop r) = dr_downloads r"
  "d_TotalBytes (toDrop r) = dr_total_bytes r" "d_Status (toDrop r) = dr_status r"
  "d_DeleteAllowed (toDrop r) = (dr_delete_allowed r \<noteq> 0)" "d_Kind (toDrop r) = dr_kind r"
  "d_ManageHash (toDrop r) = (case dr_manage_hash r of None \<Rightarrow> [] | Some h \<Rightarrow> h)"
  "d_BlockedAt (toDrop r) = (case dr_blocked_at r of None \<Rightarrow> zeroTime | Some t \<Rightarrow> fromUnix t)"
  by (simp_all add: toDrop_def scanDrop_def)

definition drop_by_key :: "string \<Rightarrow> store \<Rightarrow> drop_row option" where
  "drop_by_key key s = find (\<lambda>r. dr_key r = key) (drops s)"

lemma drop_by_key_Some:
  "store_ok s \<Longrightarrow> drop_by_key key s = Some r \<longleftrightarrow> r \<in> set (drops s) \<and> dr_key r = key"
  unfolding drop_by_key_def store_ok_def using find_unique [of dr_key "drops s"] find_Some_D by fastforce

lemma find_with_key:
  "distinct (map dr_key rows) \<Longrightarrow> (\<And>r. p r \<Longrightarrow> dr_key r = key) \<Longrightarrow>
    find p rows = (case find (\<lambda>r. dr_key r = key) rows of
      None \<Rightarrow> None | Some r \<Rightarrow> if p r then Some r else None)"
proof (induction rows)
  case (Cons r rows)
  have "find (\<lambda>r. dr_key r = key) rows = None" if "dr_key r = key"
    unfolding find_None using Cons.prems(1) that by (simp add: image_iff) metis
  with Cons show ?case by (cases "dr_key r = key") auto
qed simp

lemma find_claimable:
  "store_ok s \<Longrightarrow> find (claimable key now) (drops s) =
    (case drop_by_key key s of None \<Rightarrow> None | Some r \<Rightarrow> if claimable key now r then Some r else None)"
  unfolding drop_by_key_def by (rule find_with_key) (auto simp: store_ok_def claimable_def)

lemma count_where_pos: "count_where p rows = 0 \<longleftrightarrow> find p rows = None"
  by (auto simp: count_where_def find_None filter_empty_conv)

lemma ClaimDownload_cases:
  assumes "store_ok s"
  shows "ClaimDownload key now s =
    (case drop_by_key key s of
       None \<Rightarrow> (Inl StoreNotFound, s)
     | Some r \<Rightarrow>
         if claimable key now r
         then (Inr (toDrop (r\<lparr>dr_downloads := dr_downloads r + 1\<rparr>)),
               s\<lparr>drops := update_where (\<lambda>x. dr_key x = key) (\<lambda>x. x\<lparr>dr_downloads := dr_downloads x + 1\<rparr>) (drops s)\<rparr>)
         else (Inl StoreNotFound, s))"
proof (cases "find (claimable key now) (drops s)")
  case None
  then have "update_where (claimable key now) f (drops s) = drops s" for f
    by (intro update_where_cong) (auto simp: find_None)
  then show ?thesis
    using None find_claimable [OF assms, of key now]
    by (auto simp: ClaimDownload_def Let_def count_where_pos split: option.splits if_splits)
next
  case (Some r)
  then have r: "drop_by_key key s = Some r" "claimable key now r"
    using find_claimable [OF assms, of key now] by (auto split: option.splits if_splits)
  have only: "x = r" if "x \<in> set (drops s)" "dr_key x = key" for x
    using r(1) that by (metis assms drop_by_key_Some option.inject)
  have upd: "update_where (claimable key now) f (drops s) = update_where (\<lambda>x. dr_key x = key) f (drops s)" for f
    unfolding update_where_def
  proof (rule map_cong)
    fix x assume x: "x \<in> set (drops s)"
    have "claimable key now x \<longleftrightarrow> dr_key x = key"
      using only [OF x] r(2) by (auto simp: claimable_def)
    then show "(if claimable key now x then f x else x) = (if dr_key x = key then f x else x)" by simp
  qed simp
  have "find (\<lambda>x. dr_key x = key) (update_where (\<lambda>x. dr_key x = key)
      (\<lambda>x. x\<lparr>dr_downloads := dr_downloads x + 1\<rparr>) (drops s)) =
    Some (r\<lparr>dr_downloads := dr_downloads r + 1\<rparr>)"
    using r(1) by (subst find_update_where_same) (auto simp: drop_by_key_def)
  then show ?thesis
    using Some r by (simp add: ClaimDownload_def Let_def count_where_pos upd DropByKey_def)
qed

lemma drop_by_key_claimed:
  "drop_by_key key (s\<lparr>drops := update_where (\<lambda>x. dr_key x = key) (\<lambda>x. x\<lparr>dr_downloads := dr_downloads x + 1\<rparr>) (drops s)\<rparr>)
    = map_option (\<lambda>x. x\<lparr>dr_downloads := dr_downloads x + 1\<rparr>) (drop_by_key key s)"
  unfolding drop_by_key_def by (simp add: find_update_where_same)

text \<open>A sequence of claims on one key, in the order the database serialises them.\<close>

fun run_claims :: "string \<Rightarrow> time list \<Rightarrow> store \<Rightarrow> nat \<times> store" where
  "run_claims key [] s = (0, s)"
| "run_claims key (t # ts) s =
     (case ClaimDownload key t s of
        (Inl e, s') \<Rightarrow> run_claims key ts s'
      | (Inr d, s') \<Rightarrow> (case run_claims key ts s' of (n, s'') \<Rightarrow> (Suc n, s'')))"

lemma run_claims_bound:
  assumes "store_ok s" "drop_by_key key s = Some r"
  shows "int (fst (run_claims key ts s)) \<le> max 0 (dr_max_downloads r - dr_downloads r)"
  using assms
proof (induction ts arbitrary: s r)
  case (Cons t ts)
  let ?s' = "s\<lparr>drops := update_where (\<lambda>x. dr_key x = key) (\<lambda>x. x\<lparr>dr_downloads := dr_downloads x + 1\<rparr>) (drops s)\<rparr>"
  show ?case
  proof (cases "claimable key t r")
    case True
    then have c: "ClaimDownload key t s = (Inr (toDrop (r\<lparr>dr_downloads := dr_downloads r + 1\<rparr>)), ?s')"
      using ClaimDownload_cases [OF Cons.prems(1), of key t] Cons.prems(2) by simp
    have "store_ok ?s'" using store_ok_ClaimDownload [OF Cons.prems(1), of key t] c by simp
    from Cons.IH [OF this] have
      "int (fst (run_claims key ts ?s')) \<le> max 0 (dr_max_downloads r - (dr_downloads r + 1))"
      using Cons.prems(2) by (simp add: drop_by_key_claimed)
    then show ?thesis using c True by (auto simp: claimable_def split: prod.splits)
  next
    case False
    then show ?thesis
      using ClaimDownload_cases [OF Cons.prems(1), of key t] Cons by simp
  qed
qed simp

lemma run_claims_exact:
  assumes "store_ok s" "drop_by_key key s = Some r" "dr_status r = StatusReady" "dr_blocked_at r = None"
    and "\<forall>t \<in> set ts. Unix t < dr_expires_at r"
  shows "fst (run_claims key ts s) = min (length ts) (nat (dr_max_downloads r - dr_downloads r))"
  using assms
proof (induction ts arbitrary: s r)
  case (Cons t ts)
  let ?s' = "s\<lparr>drops := update_where (\<lambda>x. dr_key x = key) (\<lambda>x. x\<lparr>dr_downloads := dr_downloads x + 1\<rparr>) (drops s)\<rparr>"
  have key: "dr_key r = key" using Cons.prems(1,2) drop_by_key_Some by blast
  show ?case
  proof (cases "dr_downloads r < dr_max_downloads r")
    case True
    then have "claimable key t r" using Cons.prems key by (simp add: claimable_def)
    then have c: "ClaimDownload key t s = (Inr (toDrop (r\<lparr>dr_downloads := dr_downloads r + 1\<rparr>)), ?s')"
      using ClaimDownload_cases [OF Cons.prems(1), of key t] Cons.prems(2) by simp
    have "store_ok ?s'" using store_ok_ClaimDownload [OF Cons.prems(1), of key t] c by simp
    from Cons.IH [OF this] have
      "fst (run_claims key ts ?s') = min (length ts) (nat (dr_max_downloads r - (dr_downloads r + 1)))"
      using Cons.prems by (simp add: drop_by_key_claimed)
    then show ?thesis using c True by (auto split: prod.splits)
  next
    case False
    then have "\<not> claimable key t r" by (simp add: claimable_def)
    then show ?thesis
      using ClaimDownload_cases [OF Cons.prems(1), of key t] Cons False by simp
  qed
qed simp

lemma DropByID_by_id: "DropByID i s = scanDrop (drop_tab.by_id i (drops s))"
  by (simp add: DropByID_def drop_tab.by_id_def)

lemma Finalize_ok:
  assumes "\<forall>f \<in> set (files s). f_DropID f = i \<longrightarrow> Complete f \<and> 0 \<le> f_Size f"
    and "sum_list (map f_Size (Files i s)) < 2 ^ 63"
  shows "Finalize i s = (None, s\<lparr>
      drops := update_where (\<lambda>r. dr_id r = i)
        (\<lambda>r. r\<lparr>dr_status := StatusReady, dr_total_bytes := sum_list (map f_Size (Files i s))\<rparr>) (drops s),
      upload_sessions := delete_where (\<lambda>u. s_drop_id u = i) (upload_sessions s)\<rparr>)"
proof -
  let ?rows = "filter (\<lambda>f. f_DropID f = i) (files s)"
  have sum: "sum_list (map f_Size (Files i s)) = sum_list (map f_Size ?rows)"
    unfolding Files_def by (rule sum_list_sort_key)
  have "sql_sum (map f_Size ?rows) = Some (sum_list (map f_Size (Files i s)))"
    unfolding sum using assms(1) assms(2) [unfolded sum] by (intro sql_sum_nonneg) auto
  moreover have "count_where (\<lambda>f. f_Received f < f_Size f) ?rows = 0"
    unfolding count_where_pos find_None using assms(1) by (auto simp: Complete_def)
  ultimately show ?thesis by (simp add: Finalize_def Let_def)
qed

lemma Finalize_incomplete:
  assumes "f \<in> set (files s)" "f_DropID f = i" "\<not> Complete f"
  shows "\<exists>e. Finalize i s = (Some e, s)"
proof -
  have "count_where (\<lambda>f. f_Received f < f_Size f) (filter (\<lambda>f. f_DropID f = i) (files s)) \<noteq> 0"
    unfolding count_where_pos find_None using assms by (auto simp: Complete_def)
  then have "count_where (\<lambda>f. f_Received f < f_Size f) (filter (\<lambda>f. f_DropID f = i) (files s)) > 0"
    by (simp add: count_where_def)
  then show ?thesis by (auto simp: Finalize_def Let_def split: option.splits)
qed

lemma Files_other: "i \<noteq> j \<Longrightarrow>
    Files j (s\<lparr>files := delete_where (\<lambda>f. f_DropID f = i) (files s)\<rparr>) = Files j s"
  by (simp add: Files_def delete_where_def) (metis (mono_tags, lifting))

subsection \<open>Properties\<close>

text \<open>
  C14: every database the methods can produce from the empty one keeps its invariant: row ids
  and share keys are unique, no file, session or report refers to a missing drop, a pending
  drop was never downloaded and no drop was downloaded more often than it allows.
\<close>

theorem store_invariant:
  assumes "store_reachable s"
  shows "store_ok s"
  using assms by (rule store_ok_reachable)

definition sample_drop :: Drop where
  "sample_drop = \<lparr>d_ID = 0, d_Key = ''k1'', d_WrappedDEK = [1], d_CreatedAt = 5 * Second,
     d_ExpiresAt = 100 * Second, d_MaxDownloads = 2, d_Downloads = 0, d_TotalBytes = 0,
     d_Status = [], d_DeleteAllowed = False, d_Kind = [], d_ManageHash = [], d_BlockedAt = zeroTime\<rparr>"

definition sample_file :: File where
  "sample_file = \<lparr>f_ID = 0, f_DropID = 1, f_Ordinal = 0, f_NameEnc = [2], f_Size = 3,
     f_Received = 0, f_BlobPath = []\<rparr>"

definition sample_store :: store where
  "sample_store = snd (Finalize 1 (SetReceived 1 3 (snd (AddFile sample_file
     (snd (CreateDrop sample_drop [9] ''10.0.0.1'' empty_store))))))"

lemma sample_store_reachable: "store_reachable sample_store"
  unfolding sample_store_def
  by (rule store_reachable.step [OF _ finalize], rule store_reachable.step [OF _ set_received],
      rule store_reachable.step [OF _ add_file], rule store_reachable.step [OF init create_drop])

lemmas store_eval = CreateDrop_def AddFile_def SetReceived_def Finalize_def insert_row_def
  next_id_def new_drop_def new_file_def empty_store_def sample_drop_def sample_file_def update_where_def
  delete_where_def count_where_def sql_sum_def Unix_def fromUnix_def Second_def nullIfEmpty_def
  nilIfEmpty_def boolToInt_def Let_def StatusReady_def StatusPending_def

definition sample_row :: drop_row where
  "sample_row = \<lparr>dr_id = 1, dr_key = ''k1'', dr_wrapped_dek = [1], dr_created_at = 5,
     dr_expires_at = 100, dr_max_downloads = 2, dr_downloads = 0, dr_total_bytes = 3,
     dr_status = StatusReady, dr_uploader_hash = [9], dr_uploader_ip = Some ''10.0.0.1'',
     dr_delete_allowed = 0, dr_kind = ''file'', dr_manage_hash = None, dr_blocked_at = None\<rparr>"

lemma sample_store_drops: "drops sample_store = [sample_row]"
  by (simp add: sample_store_def sample_row_def store_eval)

lemma sample_store_files: "files sample_store = [sample_file\<lparr>f_ID := 1, f_Received := 3\<rparr>]"
  by (simp add: sample_store_def store_eval)

theorem store_invariant_witness:
  "store_ok sample_store \<and> map dr_key (drops sample_store) = [''k1'']"
  using store_invariant [OF sample_store_reachable] by (simp add: sample_store_drops sample_row_def)

text \<open>
  C15: racing recipients never share a download.  However many claims on a key the database
  serialises, at most the remaining number of downloads succeed; while the drop is ready,
  unblocked and unexpired, exactly the first that many do.
\<close>

theorem claim_race:
  assumes "store_ok s" "drop_by_key key s = Some r"
  shows "int (fst (run_claims key ts s)) \<le> max 0 (dr_max_downloads r - dr_downloads r) \<and>
    (dr_status r = StatusReady \<and> dr_blocked_at r = None \<and> (\<forall>t \<in> set ts. Unix t < dr_expires_at r) \<longrightarrow>
      fst (run_claims key ts s) = min (length ts) (nat (dr_max_downloads r - dr_downloads r)))"
  using run_claims_bound [OF assms] run_claims_exact [OF assms] by blast

theorem claim_race_witness:
  "fst (run_claims ''k1'' [10 * Second, 11 * Second, 12 * Second] sample_store) = 2"
  using claim_race [OF store_ok_reachable [OF sample_store_reachable], of "''k1''" sample_row
    "[10 * Second, 11 * Second, 12 * Second]"]
  by (simp add: drop_by_key_def sample_store_drops sample_row_def Unix_def Second_def)

text \<open>
  C16: finalizing is all or nothing.  A drop with a file short of its declared size is
  refused and the database is left as it was; otherwise (sizes non-negative, total below
  \<open>2^63\<close>) the drop becomes ready with the exact total, its upload sessions are gone, and no
  other drop changes.
\<close>

theorem finalize_all_or_nothing:
  assumes "store_ok s" "DropByID i s = Inr d" "\<forall>f \<in> set (files s). f_DropID f = i \<longrightarrow> 0 \<le> f_Size f"
    and "sum_list (map f_Size (Files i s)) < 2 ^ 63"
  shows "case Finalize i s of (r, s') \<Rightarrow>
    if \<forall>f \<in> set (Files i s). Complete f
    then r = None \<and> files s' = files s \<and>
      DropByID i s' = Inr (d\<lparr>d_Status := StatusReady, d_TotalBytes := sum_list (map f_Size (Files i s))\<rparr>) \<and>
      (\<forall>u \<in> set (upload_sessions s'). s_drop_id u \<noteq> i) \<and>
      (\<forall>j. j \<noteq> i \<longrightarrow> DropByID j s' = DropByID j s)
    else r \<noteq> None \<and> s' = s"
proof (cases "\<forall>f \<in> set (Files i s). Complete f")
  case True
  then have c: "\<forall>f \<in> set (files s). f_DropID f = i \<longrightarrow> Complete f \<and> 0 \<le> f_Size f"
    using assms(3) by (simp add: Files_def)
  obtain r where r: "drop_tab.by_id i (drops s) = Some r" "d = toDrop r"
    using assms(2) by (cases "drop_tab.by_id i (drops s)") (auto simp: DropByID_by_id)
  show ?thesis
    unfolding Finalize_ok [OF c assms(4)]
    using True r
    by (auto simp: DropByID_by_id drop_tab.by_id_update delete_where_def)
next
  case False
  then obtain f where "f \<in> set (files s)" "f_DropID f = i" "\<not> Complete f"
    by (auto simp: Files_def)
  then obtain e where "Finalize i s = (Some e, s)" using Finalize_incomplete by blast
  with False show ?thesis by auto
qed

definition sample_pending :: store where
  "sample_pending = snd (AddFile sample_file (snd (CreateDrop sample_drop [9] ''10.0.0.1'' empty_store)))"

lemma sample_pending_reachable: "store_reachable sample_pending"
  unfolding sample_pending_def
  by (rule store_reachable.step [OF _ add_file], rule store_reachable.step [OF init create_drop])

theorem finalize_all_or_nothing_witness:
  "fst (Finalize 1 sample_pending) \<noteq> None \<and> snd (Finalize 1 sample_pending) = sample_pending"
proof -
  have f: "files sample_pending = [sample_file\<lparr>f_ID := 1\<rparr>]"
    "drops sample_pending = [sample_row\<lparr>dr_status := StatusPending, dr_total_bytes := 0\<rparr>]"
    by (simp_all add: sample_pending_def sample_row_def store_eval)
  show ?thesis
    using finalize_all_or_nothing [OF store_ok_reachable [OF sample_pending_reachable], of 1
      "toDrop (sample_row\<lparr>dr_status := StatusPending, dr_total_bytes := 0\<rparr>)"]
    by (simp add: DropByID_def Files_def f sample_file_def Complete_def sample_row_def split: prod.splits)
qed

text \<open>
  Deleting a drop removes it together with its files and upload sessions, touches no
  other drop's rows, and keeps every report and the share key it names, with its reference
  to the deleted drop cleared.
\<close>

theorem delete_cascade:
  assumes "store_ok s"
  shows "DropByID i (DeleteDrop i s) = Inl StoreNotFound \<and> Files i (DeleteDrop i s) = [] \<and>
    (\<forall>u \<in> set (upload_sessions (DeleteDrop i s)). s_drop_id u \<noteq> i) \<and>
    (\<forall>j. j \<noteq> i \<longrightarrow> DropByID j (DeleteDrop i s) = DropByID j s \<and> Files j (DeleteDrop i s) = Files j s) \<and>
    map p_drop_key (reports (DeleteDrop i s)) = map p_drop_key (reports s) \<and>
    (\<forall>p \<in> set (reports (DeleteDrop i s)). p_drop_id p \<noteq> Some i) \<and> store_ok (DeleteDrop i s)"
proof (intro conjI)
  show "\<forall>j. j \<noteq> i \<longrightarrow> DropByID j (DeleteDrop i s) = DropByID j s \<and> Files j (DeleteDrop i s) = Files j s"
    using Files_other [of i _ s] by (auto simp: DeleteDrop_def DropByID_by_id drop_tab.by_id_delete Files_def)
qed (use assms store_ok_DeleteDrop in \<open>auto simp: DeleteDrop_def DropByID_by_id drop_tab.by_id_delete
    Files_def map_update_where set_update_where filter_empty_conv\<close>,
    auto simp: delete_where_def)

theorem delete_cascade_witness:
  "DropByID 1 sample_store \<noteq> Inl StoreNotFound \<and>
   DropByID 1 (DeleteDrop 1 sample_store) = Inl StoreNotFound \<and> Files 1 (DeleteDrop 1 sample_store) = []"
  using delete_cascade [OF store_ok_reachable [OF sample_store_reachable], of 1]
  by (simp add: DropByID_def sample_store_drops sample_row_def)

text \<open>
  Expiry and serving are complementary.  An unblocked ready drop is due for reaping
  exactly when it can no longer be served, so nothing live is ever reaped and nothing dead is
  kept; a blocked drop is neither served, nor claimed, nor reaped.
\<close>

theorem reap_complements_live:
  assumes "store_ok s" "r \<in> set (drops s)" "dr_status r = StatusReady"
  shows "(dr_blocked_at r = None \<longrightarrow>
      (toDrop r \<in> set (Reapable now cutoff s) \<longleftrightarrow> LiveDropByKey (dr_key r) now s = Inl StoreNotFound)) \<and>
    (dr_blocked_at r \<noteq> None \<longrightarrow>
      (\<forall>d \<in> set (Reapable now cutoff s). d_Key d \<noteq> dr_key r) \<and>
      LiveDropByKey (dr_key r) now s = Inl StoreNotFound \<and>
      ClaimDownload (dr_key r) now s = (Inl StoreNotFound, s))"
proof -
  have k: "drop_by_key (dr_key r) s = Some r" using assms by (simp add: drop_by_key_Some)
  have only: "x = r" if "x \<in> set (drops s)" "dr_key x = dr_key r" for x
    using k that assms(1) by (metis drop_by_key_Some option.inject)
  have reap: "(\<exists>d \<in> set (Reapable now cutoff s). d_Key d = dr_key r) \<longleftrightarrow> reapable now cutoff r"
    using only assms(2) by (fastforce simp: Reapable_def)
  have "toDrop r \<in> set (Reapable now cutoff s) \<longleftrightarrow> reapable now cutoff r"
  proof
    assume "toDrop r \<in> set (Reapable now cutoff s)"
    then show "reapable now cutoff r" using reap toDrop_simps(2) by blast
  qed (use assms(2) in \<open>auto simp: Reapable_def\<close>)
  with k reap assms(3) show ?thesis
    by (auto simp: LiveDropByKey_def find_claimable [OF assms(1)] ClaimDownload_cases [OF assms(1)]
        claimable_def reapable_def)
qed

theorem reap_complements_live_witness:
  "toDrop sample_row \<notin> set (Reapable (50 * Second) 0 sample_store) \<and>
   toDrop sample_row \<in> set (Reapable (100 * Second) 0 sample_store)"
  using reap_complements_live [OF store_ok_reachable [OF sample_store_reachable], of sample_row "50 * Second" 0]
    reap_complements_live [OF store_ok_reachable [OF sample_store_reachable], of sample_row "100 * Second" 0]
  by (simp add: sample_store_drops LiveDropByKey_def claimable_def Unix_def Second_def sample_row_def)

text \<open>
  What is created is found again.  Creating a drop under a fresh key stores it under a
  fresh id as a pending drop with its times cut to whole seconds, unblocked and with no
  downloads: lookups by key and by id return exactly that, no lookup of a live drop or claim
  finds it yet, and other drops are unaffected.  A key already in use is refused and nothing
  changes.
\<close>

theorem create_then_lookup:
  assumes "store_ok s"
  shows "if d_Key d \<in> dr_key ` set (drops s)
    then \<exists>e. CreateDrop d h ip s = (Inl e, s)
    else \<exists>i kind s'. CreateDrop d h ip s = (Inr (d\<lparr>d_ID := i, d_Status := StatusPending, d_Kind := kind\<rparr>), s') \<and>
      DropByID i s = Inl StoreNotFound \<and> kind = (if d_Kind d = [] then ''file'' else d_Kind d) \<and>
      (let stored = d\<lparr>d_ID := i, d_Status := StatusPending, d_Kind := kind, d_Downloads := 0, d_TotalBytes := 0,
          d_CreatedAt := fromUnix (Unix (d_CreatedAt d)), d_ExpiresAt := fromUnix (Unix (d_ExpiresAt d)),
          d_BlockedAt := zeroTime\<rparr>
       in DropByID i s' = Inr stored \<and> DropByKey (d_Key d) s' = Inr stored) \<and>
      (\<forall>now. LiveDropByKey (d_Key d) now s' = Inl StoreNotFound) \<and>
      (\<forall>j. j \<noteq> i \<longrightarrow> DropByID j s' = DropByID j s) \<and>
      (\<forall>k. k \<noteq> d_Key d \<longrightarrow> DropByKey k s' = DropByKey k s)"
proof (cases "d_Key d \<in> dr_key ` set (drops s)")
  case False
  define kind where "kind = (if d_Kind d = [] then ''file'' else d_Kind d)"
  define x where "x = (d, kind, h, ip)"
  obtain rows i where ins: "insert_row dr_id (new_drop x) (drops s) = (rows, i)"
    by (cases "insert_row dr_id (new_drop x) (drops s)") auto
  let ?s' = "s\<lparr>drops := rows\<rparr>"
  have rows: "rows = drops s @ [new_drop x i]" using insert_row_parts [OF ins] by blast
  have key: "dr_key (new_drop x i) = d_Key d" by (simp add: new_drop_def x_def)
  have cd: "CreateDrop d h ip s = (Inr (d\<lparr>d_ID := i, d_Status := StatusPending, d_Kind := kind\<rparr>), ?s')"
    using False ins by (simp add: CreateDrop_def Let_def kind_def x_def)
  have none: "find (\<lambda>r. dr_key r = d_Key d) (drops s) = None"
    unfolding find_None using False by (auto simp: image_iff)
  have stored: "toDrop (new_drop x i) = d\<lparr>d_ID := i, d_Status := StatusPending, d_Kind := kind,
      d_Downloads := 0, d_TotalBytes := 0, d_CreatedAt := fromUnix (Unix (d_CreatedAt d)),
      d_ExpiresAt := fromUnix (Unix (d_ExpiresAt d)), d_BlockedAt := zeroTime\<rparr>"
    by (simp add: toDrop_def scanDrop_def new_drop_def x_def boolToInt_def nilIfEmpty_def)
  have live: "find (claimable (d_Key d) now) rows = None" for now
    unfolding find_None rows using none
    by (auto simp: claimable_def find_None new_drop_def x_def)
  have "DropByID i s = Inl StoreNotFound"
    using drop_tab.insert_fresh [OF ins] find_None [of "\<lambda>r. dr_id r = i" "drops s"]
    by (auto simp: DropByID_def image_iff)
  moreover have "DropByID i ?s' = Inr (toDrop (new_drop x i))" "j \<noteq> i \<Longrightarrow> DropByID j ?s' = DropByID j s" for j
    using drop_tab.by_id_insert [OF ins] by (simp_all add: DropByID_by_id)
  moreover have "DropByKey (d_Key d) ?s' = Inr (toDrop (new_drop x i))"
    using none key by (simp add: DropByKey_def rows find_append)
  moreover have "k \<noteq> d_Key d \<Longrightarrow> DropByKey k ?s' = DropByKey k s" for k
    using key by (simp add: DropByKey_def rows find_append split: option.splits)
  ultimately show ?thesis
    using False live stored unfolding cd by (auto simp: LiveDropByKey_def Let_def kind_def)
qed (auto simp: CreateDrop_def Let_def)

theorem create_then_lookup_witness:
  "\<exists>e. CreateDrop sample_drop [9] ''10.0.0.1'' sample_store = (Inl e, sample_store)"
  using create_then_lookup [OF store_ok_reachable [OF sample_store_reachable], of sample_drop "[9]" "''10.0.0.1''"]
  by (simp add: sample_store_drops sample_row_def sample_drop_def)

text \<open>
  Migration is idempotent and complete.  Whatever columns an older database has, \<open>migrate\<close>
  succeeds, keeps the existing columns in place, adds each missing one exactly once, and a
  second run changes nothing.
\<close>

theorem migrate_idempotent:
  assumes "distinct cols"
  shows "\<exists>new. migrate cols = Inr (cols @ new) \<and> migrate (cols @ new) = Inr (cols @ new) \<and>
    distinct (cols @ new) \<and> set (cols @ new) = set cols \<union> set migrations"
proof -
  have loop: "distinct as \<Longrightarrow> migrate_loop as cs = Inr (cs @ filter (\<lambda>a. a \<notin> set cs) as)" for as cs
  proof (induction as arbitrary: cs)
    case (Cons a as)
    then have "filter (\<lambda>x. x \<notin> set (cs @ [a])) as = filter (\<lambda>x. x \<notin> set cs) as"
      by (intro filter_cong) auto
    with Cons show ?case by (simp add: hasColumn_def add_column_def)
  qed simp
  let ?new = "filter (\<lambda>a. a \<notin> set cols) migrations"
  have d: "distinct migrations" by (simp add: migrations_def)
  have m: "''manage_hash'' \<in> set migrations" by (simp add: migrations_def)
  have "filter (\<lambda>a. a \<notin> set (cols @ ?new)) migrations = []"
    by (auto simp: filter_empty_conv)
  then have "migrate (cols @ ?new) = Inr (cols @ ?new)"
    using loop [OF d, of "cols @ ?new"] m by (auto simp: migrate_def)
  moreover have "migrate cols = Inr (cols @ ?new)"
    using loop [OF d, of cols] m by (auto simp: migrate_def)
  ultimately show ?thesis using assms d by (intro exI [of _ ?new]) auto
qed

theorem migrate_idempotent_witness:
  "\<exists>new. migrate [''id'', ''key'', ''kind''] = Inr ([''id'', ''key'', ''kind''] @ new) \<and>
    set ([''id'', ''key'', ''kind''] @ new) = {''id'', ''key'', ''kind''} \<union> set migrations"
  using migrate_idempotent [of "[''id'', ''key'', ''kind'']"] by auto

lemma migrate_loop_columns: "migrate_loop as cs = Inr cs' \<Longrightarrow> set cs' = set cs \<union> set as"
  by (induction as arbitrary: cs) (auto simp: hasColumn_def add_column_def split: if_splits sum.splits)

text \<open>
  Opening any database whose table has at least the columns of the first version gives one
  with every column the queries read; opening it again changes nothing.
\<close>

lemma OpenStore_columns:
  assumes "cols = None \<or> (\<exists>cs. cols = Some cs \<and> list_all (\<lambda>c. c \<in> set cs \<or> c \<in> set migrations) dropColumns)"
  shows "\<exists>cs'. OpenStore True cols = Inr cs' \<and> set dropColumns \<subseteq> set cs' \<and> OpenStore True (Some cs') = Inr cs'"
proof -
  define cs where "cs = (case cols of None \<Rightarrow> schemaColumns | Some cs \<Rightarrow> cs)"
  have old: "list_all (\<lambda>c. c \<in> set cs \<or> c \<in> set migrations) dropColumns"
  proof (cases cols)
    case None
    have "list_all (\<lambda>c. c \<in> set schemaColumns \<or> c \<in> set migrations) dropColumns"
      by (simp add: schemaColumns_def dropColumns_def migrations_def)
    with None show ?thesis by (simp add: cs_def)
  next
    case (Some x)
    with assms show ?thesis by (simp add: cs_def)
  qed
  obtain cs' where l: "migrate_loop migrations cs = Inr cs'"
  proof -
    have "\<exists>cs'. migrate_loop as x = Inr cs'" for as x
      by (induction as arbitrary: x) (auto simp: hasColumn_def add_column_def)
    then show thesis using that by blast
  qed
  have same: "set as \<subseteq> set x \<Longrightarrow> migrate_loop as x = Inr x" for as x
    by (induction as) (auto simp: hasColumn_def)
  have set: "set cs' = set cs \<union> set migrations" by (rule migrate_loop_columns [OF l])
  have "''manage_hash'' \<in> set migrations" by (simp add: migrations_def)
  then have "''manage_hash'' \<in> set cs'" "set migrations \<subseteq> set cs'" using set by blast+
  then have "migrate cs = Inr cs'" "migrate cs' = Inr cs'"
    using l same [of migrations cs'] by (simp_all add: migrate_def)
  moreover have "set dropColumns \<subseteq> set cs'" using old set by (auto simp: list_all_iff)
  ultimately show ?thesis by (simp add: OpenStore_def cs_def)
qed

end
