(* ===== verification/Service_Config.thy ===== *)
theory Service_Config
  imports Cryptobox_Keys Store_Correct GoStrings
begin

text \<open>
  The limits of a service instance: src/internal/service/config.go.

  The interpolation of the size limit is a floating-point computation
  (\<open>int64(y0 * pow(y1/y0, t))\<close>).  It is the parameter \<open>interp\<close>, a function of the same five
  integers as \<open>geomLimit\<close>; \<open>good_interp\<close> states what is relied on, that a value
  interpolated strictly between two anchors lies between them.
\<close>

type_synonym interp = "int \<Rightarrow> int \<Rightarrow> int \<Rightarrow> int \<Rightarrow> int \<Rightarrow> int"

record Config =
  BlobRoot :: string
  MaxFiles :: int
  MaxTotalBytes :: int
  MaxDays :: int
  MaxDownloads :: int
  SizeAtMinDays :: int
  SizeAtMaxDays :: int
  SizeAtMinDownloads :: int
  SizeAtMaxDownloads :: int
  PartSize :: int
  UploadTTL :: int
  DownloadTTL :: int
  DiskQuotaBytes :: int

definition DefaultConfig :: "string \<Rightarrow> Config" where
  "DefaultConfig blobRoot =
     \<lparr>BlobRoot = blobRoot, MaxFiles = 100, MaxTotalBytes = 10 * 2 ^ 30, MaxDays = 100,
      MaxDownloads = 500, SizeAtMinDays = 10 * 2 ^ 30, SizeAtMaxDays = 500 * 2 ^ 20,
      SizeAtMinDownloads = 10 * 2 ^ 30, SizeAtMaxDownloads = 500 * 2 ^ 20,
      PartSize = 8 * 2 ^ 20, UploadTTL = 24 * Hour, DownloadTTL = 30 * Minute, DiskQuotaBytes = 0\<rparr>"

definition geomLimit :: "interp \<Rightarrow> int \<Rightarrow> int \<Rightarrow> int \<Rightarrow> int \<Rightarrow> int \<Rightarrow> int" where
  "geomLimit ip x x0 y0 x1 y1 =
     (if x1 = x0 then y0
      else if x \<le> x0 then y0
      else if x \<ge> x1 then y1
      else ip x x0 y0 x1 y1)"

definition MaxUploadBytes :: "interp \<Rightarrow> Config \<Rightarrow> int \<Rightarrow> int \<Rightarrow> int" where
  "MaxUploadBytes ip c days downloads =
     (let byDays = geomLimit ip days 1 (SizeAtMinDays c) (MaxDays c) (SizeAtMaxDays c);
          byDownloads = geomLimit ip downloads 1 (SizeAtMinDownloads c) (MaxDownloads c) (SizeAtMaxDownloads c)
      in min (min byDays byDownloads) (MaxTotalBytes c))"

definition Validate :: "Config \<Rightarrow> err option" where
  "Validate c =
     (if BlobRoot c = [] then Some (Other ''service: BlobRoot must be set'')
      else if MaxFiles c < 1 then Some (Other ''service: MaxFiles must be at least 1'')
      else if MaxTotalBytes c < 1 then Some (Other ''service: MaxTotalBytes must be positive'')
      else if MaxDays c < 1 then Some (Other ''service: MaxDays must be at least 1'')
      else if MaxDownloads c < 1 then Some (Other ''service: MaxDownloads must be at least 1'')
      else if PartSize c \<le> 0 \<or> PartSize c smod int ChunkSize \<noteq> 0
        then Some (Other ''service: PartSize must be a positive multiple'')
      else if UploadTTL c \<le> 0 then Some (Other ''service: UploadTTL must be positive'')
      else if DownloadTTL c \<le> 0 then Some (Other ''service: DownloadTTL must be positive'')
      else None)"

definition good_interp :: "interp \<Rightarrow> bool" where
  "good_interp ip \<longleftrightarrow>
     (\<forall>x x0 y0 x1 y1. x0 < x \<and> x < x1 \<and> 0 < y1 \<and> y1 \<le> y0 \<longrightarrow>
        y1 \<le> ip x x0 y0 x1 y1 \<and> ip x x0 y0 x1 y1 \<le> y0)"

text \<open>A linear instance, used by the witnesses.\<close>

definition linear_interp :: interp where
  "linear_interp x x0 y0 x1 y1 = y0 - (y0 - y1) * (x - x0) div (x1 - x0)"

end
