(* ===== verification/Service_Sessions.thy ===== *)
theory Service_Sessions
  imports Service_Config
begin

text \<open>
  The in-memory tables of download sessions and tickets: src/internal/service/session.go and
  the table part of ticket.go.  A Go map is an association list whose first entry for a key
  counts.  Both tables meet the contract \<open>expiring_table\<close>: a lookup never returns an
  expired entry, and sweeping is invisible to later lookups.
\<close>

type_synonym 'v table = "(string \<times> 'v) list"

definition tab_put :: "string \<Rightarrow> 'v \<Rightarrow> 'v table \<Rightarrow> 'v table" where
  "tab_put k v t = (k, v) # filter (\<lambda>p. fst p \<noteq> k) t"

definition tab_delete :: "string \<Rightarrow> 'v table \<Rightarrow> 'v table" where
  "tab_delete k t = filter (\<lambda>p. fst p \<noteq> k) t"

text \<open>Go's \<open>now.After(t)\<close>.\<close>

definition After :: "time \<Rightarrow> time \<Rightarrow> bool" where
  "After now t \<longleftrightarrow> now > t"

subsection \<open>Download sessions\<close>

record downloadSession =
  ss_dropKey :: string
  ss_dropID :: int
  ss_dek :: bytes
  ss_expiresAt :: time
  ss_claimed :: bool

type_synonym sessionTable = "downloadSession table"

definition put :: "string \<Rightarrow> downloadSession \<Rightarrow> sessionTable \<Rightarrow> sessionTable" where
  "put token s t = tab_put token s t"

definition get :: "string \<Rightarrow> time \<Rightarrow> sessionTable \<Rightarrow> downloadSession option \<times> sessionTable" where
  "get token now t =
     (case map_of t token of
        None \<Rightarrow> (None, t)
      | Some s \<Rightarrow>
          if After now (ss_expiresAt s) then (None, tab_delete token t) else (Some s, t))"

definition deleteSession :: "string \<Rightarrow> sessionTable \<Rightarrow> sessionTable" where
  "deleteSession token t = tab_delete token t"

definition deleteByDrop :: "int \<Rightarrow> sessionTable \<Rightarrow> sessionTable" where
  "deleteByDrop dropID t = filter (\<lambda>(k, s). ss_dropID s \<noteq> dropID) t"

definition sweepSessions :: "time \<Rightarrow> sessionTable \<Rightarrow> nat \<times> sessionTable" where
  "sweepSessions now t =
     (length (filter (\<lambda>(k, s). After now (ss_expiresAt s)) t),
      filter (\<lambda>(k, s). \<not> After now (ss_expiresAt s)) t)"

text \<open>
  \<open>s\<close> is the session object stored under \<open>token\<close>; \<open>claim\<close> acts on the rest of the state.
\<close>

definition claimOnce ::
  "string \<Rightarrow> downloadSession \<Rightarrow> ('s \<Rightarrow> err option \<times> 's) \<Rightarrow> sessionTable \<times> 's \<Rightarrow>
   err option \<times> sessionTable \<times> 's" where
  "claimOnce token s claim ts =
     (case ts of (t, x) \<Rightarrow>
        if ss_claimed s then (None, t, x)
        else case claim x of
          (Some e, x') \<Rightarrow> (Some e, t, x')
        | (None, x') \<Rightarrow> (None, tab_put token (s\<lparr>ss_claimed := True\<rparr>) t, x'))"

subsection \<open>Tickets\<close>

definition ticketTTL :: int where "ticketTTL = 10 * Minute"
definition ZipTicket :: int where "ZipTicket = -1"

record ticket =
  tk_sessionToken :: string
  tk_fileID :: int
  tk_expiresAt :: time

type_synonym ticketTable = "ticket table"

definition sweepTickets :: "time \<Rightarrow> ticketTable \<Rightarrow> nat \<times> ticketTable" where
  "sweepTickets now t =
     (length (filter (\<lambda>(k, s). After now (tk_expiresAt s)) t),
      filter (\<lambda>(k, s). \<not> After now (tk_expiresAt s)) t)"

text \<open>The locked part of \<open>redeem\<close>.\<close>

definition lookupTicket :: "string \<Rightarrow> time \<Rightarrow> ticketTable \<Rightarrow> ticket option \<times> ticketTable" where
  "lookupTicket i now t =
     (case map_of t i of
        None \<Rightarrow> (None, t)
      | Some tk \<Rightarrow>
          if After now (tk_expiresAt tk) then (None, tab_delete i t) else (Some tk, t))"

subsection \<open>Laws of the tables\<close>

lemma map_of_tab_put: "map_of (tab_put k v t) j = (if j = k then Some v else map_of t j)"
proof -
  have "map_of (filter (\<lambda>p. fst p \<noteq> k) t) j = (if j = k then None else map_of t j)"
    by (induction t) auto
  then show ?thesis by (simp add: tab_put_def)
qed

lemma map_of_tab_delete: "map_of (tab_delete k t) j = (if j = k then None else map_of t j)"
  unfolding tab_delete_def by (induction t) auto

lemma distinct_tab_put: "distinct (map fst t) \<Longrightarrow> distinct (map fst (tab_put k v t))"
  by (auto simp: tab_put_def distinct_map_filter)

lemma distinct_tab_delete: "distinct (map fst t) \<Longrightarrow> distinct (map fst (tab_delete k t))"
  by (auto simp: tab_delete_def distinct_map_filter)

lemma map_of_filter_val:
  assumes "distinct (map fst t)"
  shows "map_of (filter (\<lambda>(k, v). p v) t) j =
    (case map_of t j of None \<Rightarrow> None | Some v \<Rightarrow> if p v then Some v else None)"
  using assms by (induction t) (auto simp: map_of_eq_None_iff split: option.splits dest: map_of_SomeD)

locale expiring_table =
  fixes expiry :: "'v \<Rightarrow> time"
    and look :: "string \<Rightarrow> time \<Rightarrow> 'v table \<Rightarrow> 'v option \<times> 'v table"
    and clear :: "time \<Rightarrow> 'v table \<Rightarrow> nat \<times> 'v table"
  assumes look_law: "look k now t =
      (case map_of t k of
         None \<Rightarrow> (None, t)
       | Some v \<Rightarrow> if now > expiry v then (None, tab_delete k t) else (Some v, t))"
    and clear_law: "clear now t =
      (length (filter (\<lambda>(k, v). now > expiry v) t), filter (\<lambda>(k, v). \<not> now > expiry v) t)"
begin

lemma look_Some: "look k now t = (Some v, t') \<longleftrightarrow> map_of t k = Some v \<and> now \<le> expiry v \<and> t' = t"
  by (auto simp: look_law split: option.splits)

lemma look_distinct: "distinct (map fst t) \<Longrightarrow> distinct (map fst (snd (look k now t)))"
  by (auto simp: look_law distinct_tab_delete split: option.splits)

lemma look_shrinks: "set (snd (look k now t)) \<subseteq> set t"
  by (auto simp: look_law tab_delete_def split: option.splits)

lemma clear_shrinks: "set (snd (clear now t)) \<subseteq> set t"
  by (auto simp: clear_law)

lemma clear_distinct: "distinct (map fst t) \<Longrightarrow> distinct (map fst (snd (clear now t)))"
  by (simp add: clear_law distinct_map_filter)

lemma clear_count: "fst (clear now t) + length (snd (clear now t)) = length t"
  using sum_length_filter_compl [of "\<lambda>(k, v). now > expiry v" t]
  by (simp add: clear_law case_prod_unfold)

lemma clear_invisible:
  assumes "distinct (map fst t)" "now \<le> later"
  shows "fst (look k later (snd (clear now t))) = fst (look k later t)"
  using assms(2)
  by (auto simp: look_law clear_law map_of_filter_val [OF assms(1), of "\<lambda>v. \<not> now > expiry v"]
      split: option.splits)

lemma clear_all_live: "(k, v) \<in> set (snd (clear now t)) \<Longrightarrow> now \<le> expiry v"
  by (auto simp: clear_law)

end

interpretation sessions: expiring_table ss_expiresAt get sweepSessions
  by unfold_locales (simp_all add: get_def sweepSessions_def After_def split: option.splits)

interpretation tickets: expiring_table tk_expiresAt lookupTicket sweepTickets
  by unfold_locales (simp_all add: lookupTicket_def sweepTickets_def After_def split: option.splits)

end
