(* ===== verification/I18n.thy ===== *)
theory I18n
  imports Json Service_Sessions
begin

text \<open>
  The message catalog and the languages of the site: src/internal/i18n/i18n.go.  The text of
  the endonyms is given by its UTF-8 bytes.
\<close>

record Lang =
  g_Code :: string
  g_Name :: string
  g_Dir :: string

definition Langs :: "Lang list" where
  "Langs =
     [\<lparr>g_Code = ''ja'', g_Name = str [230, 151, 165, 230, 156, 172, 232, 170, 158], g_Dir = ''ltr''\<rparr>,
      \<lparr>g_Code = ''en'', g_Name = ''English'', g_Dir = ''ltr''\<rparr>,
      \<lparr>g_Code = ''ko'', g_Name = str [237, 149, 156, 234, 181, 173, 236, 150, 180], g_Dir = ''ltr''\<rparr>,
      \<lparr>g_Code = ''zh'', g_Name = str [228, 184, 173, 230, 150, 135], g_Dir = ''ltr''\<rparr>,
      \<lparr>g_Code = ''ru'', g_Name = str [208, 160, 209, 131, 209, 129, 209, 129, 208, 186, 208, 184, 208, 185], g_Dir = ''ltr''\<rparr>,
      \<lparr>g_Code = ''ar'', g_Name = str [216, 167, 217, 132, 216, 185, 216, 177, 216, 168, 217, 138, 216, 169], g_Dir = ''rtl''\<rparr>,
      \<lparr>g_Code = ''hi'', g_Name = str [224, 164, 185, 224, 164, 191, 224, 164, 168, 224, 165, 141, 224, 164, 166, 224,
        165, 128], g_Dir = ''ltr''\<rparr>,
      \<lparr>g_Code = ''es'', g_Name = str [69, 115, 112, 97, 195, 177, 111, 108], g_Dir = ''ltr''\<rparr>,
      \<lparr>g_Code = ''bn'', g_Name = str [224, 166, 172, 224, 166, 190, 224, 166, 130, 224, 166, 178, 224, 166, 190], g_Dir = ''ltr''\<rparr>,
      \<lparr>g_Code = ''pt'', g_Name = str [80, 111, 114, 116, 117, 103, 117, 195, 170, 115], g_Dir = ''ltr''\<rparr>,
      \<lparr>g_Code = ''id'', g_Name = ''Indonesia'', g_Dir = ''ltr''\<rparr>]"

definition Default :: string where "Default = ''ja''"

definition IsSupported :: "string \<Rightarrow> bool" where
  "IsSupported code \<longleftrightarrow> list_ex (\<lambda>l. g_Code l = code) Langs"

definition DirOf :: "string \<Rightarrow> string" where
  "DirOf code = (case find (\<lambda>l. g_Code l = code) Langs of Some l \<Rightarrow> g_Dir l | None \<Rightarrow> ''ltr'')"

text \<open>The nested map of messages, as association lists with distinct keys.\<close>

type_synonym Catalog = "string table table"

text \<open>The files that are embedded in the binary (src/web), by their paths.\<close>

type_synonym assets = "(string \<times> bytes) list"

definition ReadFile :: "assets \<Rightarrow> string \<Rightarrow> bytes option" where
  "ReadFile a path = map_of a path"

fun loadLangs :: "assets \<Rightarrow> Lang list \<Rightarrow> Catalog res" where
  "loadLangs a [] = Inr []"
| "loadLangs a (l # ls) =
     (case ReadFile a (''i18n/'' @ g_Code l @ ''.json'') of
        None \<Rightarrow> Inl (Other ''i18n: read'')
      | Some b \<Rightarrow>
          case Option.bind (WholeValue b) store_map of
            None \<Rightarrow> Inl (Other ''i18n: parse'')
          | Some msgs \<Rightarrow>
              case loadLangs a ls of
                Inl e \<Rightarrow> Inl e
              | Inr c \<Rightarrow> Inr ((g_Code l, msgs) # c))"

definition Load :: "assets \<Rightarrow> Catalog res" where
  "Load a = loadLangs a Langs"

definition message :: "Catalog \<Rightarrow> string \<Rightarrow> string \<Rightarrow> string option" where
  "message c lang key = (case map_of c lang of None \<Rightarrow> None | Some m \<Rightarrow> map_of m key)"

definition T :: "Catalog \<Rightarrow> string \<Rightarrow> string \<Rightarrow> string" where
  "T c lang key =
     (case message c lang key of
        Some v \<Rightarrow> v
      | None \<Rightarrow> (case message c Default key of Some v \<Rightarrow> v | None \<Rightarrow> key))"

definition Prefixed :: "Catalog \<Rightarrow> string \<Rightarrow> string \<Rightarrow> string table" where
  "Prefixed c lang pre =
     map (\<lambda>k. (TrimPrefix k pre, T c lang k))
       (filter (\<lambda>k. HasPrefix k pre) (case map_of c Default of None \<Rightarrow> [] | Some m \<Rightarrow> map fst m))"

definition Has :: "Catalog \<Rightarrow> string \<Rightarrow> string \<Rightarrow> bool" where
  "Has c lang key = (case message c lang key of None \<Rightarrow> False | Some v \<Rightarrow> v \<noteq> [])"

subsection \<open>Laws of the catalog\<close>

lemma Default_supported: "IsSupported Default"
  by (simp add: IsSupported_def Langs_def Default_def)

lemma IsSupported_plain: "IsSupported code \<Longrightarrow> code \<noteq> [] \<and> CHR ''/'' \<notin> set code"
  by (auto simp: IsSupported_def Langs_def)

lemma T_cases: "T c lang key \<noteq> key \<Longrightarrow> message c lang key = Some (T c lang key) \<or>
   (message c lang key = None \<and> message c Default key = Some (T c lang key))"
  by (auto simp: T_def split: option.splits)

lemma Load_languages:
  "loadLangs a ls = Inr c \<Longrightarrow> map fst c = map g_Code ls"
  by (induction ls arbitrary: c) (auto split: option.splits sum.splits)

end
