(* ===== verification/Service_State.thy ===== *)
theory Service_State
  imports Service_Sessions
begin

text \<open>
  The state of the service (the \<open>Service\<close> struct of src/internal/service/service.go with what
  it reaches: the database, the two in-memory tables, the blob directory, the random source
  and the clock) and the actions on it.  An action returns a value or an error and the state
  after it; effects made before an error stay made.

  Blobs.  Paths are relative to \<open>BlobRoot\<close>.  A blob can be created only in a directory
  that exists; \<open>fs_denied\<close> lists the directories on which the system refuses to act.
\<close>

record blobfs =
  fs_files :: "bytes table"
  fs_dirs :: "string list"
  fs_denied :: "string list"

record service =
  sv_st :: store
  sv_cfg :: Config
  sv_down :: sessionTable
  sv_tickets :: ticketTable
  sv_fs :: blobfs
  sv_rand :: tape
  sv_now :: time

type_synonym 'a act = "service \<Rightarrow> 'a res \<times> service"

definition ret :: "'a \<Rightarrow> 'a act" where "ret x s = (Inr x, s)"
definition fail :: "err \<Rightarrow> 'a act" where "fail e s = (Inl e, s)"

definition andThen :: "'a act \<Rightarrow> ('a \<Rightarrow> 'b act) \<Rightarrow> 'b act" where
  "andThen m f s = (case m s of (Inl e, s') \<Rightarrow> (Inl e, s') | (Inr x, s') \<Rightarrow> f x s')"

definition lift_res :: "'a res \<Rightarrow> 'a act" where "lift_res r s = (r, s)"

definition draw :: "'a rand \<Rightarrow> 'a act" where
  "draw r s = (case r (sv_rand s) of (v, t) \<Rightarrow> (v, s\<lparr>sv_rand := t\<rparr>))"

text \<open>Database calls: queries, updates that cannot fail, and updates that can.\<close>

definition query :: "(store \<Rightarrow> 'a res) \<Rightarrow> 'a act" where
  "query q s = (q (sv_st s), s)"

definition db :: "(store \<Rightarrow> 'a res \<times> store) \<Rightarrow> 'a act" where
  "db f s = (case f (sv_st s) of (v, st) \<Rightarrow> (v, s\<lparr>sv_st := st\<rparr>))"

definition db_upd :: "(store \<Rightarrow> store) \<Rightarrow> unit act" where
  "db_upd f s = (Inr (), s\<lparr>sv_st := f (sv_st s)\<rparr>)"

definition db_err :: "(store \<Rightarrow> err option \<times> store) \<Rightarrow> unit act" where
  "db_err f s =
     (case f (sv_st s) of
        (None, st) \<Rightarrow> (Inr (), s\<lparr>sv_st := st\<rparr>)
      | (Some e, st) \<Rightarrow> (Inl e, s\<lparr>sv_st := st\<rparr>))"

definition clock :: "time act" where "clock s = (Inr (sv_now s), s)"
definition config :: "Config act" where "config s = (Inr (sv_cfg s), s)"

text \<open>The translation of a store's not-found error into the service's.\<close>

definition notFound :: "'a act \<Rightarrow> 'a act" where
  "notFound m s =
     (case m s of (Inl e, s') \<Rightarrow> (Inl (if e = StoreNotFound then ErrNotFound else e), s') | r \<Rightarrow> r)"

lemmas act_defs = ret_def fail_def lift_res_def query_def db_upd_def clock_def config_def

lemma andThen_simps [simp]:
  "andThen (ret x) f = f x" "andThen (fail e) f = fail e"
  by (simp_all add: fun_eq_iff andThen_def ret_def fail_def)

lemma andThen_Inr: "m s = (Inr x, s') \<Longrightarrow> andThen m f s = f x s'"
  by (simp add: andThen_def)

lemma andThen_Inl: "m s = (Inl e, s') \<Longrightarrow> andThen m f s = (Inl e, s')"
  by (simp add: andThen_def)

lemma andThen_Inr_E:
  assumes "andThen m f s = (Inr y, s'')"
  obtains x s' where "m s = (Inr x, s')" "f x s' = (Inr y, s'')"
  using assms by (auto simp: andThen_def split: prod.splits sum.splits)

lemma andThen_cases:
  obtains e s' where "m s = (Inl e, s')" "andThen m f s = (Inl e, s')"
  | x s' where "m s = (Inr x, s')" "andThen m f s = f x s'"
  by (cases "m s"; cases "fst (m s)") (auto simp: andThen_def)

subsection \<open>Blob files\<close>

definition blobRel :: "string \<Rightarrow> int \<Rightarrow> string res" where
  "blobRel dropKey fileID =
     (if length dropKey < 2 then Inl (Panic ''slice bounds out of range'')
      else Inr (take 2 dropKey @ ''/'' @ dropKey @ ''/'' @ FormatInt fileID))"

text \<open>\<open>filepath.Dir\<close> of a blob path, and the directory of a drop.\<close>

definition blobDir :: "string \<Rightarrow> string" where
  "blobDir rel = TrimSuffix (take (length rel - length (after_last (CHR ''/'') rel)) rel) ''/''"

definition dropDir :: "string \<Rightarrow> string res" where
  "dropDir key =
     (if length key < 2 then Inl (Panic ''slice bounds out of range'')
      else Inr (take 2 key @ ''/'' @ key))"

definition MkdirAll :: "string \<Rightarrow> unit act" where
  "MkdirAll dir s =
     (if dir \<in> set (fs_denied (sv_fs s)) then (Inl (Other ''service: create blob dir''), s)
      else (Inr (), s\<lparr>sv_fs := (sv_fs s)\<lparr>fs_dirs := List.insert dir (fs_dirs (sv_fs s))\<rparr>\<rparr>))"

definition setBlob :: "string \<Rightarrow> bytes \<Rightarrow> unit act" where
  "setBlob path b s =
     (Inr (), s\<lparr>sv_fs := (sv_fs s)\<lparr>fs_files := tab_put path b (fs_files (sv_fs s))\<rparr>\<rparr>)"

text \<open>\<open>os.OpenFile(path, O_RDWR|O_CREATE)\<close>: the content there is, a new empty file if none.\<close>

definition openCreate :: "string \<Rightarrow> bytes act" where
  "openCreate path s =
     (case map_of (fs_files (sv_fs s)) path of
        Some b \<Rightarrow> (Inr b, s)
      | None \<Rightarrow>
          if blobDir path \<in> set (fs_dirs (sv_fs s))
          then andThen (setBlob path []) (\<lambda>_. ret []) s
          else (Inl (Other ''service: open blob''), s))"

definition openBlob :: "string \<Rightarrow> bytes act" where
  "openBlob path s =
     (case map_of (fs_files (sv_fs s)) path of
        Some b \<Rightarrow> (Inr b, s) | None \<Rightarrow> (Inl (Other ''service: open blob''), s))"

definition RemoveAll :: "string \<Rightarrow> unit act" where
  "RemoveAll dir s =
     (if dir \<in> set (fs_denied (sv_fs s)) then (Inl (Other ''service: remove blobs''), s)
      else (Inr (), s\<lparr>sv_fs := (sv_fs s)\<lparr>
             fs_files := filter (\<lambda>(p, b). \<not> HasPrefix p (dir @ ''/'')) (fs_files (sv_fs s)),
             fs_dirs := filter (\<lambda>d. d \<noteq> dir) (fs_dirs (sv_fs s))\<rparr>\<rparr>))"

text \<open>\<open>f.Truncate(n)\<close>, which pads a shorter file with zero bytes.\<close>

definition Truncate :: "int \<Rightarrow> bytes \<Rightarrow> bytes" where
  "Truncate n b = take (nat n) b @ replicate (nat n - length b) 0"

end
