(* ===== verification/Service_Upload.thy ===== *)
theory Service_Upload
  imports Service_State
begin

text \<open>
  Starting, feeding and finishing an upload: src/internal/service/service.go and upload.go.
  \<open>K\<close> is the key derivation and \<open>ip\<close> the size interpolation of the configuration.
\<close>

subsection \<open>A service over a database\<close>

text \<open>\<open>New\<close>: the blob root is the empty relative path; the two tables start empty.\<close>

definition New :: "store \<Rightarrow> Config \<Rightarrow> blobfs \<Rightarrow> tape \<Rightarrow> time \<Rightarrow> service res" where
  "New st cfg fs rnd now =
     (case Validate cfg of
        Some e \<Rightarrow> Inl e
      | None \<Rightarrow>
          if [] \<in> set (fs_denied fs) then Inl (Other ''service: create blob root'')
          else Inr \<lparr>sv_st = st, sv_cfg = cfg, sv_down = [], sv_tickets = [], sv_fs = fs,
                    sv_rand = rnd, sv_now = now\<rparr>)"

subsection \<open>Starting an upload\<close>

record FileRequest =
  q_Name :: string
  q_Size :: int

record StartRequest =
  sr_Files :: "FileRequest list"
  sr_Days :: int
  sr_MaxDownloads :: int
  sr_Password :: string
  sr_AllowDelete :: bool
  sr_Kind :: string
  sr_Manage :: bool
  sr_UploaderHash :: bytes
  sr_UploaderIP :: string

record StartedFile =
  sf_ID :: int
  sf_Name :: string
  sf_Size :: int

record StartResult =
  x_Key :: string
  x_Password :: string
  x_SessionID :: string
  x_Token :: string
  x_PartSize :: int
  x_ExpiresAt :: time
  x_Files :: "StartedFile list"
  x_ManageToken :: string

fun total_size :: "int \<Rightarrow> FileRequest list \<Rightarrow> int res" where
  "total_size acc [] = Inr acc"
| "total_size acc (f # fs) =
     (if q_Name f = [] then Inl ErrInvalid
      else if q_Size f < 0 then Inl ErrInvalid
      else total_size (i64 (acc + q_Size f)) fs)"

definition validateStart :: "interp \<Rightarrow> StartRequest \<Rightarrow> unit act" where
  "validateStart ip req =
     andThen config (\<lambda>cfg.
     if length (sr_Files req) = 0 then fail ErrInvalid
     else if int (length (sr_Files req)) > MaxFiles cfg then fail ErrTooLarge
     else if sr_Kind req = ''text'' \<and> length (sr_Files req) \<noteq> 1 then fail ErrInvalid
     else if sr_Days req < 1 \<or> sr_Days req > MaxDays cfg then fail ErrInvalid
     else if sr_MaxDownloads req < 1 \<or> sr_MaxDownloads req > MaxDownloads cfg then fail ErrInvalid
     else
       andThen (lift_res (total_size 0 (sr_Files req))) (\<lambda>tot.
       if tot > MaxUploadBytes ip cfg (sr_Days req) (sr_MaxDownloads req) then fail ErrTooLarge
       else if DiskQuotaBytes cfg > 0 then
         andThen clock (\<lambda>now.
         andThen (query (Stats now)) (\<lambda>st.
         if i64 (st_Bytes st + tot) > DiskQuotaBytes cfg then fail ErrStorageFull else ret ()))
       else ret ()))"

text \<open>The eight attempts of \<open>uniqueKey\<close>.\<close>

fun uniqueKey_loop :: "nat \<Rightarrow> string act" where
  "uniqueKey_loop 0 = fail (Other ''service: could not find an unused share key'')"
| "uniqueKey_loop (Suc n) =
     andThen (draw NewDropKey) (\<lambda>key s.
       case DropByKey key (sv_st s) of
         Inl e \<Rightarrow> if e = StoreNotFound then ret key s else fail e s
       | Inr d \<Rightarrow> uniqueKey_loop n s)"

definition uniqueKey :: "string act" where "uniqueKey = uniqueKey_loop 8"

text \<open>\<open>cryptobox.NewWriter\<close> with its nonce prefix drawn from the random source.\<close>

definition newWriter :: "sink \<Rightarrow> bytes \<Rightarrow> writer act" where
  "newWriter dst key =
     (case newGCM key of
        Inl e \<Rightarrow> fail e
      | Inr k \<Rightarrow>
          andThen (draw (rand_Read noncePrefixSize)) (\<lambda>prefix. lift_res (NewWriter dst key prefix)))"

definition writeEmptyBlob :: "string \<Rightarrow> bytes \<Rightarrow> unit act" where
  "writeEmptyBlob rel dek =
     andThen (openCreate rel) (\<lambda>_.
     andThen (setBlob rel []) (\<lambda>_.
     andThen (newWriter \<lparr>sink_data = [], sink_room = None\<rparr> dek) (\<lambda>w.
       case CloseWriter w of
         (w', Some e) \<Rightarrow> andThen (setBlob rel (sink_data (w_dst w'))) (\<lambda>_. fail e)
       | (w', None) \<Rightarrow> setBlob rel (sink_data (w_dst w')))))"

definition startFile :: "string \<Rightarrow> bytes \<Rightarrow> int \<Rightarrow> int \<Rightarrow> FileRequest \<Rightarrow> StartedFile act" where
  "startFile key dek dropID i fr =
     andThen (draw (Seal dek (bytes_of (q_Name fr)))) (\<lambda>nameEnc.
     andThen (db (AddFile \<lparr>f_ID = 0, f_DropID = dropID, f_Ordinal = i, f_NameEnc = nameEnc,
                          f_Size = q_Size fr, f_Received = 0, f_BlobPath = []\<rparr>)) (\<lambda>rec.
     andThen (lift_res (blobRel key (f_ID rec))) (\<lambda>rel.
     andThen (db_upd (SetBlobPath (f_ID rec) rel)) (\<lambda>_.
     andThen (MkdirAll (blobDir rel)) (\<lambda>_.
     andThen (if q_Size fr = 0 then writeEmptyBlob rel dek else ret ()) (\<lambda>_.
     ret \<lparr>sf_ID = f_ID rec, sf_Name = q_Name fr, sf_Size = q_Size fr\<rparr>))))))"

fun startFiles :: "string \<Rightarrow> bytes \<Rightarrow> int \<Rightarrow> int \<Rightarrow> FileRequest list \<Rightarrow> StartedFile list act" where
  "startFiles key dek dropID i [] = ret []"
| "startFiles key dek dropID i (fr # frs) =
     andThen (startFile key dek dropID i fr) (\<lambda>f.
     andThen (startFiles key dek dropID (i + 1) frs) (\<lambda>fs. ret (f # fs)))"

definition manageSecret :: "bool \<Rightarrow> (string \<times> bytes) act" where
  "manageSecret want =
     (if want then andThen (draw NewManageToken) (\<lambda>tok. ret (tok, ManageTokenHash tok))
      else ret ([], []))"

text \<open>The record that \<open>StartUpload\<close> creates; the store fills in its identifier and status.\<close>

definition draft_drop :: "StartRequest \<Rightarrow> string \<Rightarrow> bytes \<Rightarrow> bytes \<Rightarrow> time \<Rightarrow> Drop" where
  "draft_drop req key wrapped manageHash now =
     \<lparr>d_ID = 0, d_Key = key, d_WrappedDEK = wrapped, d_CreatedAt = now,
      d_ExpiresAt = AddDays now (sr_Days req), d_MaxDownloads = sr_MaxDownloads req,
      d_Downloads = 0, d_TotalBytes = 0, d_Status = [], d_DeleteAllowed = sr_AllowDelete req,
      d_Kind = (if sr_Kind req = [] then ''file'' else sr_Kind req),
      d_ManageHash = manageHash, d_BlockedAt = zeroTime\<rparr>"

definition StartUpload :: "kdf \<Rightarrow> interp \<Rightarrow> StartRequest \<Rightarrow> StartResult act" where
  "StartUpload K ip req =
     andThen (validateStart ip req) (\<lambda>_.
     andThen (if sr_Password req = [] then draw NewPassword else ret (sr_Password req)) (\<lambda>password.
     andThen (draw NewKey) (\<lambda>dek.
     andThen (draw (WrapKey K dek password)) (\<lambda>wrapped.
     andThen uniqueKey (\<lambda>key.
     andThen (manageSecret (sr_Manage req)) (\<lambda>(manageToken, manageHash).
     andThen clock (\<lambda>now.
     andThen config (\<lambda>cfg.
     andThen (db (CreateDrop (draft_drop req key wrapped manageHash now)
        (sr_UploaderHash req) (sr_UploaderIP req))) (\<lambda>drop.
     andThen (startFiles key dek (d_ID drop) 0 (sr_Files req)) (\<lambda>files.
     andThen (draw NewToken) (\<lambda>token.
     andThen (draw (WrapKeyWithToken K dek token ''upload'')) (\<lambda>sessionWrapped.
     andThen (draw NewToken) (\<lambda>sessionID.
     let expires = now + UploadTTL cfg in
     andThen (db_err (CreateUploadSession
        \<lparr>u_ID = sessionID, u_DropID = d_ID drop, u_Wrapped = sessionWrapped, u_ExpiresAt = expires\<rparr>
        now)) (\<lambda>_.
     ret \<lparr>x_Key = key, x_Password = password, x_SessionID = sessionID, x_Token = token,
          x_PartSize = PartSize cfg, x_ExpiresAt = expires, x_Files = files,
          x_ManageToken = manageToken\<rparr>))))))))))))))"

subsection \<open>Upload sessions\<close>

record FileProgress =
  g_ID :: int
  g_Size :: int
  g_Received :: int

record UploadStateRec =
  us_Key :: string
  us_PartSize :: int
  us_Files :: "FileProgress list"

definition resolveSession :: "kdf \<Rightarrow> string \<Rightarrow> string \<Rightarrow> (UploadSession \<times> bytes) act" where
  "resolveSession K sessionID token =
     andThen clock (\<lambda>now.
     andThen (notFound (query (UploadSessionByID sessionID now))) (\<lambda>sess.
       case UnwrapKeyWithToken K (u_Wrapped sess) token ''upload'' of
         Inl e \<Rightarrow> fail ErrNotFound
       | Inr dek \<Rightarrow> ret (sess, dek)))"

definition UploadState :: "kdf \<Rightarrow> string \<Rightarrow> string \<Rightarrow> UploadStateRec act" where
  "UploadState K sessionID token =
     andThen (resolveSession K sessionID token) (\<lambda>(sess, _).
     andThen (query (DropByID (u_DropID sess))) (\<lambda>drop.
     andThen (query (\<lambda>st. Inr (Files (u_DropID sess) st))) (\<lambda>files.
     andThen config (\<lambda>cfg.
     ret \<lparr>us_Key = d_Key drop, us_PartSize = PartSize cfg,
          us_Files = map (\<lambda>f. \<lparr>g_ID = f_ID f, g_Size = f_Size f, g_Received = f_Received f\<rparr>) files\<rparr>))))"

definition headerLen :: int where "headerLen = 12"

definition ciphertextLenFor :: "int \<Rightarrow> int" where
  "ciphertextLenFor n =
     i64 (headerLen + i64 ((n sdiv int ChunkSize) * int (ChunkSize + TagSize)))"

text \<open>
  \<open>room\<close> is how many bytes the disk still takes during this call (\<open>None\<close>: no limit).
\<close>

definition writerAt :: "string \<Rightarrow> bytes \<Rightarrow> bytes \<Rightarrow> int \<Rightarrow> nat option \<Rightarrow> writer act" where
  "writerAt path content dek offset room =
     (if offset = 0 then
        andThen (setBlob path []) (\<lambda>_. newWriter \<lparr>sink_data = [], sink_room = room\<rparr> dek)
      else
        let aligned = AlignDown (int (length content));
            content' = (if aligned \<noteq> int (length content) then Truncate aligned content else content)
        in andThen (setBlob path content') (\<lambda>_.
             case InspectPartial (file_source content') aligned of
               Inl e \<Rightarrow> fail e
             | Inr st \<Rightarrow>
                 if PlaintextLen st \<noteq> offset then fail (OffsetMismatch 0 (PlaintextLen st) offset)
                 else lift_res (NewResumeWriter \<lparr>sink_data = content', sink_room = room\<rparr> dek st)))"

definition sealPart :: "string \<Rightarrow> int \<Rightarrow> int \<Rightarrow> writer \<Rightarrow> int \<Rightarrow> int \<Rightarrow> int act" where
  "sealPart path offset fileSize w fileID newLen =
     (let store_received =
            andThen (db_upd (SetReceived fileID newLen)) (\<lambda>_. ret newLen)
      in if newLen \<ge> fileSize then
           (case CloseWriter w of
              (w', Some e) \<Rightarrow> andThen (setBlob path (sink_data (w_dst w'))) (\<lambda>_. fail e)
            | (w', None) \<Rightarrow> andThen (setBlob path (sink_data (w_dst w'))) (\<lambda>_. store_received))
         else
           (case FlushFull w of
              (w', Some e) \<Rightarrow>
                andThen (setBlob path (Truncate (ciphertextLenFor offset) (sink_data (w_dst w'))))
                  (\<lambda>_. fail ErrInvalid)
            | (w', None) \<Rightarrow> andThen (setBlob path (sink_data (w_dst w'))) (\<lambda>_. store_received)))"

text \<open>
  The request body arrives in \<open>pieces\<close> and then ends, with a transport error if \<open>bodyFail\<close>.
\<close>

definition WriteParts ::
  "kdf \<Rightarrow> string \<Rightarrow> string \<Rightarrow> int \<Rightarrow> int \<Rightarrow> bytes list \<Rightarrow> bool \<Rightarrow> nat option \<Rightarrow> int act" where
  "WriteParts K sessionID token fileID offset pieces bodyFail room =
     andThen (resolveSession K sessionID token) (\<lambda>(sess, dek).
     andThen (notFound (query (FileByID (u_DropID sess) fileID))) (\<lambda>file.
     if f_Received file \<ge> f_Size file then ret (f_Received file)
     else if offset \<noteq> f_Received file then fail (OffsetMismatch fileID (f_Received file) offset)
     else
       let path = f_BlobPath file in
       andThen (openCreate path) (\<lambda>content.
       andThen (writerAt path content dek offset room) (\<lambda>w.
         let remaining = i64 (f_Size file - offset) in
         case CopyBody w pieces bodyFail (nat remaining) 0 of
           (w1, n, Some e) \<Rightarrow> andThen (setBlob path (sink_data (w_dst w1))) (\<lambda>_. fail e)
         | (w1, n, None) \<Rightarrow> sealPart path offset (f_Size file) w1 fileID (i64 (offset + int n))))))"

definition DeleteDropAct :: "Drop \<Rightarrow> unit act" where
  "DeleteDropAct d =
     andThen (\<lambda>s. (Inr (), s\<lparr>sv_down := deleteByDrop (d_ID d) (sv_down s)\<rparr>)) (\<lambda>_.
     andThen (lift_res (dropDir (d_Key d))) (\<lambda>dir.
     andThen (RemoveAll dir) (\<lambda>_.
     db_upd (DeleteDrop (d_ID d)))))"

definition FinishUpload :: "kdf \<Rightarrow> string \<Rightarrow> string \<Rightarrow> Drop act" where
  "FinishUpload K sessionID token =
     andThen (resolveSession K sessionID token) (\<lambda>(sess, _).
     andThen (\<lambda>s. case db_err (Finalize (u_DropID sess)) s of
                     (Inl e, s') \<Rightarrow> (Inl ErrInvalid, s') | (Inr x, s') \<Rightarrow> (Inr x, s')) (\<lambda>_.
     andThen (query (DropByID (u_DropID sess))) (\<lambda>drop.
     andThen clock (\<lambda>now.
     andThen (db_upd (BumpUsage (DayKey now) 1 0 (d_TotalBytes drop))) (\<lambda>_.
     ret drop)))))"

definition CancelUpload :: "kdf \<Rightarrow> string \<Rightarrow> string \<Rightarrow> unit act" where
  "CancelUpload K sessionID token =
     andThen (resolveSession K sessionID token) (\<lambda>(sess, _).
     andThen (query (DropByID (u_DropID sess))) (\<lambda>drop.
     if d_Status drop \<noteq> StatusPending then fail ErrNotFound
     else DeleteDropAct drop))"

end
