(* ===== verification/Service_Download.thy ===== *)
theory Service_Download
  imports Service_Upload
begin

text \<open>
  Downloading, archives, management, reports and expiry: download.go, ticket.go, zip.go,
  manage.go, report.go and sweep.go of src/internal/service.
\<close>

subsection \<open>Unlocking a share\<close>

record DropInfo =
  i_Key :: string
  i_ExpiresAt :: time
  i_Remaining :: int
  i_FileCount :: int
  i_TotalSize :: int
  i_DeleteAllowed :: bool
  i_Kind :: string

record UnlockedFile =
  uf_ID :: int
  uf_Name :: string
  uf_Size :: int

record Unlocked =
  un_Token :: string
  un_ExpiresAt :: time
  un_Files :: "UnlockedFile list"
  un_DeleteAllowed :: bool

definition Peek :: "string \<Rightarrow> DropInfo act" where
  "Peek key =
     andThen clock (\<lambda>now.
     andThen (notFound (query (LiveDropByKey key now))) (\<lambda>drop.
     andThen (query (\<lambda>st. Inr (Files (d_ID drop) st))) (\<lambda>files.
     ret \<lparr>i_Key = d_Key drop, i_ExpiresAt = d_ExpiresAt drop,
          i_Remaining = d_MaxDownloads drop - d_Downloads drop, i_FileCount = int (length files),
          i_TotalSize = d_TotalBytes drop, i_DeleteAllowed = d_DeleteAllowed drop,
          i_Kind = d_Kind drop\<rparr>)))"

text \<open>The loop that decrypts the file names.\<close>

fun openNames :: "bytes \<Rightarrow> File list \<Rightarrow> UnlockedFile list res" where
  "openNames dek [] = Inr []"
| "openNames dek (f # fs) =
     (case Open dek (f_NameEnc f) of
        Inl e \<Rightarrow> Inl e
      | Inr name \<Rightarrow>
          case openNames dek fs of
            Inl e \<Rightarrow> Inl e
          | Inr us \<Rightarrow> Inr (\<lparr>uf_ID = f_ID f, uf_Name = string_of name, uf_Size = f_Size f\<rparr> # us))"

definition Unlock :: "kdf \<Rightarrow> string \<Rightarrow> string \<Rightarrow> Unlocked act" where
  "Unlock K key password =
     andThen clock (\<lambda>now.
     andThen (notFound (query (LiveDropByKey key now))) (\<lambda>drop.
       case UnwrapKey K (d_WrappedDEK drop) password of
         Inl e \<Rightarrow> fail (if e = CryptoWrongPassword then ErrWrongPassword else e)
       | Inr dek \<Rightarrow>
           andThen (query (\<lambda>st. openNames dek (Files (d_ID drop) st))) (\<lambda>files.
           andThen (draw NewToken) (\<lambda>token.
           andThen config (\<lambda>cfg.
           let expires = now + DownloadTTL cfg in
           andThen (\<lambda>s. (Inr (), s\<lparr>sv_down := put token
               \<lparr>ss_dropKey = d_Key drop, ss_dropID = d_ID drop, ss_dek = dek,
                ss_expiresAt = expires, ss_claimed = False\<rparr> (sv_down s)\<rparr>)) (\<lambda>_.
           ret \<lparr>un_Token = token, un_ExpiresAt = expires, un_Files = files,
                un_DeleteAllowed = d_DeleteAllowed drop\<rparr>))))))"

definition Lock :: "string \<Rightarrow> service \<Rightarrow> service" where
  "Lock token s = s\<lparr>sv_down := deleteSession token (sv_down s)\<rparr>"

text \<open>\<open>s.down.get(token, s.now())\<close>, with \<open>ErrNotFound\<close> when there is no live session.\<close>

definition getSession :: "string \<Rightarrow> downloadSession act" where
  "getSession token s =
     (case get token (sv_now s) (sv_down s) of
        (None, t) \<Rightarrow> (Inl ErrNotFound, s\<lparr>sv_down := t\<rparr>)
      | (Some x, t) \<Rightarrow> (Inr x, s\<lparr>sv_down := t\<rparr>))"

definition SessionFiles :: "string \<Rightarrow> Unlocked act" where
  "SessionFiles token =
     andThen (getSession token) (\<lambda>sess.
     andThen (query (\<lambda>st. openNames (ss_dek sess) (Files (ss_dropID sess) st))) (\<lambda>files.
     ret \<lparr>un_Token = token, un_ExpiresAt = ss_expiresAt sess, un_Files = files,
          un_DeleteAllowed = False\<rparr>))"

subsection \<open>Opening a file\<close>

text \<open>What \<open>OpenFile\<close> hands back: the empty reader at the end of the file, or a decrypting one.\<close>

datatype opened = EmptyReader | FileReader reader

definition readAll :: "opened \<Rightarrow> bytes \<times> err option" where
  "readAll r = (case r of EmptyReader \<Rightarrow> ([], None) | FileReader x \<Rightarrow> CopyAll x)"

text \<open>The claim a session makes on its first file.\<close>

definition claimDownload :: "string \<Rightarrow> time \<Rightarrow> store \<Rightarrow> err option \<times> store" where
  "claimDownload key now st =
     (case ClaimDownload key now st of
        (Inl e, st') \<Rightarrow> (Some (if e = StoreNotFound then ErrNotFound else e), st')
      | (Inr d, st') \<Rightarrow> (None, BumpUsage (DayKey now) 0 1 0 st'))"

definition claimSession :: "string \<Rightarrow> downloadSession \<Rightarrow> unit act" where
  "claimSession token sess s =
     (case claimOnce token sess (claimDownload (ss_dropKey sess) (sv_now s)) (sv_down s, sv_st s) of
        (None, t, st) \<Rightarrow> (Inr (), s\<lparr>sv_down := t, sv_st := st\<rparr>)
      | (Some e, t, st) \<Rightarrow> (Inl e, s\<lparr>sv_down := t, sv_st := st\<rparr>))"

definition OpenFile :: "string \<Rightarrow> int \<Rightarrow> int \<Rightarrow> (opened \<times> UnlockedFile) act" where
  "OpenFile token fileID offset =
     andThen (getSession token) (\<lambda>sess.
     andThen (claimSession token sess) (\<lambda>_.
     andThen (notFound (query (FileByID (ss_dropID sess) fileID))) (\<lambda>file.
     if offset < 0 \<or> offset > f_Size file then fail ErrInvalid
     else
       andThen (lift_res (Open (ss_dek sess) (f_NameEnc file))) (\<lambda>name.
       andThen (openBlob (f_BlobPath file)) (\<lambda>content.
       let uf = \<lparr>uf_ID = f_ID file, uf_Name = string_of name, uf_Size = f_Size file\<rparr> in
       if offset = f_Size file then ret (EmptyReader, uf)
       else
         andThen (lift_res (OpenAt (file_source content) (ss_dek sess) offset)) (\<lambda>r.
         ret (FileReader r, uf)))))))"

definition StatsAct :: "StatsRec act" where
  "StatsAct = andThen clock (\<lambda>now. query (Stats now))"

definition DeleteBySession :: "string \<Rightarrow> unit act" where
  "DeleteBySession token =
     andThen (getSession token) (\<lambda>sess.
     andThen (notFound (query (DropByID (ss_dropID sess)))) (\<lambda>drop.
     if \<not> d_DeleteAllowed drop then fail ErrNotFound
     else DeleteDropAct drop))"

subsection \<open>Tickets\<close>

definition IssueTicket :: "string \<Rightarrow> int \<Rightarrow> (string \<times> time) act" where
  "IssueTicket sessionToken fileID =
     andThen (getSession sessionToken) (\<lambda>sess s.
     if fileID \<noteq> ZipTicket \<and> FileByID (ss_dropID sess) fileID (sv_st s) = Inl StoreNotFound
     then fail ErrNotFound s
     else
       andThen (draw NewToken) (\<lambda>i.
       andThen clock (\<lambda>now.
       let expires = now + ticketTTL in
       andThen (\<lambda>s. (Inr (), s\<lparr>sv_tickets := tab_put i
          \<lparr>tk_sessionToken = sessionToken, tk_fileID = fileID, tk_expiresAt = expires\<rparr>
          (sv_tickets s)\<rparr>)) (\<lambda>_.
       ret (i, expires)))) s)"

definition redeem :: "string \<Rightarrow> (string \<times> int) act" where
  "redeem i s =
     (case lookupTicket i (sv_now s) (sv_tickets s) of
        (None, t) \<Rightarrow> (Inl ErrNotFound, s\<lparr>sv_tickets := t\<rparr>)
      | (Some tk, t) \<Rightarrow> (Inr (tk_sessionToken tk, tk_fileID tk), s\<lparr>sv_tickets := t\<rparr>))"

definition OpenTicket :: "string \<Rightarrow> int \<Rightarrow> (opened \<times> UnlockedFile) act" where
  "OpenTicket ticketID offset =
     andThen (redeem ticketID) (\<lambda>(token, fileID).
     if fileID = ZipTicket then fail ErrInvalid else OpenFile token fileID offset)"

definition TicketSession :: "string \<Rightarrow> (string \<times> int) act" where
  "TicketSession ticketID = redeem ticketID"

definition StatTicket :: "string \<Rightarrow> UnlockedFile act" where
  "StatTicket ticketID =
     andThen (redeem ticketID) (\<lambda>(token, fileID).
     if fileID = ZipTicket then fail ErrInvalid
     else
       andThen (getSession token) (\<lambda>sess.
       andThen (notFound (query (FileByID (ss_dropID sess) fileID))) (\<lambda>file.
       andThen (lift_res (Open (ss_dek sess) (f_NameEnc file))) (\<lambda>name.
       ret \<lparr>uf_ID = f_ID file, uf_Name = string_of name, uf_Size = f_Size file\<rparr>))))"

subsection \<open>Archives\<close>

definition safe_char :: "char \<Rightarrow> char option" where
  "safe_char c =
     (if (of_char c :: nat) < 32 \<or> (of_char c :: nat) = 127 then None
      else if c \<in> set ''<>:\"|?*'' then Some (CHR ''_'')
      else Some c)"

definition SafeFileName :: "string \<Rightarrow> string" where
  "SafeFileName name0 =
     (let name1 = path_Base (ReplaceByte (CHR 0x5C) (CHR ''/'') name0);
          name = Trim (MapASCII safe_char name1) '' .''
      in if name = [] \<or> name = ''.'' \<or> name = ''..'' then ''file''
         else if length name > 200 then
           (let ext = (if length (path_Ext name) > 20 then [] else path_Ext name)
            in take (200 - length ext) name @ ext)
         else name)"

definition uniqueEntryName :: "nat table \<Rightarrow> string \<Rightarrow> string \<times> nat table" where
  "uniqueEntryName used name =
     (case map_of used name of
        None \<Rightarrow> (name, tab_put name 1 used)
      | Some n \<Rightarrow>
          let ext = path_Ext name in
          (TrimSuffix name ext @ '' ('' @ FormatInt (int (n + 1)) @ '')'' @ ext,
           tab_put name (n + 1) used))"

text \<open>
  The archive is the list of its entries, names with the bytes stored under them, and the
  error that cut it short.
\<close>

fun archiveFiles ::
  "string \<Rightarrow> nat table \<Rightarrow> UnlockedFile list \<Rightarrow> service \<Rightarrow> ((string \<times> bytes) list \<times> err option) \<times> service" where
  "archiveFiles token used [] s = (([], None), s)"
| "archiveFiles token used (f # fs) s =
     (case uniqueEntryName used (SafeFileName (uf_Name f)) of (name, used') \<Rightarrow>
        case OpenFile token (uf_ID f) 0 s of
          (Inl e, s') \<Rightarrow> (([(name, [])], Some e), s')
        | (Inr (r, _), s') \<Rightarrow>
            case readAll r of
              (b, Some e) \<Rightarrow> (([(name, b)], Some e), s')
            | (b, None) \<Rightarrow>
                case archiveFiles token used' fs s' of
                  ((es, e), s'') \<Rightarrow> (((name, b) # es, e), s''))"

definition WriteArchive :: "string \<Rightarrow> service \<Rightarrow> ((string \<times> bytes) list \<times> err option) \<times> service" where
  "WriteArchive ticketID s =
     (case redeem ticketID s of
        (Inl e, s1) \<Rightarrow> (([], Some e), s1)
      | (Inr (token, fileID), s1) \<Rightarrow>
          if fileID \<noteq> ZipTicket then (([], Some ErrInvalid), s1)
          else case SessionFiles token s1 of
            (Inl e, s2) \<Rightarrow> (([], Some e), s2)
          | (Inr un, s2) \<Rightarrow> archiveFiles token [] (un_Files un) s2)"

subsection \<open>Management links\<close>

record ManageView =
  m_Key :: string
  m_Kind :: string
  m_CreatedAt :: time
  m_ExpiresAt :: time
  m_MaxDownloads :: int
  m_Downloads :: int
  m_Remaining :: int
  m_TotalSize :: int
  m_FileCount :: int
  m_Status :: string
  m_Blocked :: bool
  m_Expired :: bool
  m_Exhausted :: bool

definition resolveManage :: "string \<Rightarrow> Drop act" where
  "resolveManage token =
     (if token = [] then fail ErrNotFound
      else notFound (query (DropByManageHash (ManageTokenHash token))))"

definition ManageStatus :: "string \<Rightarrow> ManageView act" where
  "ManageStatus token =
     andThen (resolveManage token) (\<lambda>drop.
     andThen (query (\<lambda>st. Inr (Files (d_ID drop) st))) (\<lambda>files.
     andThen clock (\<lambda>now.
     ret \<lparr>m_Key = d_Key drop, m_Kind = d_Kind drop, m_CreatedAt = d_CreatedAt drop,
          m_ExpiresAt = d_ExpiresAt drop, m_MaxDownloads = d_MaxDownloads drop,
          m_Downloads = d_Downloads drop,
          m_Remaining = max (d_MaxDownloads drop - d_Downloads drop) 0,
          m_TotalSize = d_TotalBytes drop, m_FileCount = int (length files),
          m_Status = d_Status drop, m_Blocked = Blocked drop,
          m_Expired = (\<not> After (d_ExpiresAt drop) now),
          m_Exhausted = (d_Downloads drop \<ge> d_MaxDownloads drop)\<rparr>)))"

definition ManageDelete :: "string \<Rightarrow> unit act" where
  "ManageDelete token = andThen (resolveManage token) DeleteDropAct"

subsection \<open>Reports\<close>

definition key_char :: "char \<Rightarrow> bool" where
  "key_char c \<longleftrightarrow>
     c \<in> set ''abcdefghijklmnopqrstuvwxyzABCDEFGHIJKLMNOPQRSTUVWXYZ0123456789''"

definition keyFromInput :: "string \<Rightarrow> string" where
  "keyFromInput input =
     (let s1 = TrimSpace input;
          s2 = takeWhile (\<lambda>c. c \<noteq> CHR ''#'' \<and> c \<noteq> CHR ''?'') s1;
          s3 = after_last (CHR ''/'') (TrimRight s2 ''/'');
          s4 = filter key_char s3
      in take 64 s4)"

definition ReportAct :: "string \<Rightarrow> string \<Rightarrow> string \<Rightarrow> string \<Rightarrow> unit act" where
  "ReportAct keyOrURL reason reporter reporterIP =
     (let key = keyFromInput keyOrURL in
      if key = [] then fail ErrInvalid
      else
        andThen clock (\<lambda>now.
        let rep = \<lparr>rp_DropID = None, rp_DropKey = key, rp_Reason = reason, rp_Reporter = reporter,
                   rp_ReporterIP = reporterIP, rp_CreatedAt = now, rp_Status = ''open''\<rparr> in
        (\<lambda>s. case DropByKey key (sv_st s) of
           Inr d \<Rightarrow>
             andThen (db_upd (BlockDrop (d_ID d) now)) (\<lambda>_.
             andThen (\<lambda>s. (Inr (), s\<lparr>sv_down := deleteByDrop (d_ID d) (sv_down s)\<rparr>)) (\<lambda>_.
             db_err (CreateReport (rep\<lparr>rp_DropID := Some (d_ID d)\<rparr>)))) s
         | Inl e \<Rightarrow> if e \<noteq> StoreNotFound then fail e s else db_err (CreateReport rep) s)))"

subsection \<open>Expiry\<close>

record SweepResult =
  z_DropsDeleted :: nat
  z_SessionsExpired :: nat
  z_TicketsExpired :: nat
  z_Errors :: nat

fun sweepDrops :: "Drop list \<Rightarrow> service \<Rightarrow> nat \<times> nat \<times> service" where
  "sweepDrops [] s = (0, 0, s)"
| "sweepDrops (d # ds) s =
     (case DeleteDropAct d s of
        (Inl e, s') \<Rightarrow> (case sweepDrops ds s' of (n, k, s'') \<Rightarrow> (n, Suc k, s''))
      | (Inr _, s') \<Rightarrow> (case sweepDrops ds s' of (n, k, s'') \<Rightarrow> (Suc n, k, s'')))"

definition Sweep :: "service \<Rightarrow> SweepResult \<times> service" where
  "Sweep s =
     (let now = sv_now s;
          (a, down) = sweepSessions now (sv_down s);
          (b, tks) = sweepTickets now (sv_tickets s);
          s1 = s\<lparr>sv_down := down, sv_tickets := tks\<rparr>;
          (n, k, s2) = sweepDrops (Reapable now (now - UploadTTL (sv_cfg s)) (sv_st s1)) s1
      in (\<lparr>z_DropsDeleted = n, z_SessionsExpired = a, z_TicketsExpired = b, z_Errors = k\<rparr>, s2))"

end
