(* ===== verification/Http_Server.thy ===== *)
theory Http_Server
  imports Http_Limits I18n Service_Download
begin

text \<open>
  The transport: requests and responses, the state of the \<open>Server\<close> struct, languages in
  paths, security headers and error statuses (src/internal/httpd/server.go), the page model
  (src/internal/httpd/pages.go) and the optional hooks (legacy_runtime.go, legacy_off.go,
  admin_stub.go).

  A handler takes the response under construction (Go's \<open>http.ResponseWriter\<close>) and the
  server and returns both.  Templates are not executed: a rendered page is its template name
  with its model.  A JSON response is its value, whose text is \<open>EncodeJSON\<close>.  The text of messages
  is given by its UTF-8 bytes.
\<close>

subsection \<open>Requests and responses\<close>

text \<open>
  \<open>rq_path\<close> is \<open>r.URL.Path\<close> (decoded), \<open>rq_value\<close> is \<open>r.PathValue\<close>, \<open>rq_query\<close> is
  \<open>r.URL.Query().Get\<close>, \<open>rq_lang\<close> the context value the middleware sets.  The body arrives in
  pieces and may end with a transport error.
\<close>

record request =
  rq_method :: string
  rq_path :: string
  rq_remote :: string
  rq_header :: header
  rq_query :: "string \<Rightarrow> string"
  rq_cookie :: "string \<Rightarrow> string option"
  rq_value :: "string \<Rightarrow> string"
  rq_body :: "bytes list"
  rq_bodyFail :: bool
  rq_lang :: "string option"

record langLink =
  k_Code :: string
  k_Name :: string
  k_Dir :: string
  k_Rel :: string
  k_Abs :: string
  k_Current :: bool

record limitsView =
  v_MaxFiles :: int
  v_MaxTotalBytes :: int
  v_MaxTotalHuman :: string
  v_MaxDays :: int
  v_MaxDownloads :: int
  v_PartSize :: int

record statsView =
  w_Files :: int
  w_Bytes :: int
  w_BytesHuman :: string
  w_QuotaHuman :: string
  w_Percent :: int

record faqItem =
  fq_Q :: string
  fq_A :: string

record howStep =
  hw_Name :: string
  hw_Text :: string

record pageData =
  pg_Title :: string
  pg_Key :: string
  pg_Limits :: limitsView
  pg_Stats :: statsView
  pg_BaseURL :: string
  pg_Message :: string
  pg_NotFound :: bool
  pg_AdsenseClient :: string
  pg_GAID :: string
  pg_AssetV :: string
  pg_Description :: string
  pg_Canonical :: string
  pg_OGImage :: string
  pg_NoIndex :: bool
  pg_StructuredData :: string
  pg_Lang :: string
  pg_Dir :: string
  pg_CleanPath :: string
  pg_LangLinks :: "langLink list"
  pg_catalog :: Catalog
  pg_Reported :: bool
  pg_ReportError :: string
  pg_FAQ :: "faqItem list"
  pg_Steps :: "howStep list"
  pg_HasFAQ :: bool
  pg_HasGuide :: bool

record Cookie =
  ck_Name :: string
  ck_Value :: string
  ck_Path :: string
  ck_MaxAge :: int
  ck_HttpOnly :: bool
  ck_Secure :: bool
  ck_SameSiteLax :: bool

text \<open>
  \<open>RedirectTo\<close> records the URL handed to \<open>http.Redirect\<close>; \<open>Archive\<close> is a ZIP stream by its
  entries and the error that cut it short; \<open>Script\<close> is the text of a script.
\<close>

datatype rbody =
    NoBody | Raw bytes | Txt string | Json json | Page string pageData | RedirectTo string
  | Archive "(string \<times> bytes) list" "err option" | Script string

record response =
  rs_status :: int
  rs_header :: "string table"
  rs_cookies :: "Cookie list"
  rs_body :: rbody

definition SetHeader :: "string \<Rightarrow> string \<Rightarrow> response \<Rightarrow> response" where
  "SetHeader k v w = w\<lparr>rs_header := tab_put k v (rs_header w)\<rparr>"

definition DelHeader :: "string \<Rightarrow> response \<Rightarrow> response" where
  "DelHeader k w = w\<lparr>rs_header := tab_delete k (rs_header w)\<rparr>"

definition respond :: "int \<Rightarrow> rbody \<Rightarrow> response \<Rightarrow> response" where
  "respond status b w = w\<lparr>rs_status := status, rs_body := b\<rparr>"

definition Redirect :: "string \<Rightarrow> int \<Rightarrow> response \<Rightarrow> response" where
  "Redirect url status w = respond status (RedirectTo url) w"

definition httpError :: "string \<Rightarrow> int \<Rightarrow> response \<Rightarrow> response" where
  "httpError msg status w =
     respond status (Txt (msg @ [CHR 0x0A]))
       (SetHeader ''X-Content-Type-Options'' ''nosniff''
       (SetHeader ''Content-Type'' ''text/plain; charset=utf-8'' (DelHeader ''Content-Length'' w)))"

subsection \<open>The server\<close>

record Options =
  BaseURL :: string
  TrustedProxies :: "string list"
  RealIPHeader :: string
  IPHashKey :: bytes
  EnableHSTS :: bool
  AdsenseClient :: string
  AdminUser :: string
  AdminPass :: string
  ReportDir :: string
  GAMeasurementID :: string

text \<open>The hooks of a build that imports old shares; no such build is part of the repository.\<close>

record legacyRuntime =
  lg_live :: "request \<Rightarrow> string \<Rightarrow> bool"
  lg_page :: "request \<Rightarrow> string \<Rightarrow> response \<Rightarrow> response"
  lg_sweep :: "nat res"

record server =
  hs_svc :: service
  hs_legacy :: "legacyRuntime option"
  hs_opt :: Options
  hs_ip :: clientIPResolver
  hs_assetV :: string
  hs_i18n :: Catalog
  hs_adminCSRF :: string
  hs_unlock :: limiter
  hs_start :: limiter
  hs_report :: limiter
  hs_admin :: limiter

definition initLegacy :: "legacyRuntime option" where "initLegacy = None"

definition legacyLive :: "server \<Rightarrow> request \<Rightarrow> string \<Rightarrow> bool" where
  "legacyLive s r key = (case hs_legacy s of None \<Rightarrow> False | Some l \<Rightarrow> lg_live l r key)"

definition legacyPage :: "server \<Rightarrow> request \<Rightarrow> string \<Rightarrow> response \<Rightarrow> response" where
  "legacyPage s r key w = (case hs_legacy s of None \<Rightarrow> w | Some l \<Rightarrow> lg_page l r key w)"

definition SweepLegacy :: "server \<Rightarrow> nat res" where
  "SweepLegacy s = (case hs_legacy s of None \<Rightarrow> Inr 0 | Some l \<Rightarrow> lg_sweep l)"

text \<open>The hexadecimal digits of 32 random bytes.\<close>

definition randomToken :: "string rand" where
  "randomToken t = (case rand_Read 32 t of (Inl e, t') \<Rightarrow> (Inl e, t') | (Inr b, t') \<Rightarrow> (Inr (EncodeToString b), t'))"

text \<open>
  The version of the static files: the 64-bit FNV-1a hash of their paths and contents, in the
  order in which \<open>fs.WalkDir\<close> visits them (by path elements), written in base 36.
\<close>

definition fnv1a :: "64 word \<Rightarrow> bytes \<Rightarrow> 64 word" where
  "fnv1a h b = foldl (\<lambda>h x. (h XOR ucast x) * 1099511628211) h b"

definition base36_digit :: "nat \<Rightarrow> char" where
  "base36_digit d = (if d < 10 then char_of (48 + d) else char_of (87 + d))"

fun base36 :: "nat \<Rightarrow> string" where
  "base36 n = (if n < 36 then [base36_digit n] else base36 (n div 36) @ [base36_digit (n mod 36)])"

declare base36.simps [simp del]

definition assetVersion :: "assets \<Rightarrow> string" where
  "assetVersion a =
     (let static = sort_key (\<lambda>f. SplitByte (CHR ''/'') (fst f)) (filter (\<lambda>f. HasPrefix (fst f) ''static/'') a) in
      base36 (unat (foldl (\<lambda>h (p, b). fnv1a (fnv1a h (bytes_of p)) b) 14695981039346656037 static)))"

text \<open>\<open>New\<close>: \<open>assets\<close> are the embedded files, \<open>templatesOK\<close> tells whether the templates parse.\<close>

definition NewServer :: "assets \<Rightarrow> bool \<Rightarrow> service \<Rightarrow> Options \<Rightarrow> server res" where
  "NewServer assets templatesOK svc opt =
     (case newClientIPResolver (TrustedProxies opt) (RealIPHeader opt) of
        Inl e \<Rightarrow> Inl e
      | Inr ip \<Rightarrow>
          if \<not> templatesOK then Inl (Other ''httpd: parse templates'')
          else case Load assets of
            Inl e \<Rightarrow> Inl e
          | Inr cat \<Rightarrow>
              case randomToken (sv_rand svc) of
                (Inl e, t) \<Rightarrow> Inl e
              | (Inr csrf, t) \<Rightarrow>
                  Inr \<lparr>hs_svc = svc\<lparr>sv_rand := t\<rparr>, hs_legacy = initLegacy, hs_opt = opt, hs_ip = ip,
                       hs_assetV = assetVersion assets, hs_i18n = cat, hs_adminCSRF = csrf,
                       hs_unlock = newLimiter 10 Minute, hs_start = newLimiter 30 Minute,
                       hs_report = newLimiter 6 Minute, hs_admin = newLimiter 10 Minute\<rparr>)"

definition sweepLimiters :: "server \<Rightarrow> server" where
  "sweepLimiters s =
     (let now = sv_now (hs_svc s) in
      s\<lparr>hs_unlock := sweepLimiter now (hs_unlock s), hs_start := sweepLimiter now (hs_start s),
        hs_report := sweepLimiter now (hs_report s), hs_admin := sweepLimiter now (hs_admin s)\<rparr>)"

definition clientIP :: "server \<Rightarrow> request \<Rightarrow> Addr" where
  "clientIP s r = resolve (hs_ip s) (rq_remote r) (rq_header r)"

text \<open>A call of the service from a handler.\<close>

definition call :: "'a act \<Rightarrow> server \<Rightarrow> 'a res \<times> server" where
  "call m s = (case m (hs_svc s) of (v, svc) \<Rightarrow> (v, s\<lparr>hs_svc := svc\<rparr>))"

subsection \<open>Languages in paths\<close>

text \<open>The text before and after the first occurrence of a byte (\<open>IndexByte\<close> and slicing).\<close>

definition before_first :: "char \<Rightarrow> string \<Rightarrow> string" where
  "before_first c s = takeWhile (\<lambda>x. x \<noteq> c) s"

definition from_first :: "char \<Rightarrow> string \<Rightarrow> string" where
  "from_first c s = dropWhile (\<lambda>x. x \<noteq> c) s"

definition splitLangPrefix :: "string \<Rightarrow> (string \<times> string) option" where
  "splitLangPrefix path =
     (if length path < 2 \<or> hd path \<noteq> CHR ''/'' then None
      else
        let seg0 = tl path;
            rest = (if CHR ''/'' \<in> set seg0 then from_first (CHR ''/'') seg0 else ''/'');
            seg = before_first (CHR ''/'') seg0
        in if \<not> IsSupported seg then None else Some (seg, rest))"

definition lang :: "request \<Rightarrow> string" where
  "lang r = (case rq_lang r of Some v \<Rightarrow> v | None \<Rightarrow> Default)"

definition langPath :: "string \<Rightarrow> string \<Rightarrow> string" where
  "langPath l path =
     (if l = Default \<or> l = [] then path
      else if path = ''/'' then ''/'' @ l
      else ''/'' @ l @ path)"

text \<open>
  One candidate of an Accept-Language header.  \<open>scanQ\<close> is the value \<open>fmt.Sscanf(\<dots>, "%f", &q)\<close>
  stores, \<open>None\<close> when it stores none and \<open>q\<close> keeps its default.
\<close>

definition lower_byte :: "char \<Rightarrow> char" where
  "lower_byte c =
     (if 65 \<le> (of_char c :: nat) \<and> (of_char c :: nat) \<le> 90 then char_of (of_char c + 32 :: nat) else c)"

text \<open>
  \<open>strings.ToLower\<close> as far as the comparison with a language code can tell: besides the ASCII
  letters, the Kelvin sign and the dotted capital I have lower case letters in ASCII; every
  other rune stays outside ASCII.
\<close>

definition lower_rune :: "string option \<Rightarrow> string" where
  "lower_rune r =
     (case r of
        None \<Rightarrow> rune_error
      | Some cs \<Rightarrow>
          if cs = str [226, 132, 170] then ''k'' else if cs = str [196, 176] then ''i''
          else map lower_byte cs)"

definition ToLower :: "string \<Rightarrow> string" where
  "ToLower s = concat (map lower_rune (runes s))"

fun after_sub :: "string \<Rightarrow> string \<Rightarrow> string option" where
  "after_sub pat [] = (if pat = [] then Some [] else None)"
| "after_sub pat (c # cs) =
     (if HasPrefix (c # cs) pat then Some (drop (length pat) (c # cs)) else after_sub pat cs)"

definition langCandidate :: "(string \<Rightarrow> rat option) \<Rightarrow> string \<Rightarrow> (string \<times> rat) option" where
  "langCandidate scanQ part0 =
     (let part = TrimSpace part0 in
      if part = [] then None
      else
        let (code, q) =
          (if CHR '';'' \<in> set part then
             (TrimSpace (before_first (CHR '';'') part),
              case after_sub ''q='' (from_first (CHR '';'') part) of
                None \<Rightarrow> 1 | Some t \<Rightarrow> (case scanQ t of None \<Rightarrow> 1 | Some v \<Rightarrow> v))
           else (part, 1))
        in Some (ToLower (before_first (CHR ''-'') code), q))"

definition preferredLang :: "(string \<Rightarrow> rat option) \<Rightarrow> string \<Rightarrow> string" where
  "preferredLang scanQ accept =
     (let cands = sort_key (\<lambda>c. - snd c) (List.map_filter (langCandidate scanQ) (SplitByte (CHR '','') accept))
      in case find (\<lambda>c. IsSupported (fst c)) cands of Some c \<Rightarrow> fst c | None \<Rightarrow> Default)"

subsection \<open>Security headers\<close>

definition quoted :: "string \<Rightarrow> string" where
  "quoted s = [CHR 0x27] @ s @ [CHR 0x27]"

definition strictCSP :: string where
  "strictCSP = join ''; ''
     [''default-src '' @ quoted ''none'',
      ''script-src '' @ quoted ''self'',
      ''style-src '' @ quoted ''self'',
      ''img-src '' @ quoted ''self'' @ '' data: blob:'',
      ''object-src blob:'',
      ''font-src '' @ quoted ''self'',
      ''connect-src '' @ quoted ''self'',
      ''form-action '' @ quoted ''self'',
      ''frame-ancestors '' @ quoted ''none'',
      ''base-uri '' @ quoted ''none'']"

definition adsCSP :: string where
  "adsCSP = join ''; ''
     [''default-src '' @ quoted ''none'',
      join '' ''
       [''script-src'',
        quoted ''self'',
        ''https://pagead2.googlesyndication.com'',
        ''https://partner.googleadservices.com'',
        ''https://tpc.googlesyndication.com'',
        ''https://adservice.google.com'',
        ''https://*.googlesyndication.com'',
        ''https://www.googletagmanager.com''],
      ''style-src '' @ quoted ''self'' @ '' '' @ quoted ''unsafe-inline'',
      ''img-src '' @ quoted ''self'' @ '' data: blob: https:'',
      ''object-src blob:'',
      ''font-src '' @ quoted ''self'',
      join '' ''
       [''connect-src'',
        quoted ''self'',
        ''https://pagead2.googlesyndication.com'',
        ''https://*.googlesyndication.com'',
        ''https://*.google.com'',
        ''https://*.doubleclick.net'',
        ''https://www.googletagmanager.com'',
        ''https://*.google-analytics.com'',
        ''https://*.analytics.google.com''],
      join '' ''
       [''frame-src'',
        ''https://googleads.g.doubleclick.net'',
        ''https://tpc.googlesyndication.com'',
        ''https://www.google.com''],
      ''form-action '' @ quoted ''self'',
      ''frame-ancestors '' @ quoted ''none'',
      ''base-uri '' @ quoted ''none'']"

definition securityHeaders :: "Options \<Rightarrow> response \<Rightarrow> response" where
  "securityHeaders opt w =
     (let w1 = SetHeader ''Content-Security-Policy'' strictCSP w;
          w2 = SetHeader ''X-Content-Type-Options'' ''nosniff'' w1;
          w3 = SetHeader ''X-Frame-Options'' ''DENY'' w2;
          w4 = SetHeader ''Referrer-Policy'' ''no-referrer'' w3;
          w5 = SetHeader ''Permissions-Policy'' ''geolocation=(), camera=(), microphone=(), interest-cohort=()'' w4;
          w6 = SetHeader ''Cross-Origin-Opener-Policy'' ''same-origin'' w5;
          w7 = SetHeader ''Cross-Origin-Resource-Policy'' ''same-origin'' w6
      in if EnableHSTS opt then SetHeader ''Strict-Transport-Security'' ''max-age=31536000; includeSubDomains'' w7
         else w7)"

definition allowAdsCSP :: "Options \<Rightarrow> response \<Rightarrow> response" where
  "allowAdsCSP opt w =
     (if AdsenseClient opt = [] \<and> GAMeasurementID opt = [] then w
      else SetHeader ''Content-Security-Policy'' adsCSP w)"

subsection \<open>Errors\<close>

definition statusFor :: "err \<Rightarrow> int \<times> string" where
  "statusFor e =
     (if e = ErrNotFound then (404,
      str [232, 166, 139, 227, 129, 164, 227, 129, 139, 227, 130, 138, 227, 129, 190, 227,
      129, 155, 227, 130, 147, 227, 128, 130, 85, 82, 76, 227, 129, 140, 232, 170, 164, 227,
      129, 163, 227, 129, 166, 227, 129, 132, 227, 130, 139, 227, 129, 139, 227, 128, 129,
      228, 191, 157, 229, 173, 152, 230, 156, 159, 233, 150, 147, 227, 129, 190, 227, 129,
      159, 227, 129, 175, 227, 131, 128, 227, 130, 166, 227, 131, 179, 227, 131, 173, 227,
      131, 188, 227, 131, 137, 229, 155, 158, 230, 149, 176, 227, 129, 174, 228, 184, 138,
      233, 153, 144, 227, 129, 171, 233, 129, 148, 227, 129, 151, 227, 129, 166, 227, 129,
      132, 227, 129, 190, 227, 129, 153, 227, 128, 130])
      else if e = ErrWrongPassword then (401,
      str [227, 131, 145, 227, 130, 185, 227, 131, 175, 227, 131, 188, 227, 131, 137, 227,
      129, 140, 233, 129, 149, 227, 129, 132, 227, 129, 190, 227, 129, 153, 227, 128, 130])
      else if e = ErrTooLarge then (413,
      str [228, 184, 138, 233, 153, 144, 227, 130, 146, 232, 182, 133, 227, 129, 136, 227,
      129, 166, 227, 129, 132, 227, 129, 190, 227, 129, 153, 227, 128, 130])
      else if e = ErrInvalid then (400,
      str [227, 131, 170, 227, 130, 175, 227, 130, 168, 227, 130, 185, 227, 131, 136, 227,
      129, 140, 228, 184, 141, 230, 173, 163, 227, 129, 167, 227, 129, 153, 227, 128, 130])
      else (500,
      str [227, 130, 181, 227, 131, 188, 227, 131, 144, 227, 131, 188, 229, 129, 180, 227,
      129, 167, 227, 130, 168, 227, 131, 169, 227, 131, 188, 227, 129, 140, 231, 153, 186,
      231, 148, 159, 227, 129, 151, 227, 129, 190, 227, 129, 151, 227, 129, 159, 227, 128,
      130]))"

definition writeJSON :: "int \<Rightarrow> json \<Rightarrow> response \<Rightarrow> response" where
  "writeJSON status v w =
     respond status (Json v) (SetHeader ''Content-Type'' ''application/json; charset=utf-8'' w)"

definition errorJSON :: "string \<Rightarrow> json" where
  "errorJSON msg = JMap [(''error'', JStr msg)]"

definition failJSON :: "server \<Rightarrow> request \<Rightarrow> err \<Rightarrow> response \<Rightarrow> response" where
  "failJSON s r e w =
     (if e = ErrStorageFull then
        writeJSON 507 (errorJSON (T (hs_i18n s) (lang r) ''error.storage_full'')) w
      else case statusFor e of (status, msg) \<Rightarrow> writeJSON status (errorJSON msg) w)"

end
