(* ===== verification/Http_Pages.thy ===== *)
theory Http_Pages
  imports Http_Server
begin

text \<open>
  The pages: pages.go, content.go, seo.go and report.go of src/internal/httpd, and the page
  handlers of server.go and manage.go.
\<close>

subsection \<open>Formatting\<close>

text \<open>
  \<open>float64(n)\<close> of a non-negative integer (53 bits, ties to even) and the \<open>%.1f\<close> of its quotient
  by a power of two, which is exact before it is rounded to tenths.
\<close>

definition div_even :: "nat \<Rightarrow> nat \<Rightarrow> nat" where
  "div_even a b =
     (let q = a div b; r = a mod b in
      if 2 * r < b then q else if 2 * r > b then q + 1 else if even q then q else q + 1)"

fun excess_bits :: "nat \<Rightarrow> nat" where
  "excess_bits n = (if n < 2 ^ 53 then 0 else Suc (excess_bits (n div 2)))"

declare excess_bits.simps [simp del]

definition float64 :: "nat \<Rightarrow> nat" where
  "float64 n = (let k = 2 ^ excess_bits n in div_even n k * k)"

definition tenths_string :: "nat \<Rightarrow> string" where
  "tenths_string t = nat_digits (t div 10) @ ''.'' @ nat_digits (t mod 10)"

function unit_loop :: "nat \<Rightarrow> nat \<Rightarrow> nat \<Rightarrow> nat \<times> nat" where
  "unit_loop m d e = (if m \<ge> 1024 \<and> e < 4 then unit_loop (m div 1024) (d * 1024) (Suc e) else (d, e))"
  by pat_completeness auto
termination
  by (relation "measure (\<lambda>(m, d, e). 4 - e)") auto

declare unit_loop.simps [simp del]

definition humanBytes :: "int \<Rightarrow> string res" where
  "humanBytes n =
     (if n < 1024 then Inr (FormatInt n @ '' B'')
      else case unit_loop (nat n div 1024) 1024 0 of (d, e) \<Rightarrow>
        if e < length ''KMGTP''
        then Inr (tenths_string (div_even (float64 (nat n) * 10) d) @ '' '' @ [''KMGTP'' ! e] @ ''iB'')
        else Inl (Panic ''index out of range''))"

text \<open>\<open>t.UTC().Format\<close> with the two layouts the transport uses.\<close>

definition FormatDate :: "time \<Rightarrow> string" where
  "FormatDate t =
     (case civil (Unix t div 86400) of (y, m, d) \<Rightarrow>
        pad_digits 4 (nat y) @ ''-'' @ pad_digits 2 (nat m) @ ''-'' @ pad_digits 2 (nat d))"

definition FormatUTC :: "time \<Rightarrow> string" where
  "FormatUTC t =
     (let n = nat (Unix t mod 86400) in
      FormatDate t @ ''T'' @ pad_digits 2 (n div 3600) @ '':'' @ pad_digits 2 (n div 60 mod 60) @ '':'' @
      pad_digits 2 (n mod 60) @ ''Z'')"

subsection \<open>The page model\<close>

definition baseOf :: "server \<Rightarrow> string" where
  "baseOf s = TrimRight (BaseURL (hs_opt s)) ''/''"

definition shareURL :: "server \<Rightarrow> string \<Rightarrow> string" where
  "shareURL s key = TrimRight (BaseURL (hs_opt s)) ''/'' @ ''/'' @ key"

definition langLinks :: "string \<Rightarrow> string \<Rightarrow> string \<Rightarrow> langLink list" where
  "langLinks base cleanPath current =
     map (\<lambda>l. let rel = langPath (g_Code l) cleanPath in
        \<lparr>k_Code = g_Code l, k_Name = g_Name l, k_Dir = g_Dir l, k_Rel = rel, k_Abs = base @ rel,
         k_Current = (g_Code l = current)\<rparr>) Langs"

definition human :: "int \<Rightarrow> string" where
  "human n = (case humanBytes n of Inr t \<Rightarrow> t | Inl e \<Rightarrow> [])"

definition statsOf :: "server \<Rightarrow> statsView" where
  "statsOf s =
     (let cfg = sv_cfg (hs_svc s) in
      case fst (StatsAct (hs_svc s)) of
        Inl e \<Rightarrow> \<lparr>w_Files = 0, w_Bytes = 0, w_BytesHuman = [], w_QuotaHuman = [], w_Percent = 0\<rparr>
      | Inr st \<Rightarrow>
          \<lparr>w_Files = st_Files st, w_Bytes = st_Bytes st, w_BytesHuman = human (st_Bytes st),
           w_QuotaHuman = (if DiskQuotaBytes cfg > 0 then human (DiskQuotaBytes cfg) else []),
           w_Percent = (if DiskQuotaBytes cfg > 0 then i64 (st_Bytes st * 100) sdiv DiskQuotaBytes cfg else 0)\<rparr>)"

definition basePage :: "server \<Rightarrow> request \<Rightarrow> string \<Rightarrow> pageData" where
  "basePage s r titleKey =
     (let cfg = sv_cfg (hs_svc s); base = baseOf s; l = lang r; clean = rq_path r; cat = hs_i18n s in
      \<lparr>pg_Title = T cat l titleKey, pg_Key = [],
       pg_Limits = \<lparr>v_MaxFiles = MaxFiles cfg, v_MaxTotalBytes = MaxTotalBytes cfg,
         v_MaxTotalHuman = human (MaxTotalBytes cfg), v_MaxDays = MaxDays cfg,
         v_MaxDownloads = MaxDownloads cfg, v_PartSize = PartSize cfg\<rparr>,
       pg_Stats = statsOf s, pg_BaseURL = base, pg_Message = [], pg_NotFound = False,
       pg_AdsenseClient = AdsenseClient (hs_opt s), pg_GAID = [], pg_AssetV = hs_assetV s,
       pg_Description = T cat l ''meta.description'', pg_Canonical = base @ langPath l clean,
       pg_OGImage = base @ ''/static/og.png'', pg_NoIndex = False, pg_StructuredData = [],
       pg_Lang = l, pg_Dir = DirOf l, pg_CleanPath = clean, pg_LangLinks = langLinks base clean l,
       pg_catalog = cat, pg_Reported = False, pg_ReportError = [], pg_FAQ = [], pg_Steps = [],
       pg_HasFAQ = Has cat l ''faq.h1'', pg_HasGuide = Has cat l ''guide.h1''\<rparr>)"

definition pageT :: "pageData \<Rightarrow> string \<Rightarrow> string" where
  "pageT d key = T (pg_catalog d) (pg_Lang d) key"

definition pageURL :: "pageData \<Rightarrow> string \<Rightarrow> string" where
  "pageURL d path = langPath (pg_Lang d) path"

definition render :: "string \<Rightarrow> int \<Rightarrow> pageData \<Rightarrow> response \<Rightarrow> response" where
  "render name status data w =
     respond status (Page name data) (SetHeader ''Content-Type'' ''text/html; charset=utf-8'' w)"

definition failPage :: "server \<Rightarrow> request \<Rightarrow> err \<Rightarrow> response \<Rightarrow> response" where
  "failPage s r e w =
     (case statusFor e of (status, msg) \<Rightarrow>
        render ''error.html'' status
          ((basePage s r ''error.title'')\<lparr>pg_Message := msg, pg_NotFound := (e = ErrNotFound), pg_NoIndex := True\<rparr>) w)"

subsection \<open>Numbered messages\<close>

text \<open>
  The loops \<open>for i := 1; ; i++\<close> that collect numbered messages until one is missing; they have
  no bound of their own.
\<close>

partial_function (option) faqItems_from :: "Catalog \<Rightarrow> string \<Rightarrow> nat \<Rightarrow> faqItem list option" where
  "faqItems_from c l i =
     (if \<not> Has c l (''faq.q'' @ nat_digits i) then Some []
      else Option.bind (faqItems_from c l (i + 1)) (\<lambda>items.
          Some (\<lparr>fq_Q = T c l (''faq.q'' @ nat_digits i), fq_A = T c l (''faq.a'' @ nat_digits i)\<rparr> # items)))"

partial_function (option) howSteps_from :: "Catalog \<Rightarrow> string \<Rightarrow> nat \<Rightarrow> howStep list option" where
  "howSteps_from c l i =
     (if \<not> Has c l (''guide.step'' @ nat_digits i @ ''_name'') then Some []
      else Option.bind (howSteps_from c l (i + 1)) (\<lambda>steps.
          Some (\<lparr>hw_Name = T c l (''guide.step'' @ nat_digits i @ ''_name''),
                 hw_Text = T c l (''guide.step'' @ nat_digits i @ ''_text'')\<rparr> # steps)))"

partial_function (option) featureList_from :: "Catalog \<Rightarrow> string \<Rightarrow> nat \<Rightarrow> string list option" where
  "featureList_from c l i =
     (if T c l (''feat.'' @ nat_digits i) = ''feat.'' @ nat_digits i then Some []
      else Option.bind (featureList_from c l (i + 1)) (\<lambda>fs.
          Some (T c l (''feat.'' @ nat_digits i) # fs)))"

definition faqItems :: "Catalog \<Rightarrow> string \<Rightarrow> faqItem list option" where
  "faqItems c l = faqItems_from c l 1"

definition howSteps :: "Catalog \<Rightarrow> string \<Rightarrow> howStep list option" where
  "howSteps c l = howSteps_from c l 1"

definition featureList :: "Catalog \<Rightarrow> string \<Rightarrow> string list option" where
  "featureList c l = featureList_from c l 1"

subsection \<open>Structured data\<close>

definition scriptOpen :: string where
  "scriptOpen = ''<script type='' @ [dquote] @ ''application/ld+json'' @ [dquote] @ ''>''"

definition scriptClose :: string where "scriptClose = ''</script>''"

definition ldScript :: "json \<Rightarrow> string" where
  "ldScript doc = scriptOpen @ Marshal doc @ scriptClose"

definition serviceName :: string where
  "serviceName =
     str [227, 130, 187, 227, 130, 173, 227, 131, 165, 227, 131, 149, 227, 130, 161, 227,
     130, 164, 227, 131, 171, 228, 190, 191]"

definition indexJSONLD :: "server \<Rightarrow> string \<Rightarrow> string list \<Rightarrow> string" where
  "indexJSONLD s l features =
     (let base = baseOf s in
      ldScript (JMap [(''@context'', JStr ''https://schema.org''),
        (''@graph'', JArr
          [JMap [(''@type'', JStr ''WebSite''), (''@id'', JStr (base @ ''/#website'')),
             (''url'', JStr (base @ ''/'')), (''name'', JStr serviceName), (''inLanguage'', JStr l),
             (''description'', JStr (T (hs_i18n s) l ''meta.description'')),
             (''publisher'', JMap [(''@id'', JStr (base @ ''/#org''))])],
           JMap [(''@type'', JStr ''Organization''), (''@id'', JStr (base @ ''/#org'')),
             (''name'', JStr (str [231, 137, 185, 229, 174, 154, 233, 157, 158, 229, 150, 182, 229, 136, 169,
          230, 180, 187, 229, 139, 149, 230, 179, 149, 228, 186, 186, 227, 129, 177, 227,
          129, 163, 227, 129, 183, 227, 129, 153])),
             (''alternateName'', JStr ''PAPS''), (''url'', JStr ''https://paps.jp'')],
           JMap [(''@type'', JStr ''WebApplication''), (''name'', JStr serviceName),
             (''url'', JStr (base @ ''/'')), (''applicationCategory'', JStr ''UtilitiesApplication''),
             (''operatingSystem'', JStr ''Web''), (''inLanguage'', JStr l),
             (''screenshot'', JStr (base @ ''/static/og.png'')),
             (''featureList'', if features = [] then JNull else JArr (map JStr features)),
             (''offers'', JMap [(''@type'', JStr ''Offer''), (''price'', JStr ''0''), (''priceCurrency'', JStr ''JPY'')]),
             (''provider'', JMap [(''@id'', JStr (base @ ''/#org''))])]])]))"

definition breadcrumb :: "server \<Rightarrow> string \<Rightarrow> string \<Rightarrow> string \<Rightarrow> json" where
  "breadcrumb s l path name =
     (let base = baseOf s in
      JMap [(''@type'', JStr ''BreadcrumbList''),
        (''itemListElement'', JArr
          [JMap [(''@type'', JStr ''ListItem''), (''position'', JInt 1),
             (''name'', JStr (T (hs_i18n s) l ''brand.name'')), (''item'', JStr (base @ langPath l ''/''))],
           JMap [(''@type'', JStr ''ListItem''), (''position'', JInt 2),
             (''name'', JStr name), (''item'', JStr (base @ langPath l path))]])])"

definition faqJSONLD :: "server \<Rightarrow> string \<Rightarrow> faqItem list \<Rightarrow> string" where
  "faqJSONLD s l items =
     (let base = baseOf s;
          ents = map (\<lambda>it. JMap [(''@type'', JStr ''Question''), (''name'', JStr (fq_Q it)),
            (''acceptedAnswer'', JMap [(''@type'', JStr ''Answer''), (''text'', JStr (fq_A it))])]) items
      in ldScript (JMap [(''@context'', JStr ''https://schema.org''),
        (''@graph'', JArr
          [JMap [(''@type'', JStr ''FAQPage''), (''@id'', JStr (base @ langPath l ''/faq'' @ ''#faq'')),
             (''inLanguage'', JStr l), (''mainEntity'', JArr ents)],
           breadcrumb s l ''/faq'' (T (hs_i18n s) l ''faq.h1'')])]))"

definition howToJSONLD :: "server \<Rightarrow> string \<Rightarrow> howStep list \<Rightarrow> string" where
  "howToJSONLD s l steps =
     (let base = baseOf s;
          stepNodes = map (\<lambda>(i, st). JMap [(''@type'', JStr ''HowToStep''), (''position'', JInt (int i + 1)),
            (''name'', JStr (hw_Name st)), (''text'', JStr (hw_Text st))]) (zip [0..<length steps] steps)
      in ldScript (JMap [(''@context'', JStr ''https://schema.org''),
        (''@graph'', JArr
          [JMap [(''@type'', JStr ''HowTo''), (''@id'', JStr (base @ langPath l ''/guide'' @ ''#howto'')),
             (''name'', JStr (T (hs_i18n s) l ''guide.h1'')), (''inLanguage'', JStr l),
             (''step'', JArr stepNodes)],
           breadcrumb s l ''/guide'' (T (hs_i18n s) l ''guide.h1'')])]))"

end
