(* ===== verification/Http_Transfer.thy ===== *)
theory Http_Transfer
  imports Http_Pages
begin

text \<open>
  Ticket-authorised transfers: src/internal/httpd/transfer.go.
\<close>

subsection \<open>Byte ranges\<close>

definition CutPrefix :: "string \<Rightarrow> string \<Rightarrow> string option" where
  "CutPrefix s p = (if HasPrefix s p then Some (drop (length p) s) else None)"

text \<open>The inclusive range to send and whether the response is partial.\<close>

definition parseRange :: "string \<Rightarrow> int \<Rightarrow> (int \<times> int \<times> bool) res" where
  "parseRange header fsize =
     (if header = [] then Inr (0, max (fsize - 1) 0, False)
      else case CutPrefix (TrimSpace header) ''bytes='' of
        None \<Rightarrow> Inl (Other ''unsupported range unit'')
      | Some spec \<Rightarrow>
          if CHR '','' \<in> set spec then Inl (Other ''multiple ranges are not supported'')
          else if CHR ''-'' \<notin> set spec then Inl (Other ''malformed range'')
          else
            let before = TrimSpace (before_first (CHR ''-'') spec);
                after = TrimSpace (tl (from_first (CHR ''-'') spec)) in
            if before = [] \<and> after = [] then Inl (Other ''empty range'')
            else if before = [] then
              (case ParseInt after of
                 None \<Rightarrow> Inl (Other ''malformed suffix range'')
               | Some n0 \<Rightarrow>
                   if n0 \<le> 0 then Inl (Other ''malformed suffix range'')
                   else let n = (if n0 > fsize then fsize else n0) in Inr (fsize - n, fsize - 1, True))
            else
              (case ParseInt before of
                 None \<Rightarrow> Inl (Other ''range start outside file'')
               | Some start \<Rightarrow>
                   if start < 0 \<or> start \<ge> fsize then Inl (Other ''range start outside file'')
                   else if after = [] then Inr (start, fsize - 1, True)
                   else (case ParseInt after of
                       None \<Rightarrow> Inl (Other ''malformed range end'')
                     | Some end0 \<Rightarrow>
                         if end0 < start then Inl (Other ''malformed range end'')
                         else Inr (start, min end0 (fsize - 1), True))))"

subsection \<open>File names in headers\<close>

text \<open>
  The loop runs over runes; a rune outside printable ASCII, whatever its width, becomes one
  underscore.
\<close>

definition ascii_rune :: "string option \<Rightarrow> char" where
  "ascii_rune r =
     (case r of
        Some [c] \<Rightarrow>
          if (of_char c :: nat) < 32 \<or> (of_char c :: nat) > 126 \<or> c = CHR 0x22 \<or> c = CHR 0x5C
          then CHR ''_'' else c
      | _ \<Rightarrow> CHR ''_'')"

definition asciiFallback :: "string \<Rightarrow> string" where
  "asciiFallback name =
     (let out = map ascii_rune (runes name) in
      if Trim out ''_'' = [] then ''download'' else out)"

text \<open>\<open>url.PathEscape\<close>.\<close>

definition path_safe :: "char \<Rightarrow> bool" where
  "path_safe c \<longleftrightarrow>
     c \<in> set ''abcdefghijklmnopqrstuvwxyzABCDEFGHIJKLMNOPQRSTUVWXYZ0123456789-_.~$&+=:@''"

definition upper_hex :: "nat \<Rightarrow> char" where
  "upper_hex d = (if d < 10 then char_of (48 + d) else char_of (55 + d))"

definition PathEscape :: "string \<Rightarrow> string" where
  "PathEscape s =
     concat (map (\<lambda>c. if path_safe c then [c]
        else [CHR 0x25, upper_hex (of_char c div 16), upper_hex (of_char c mod 16)]) s)"

text \<open>\<open>%q\<close> of printable ASCII without quotes and backslashes adds the two quotes.\<close>

definition contentDisposition :: "string \<Rightarrow> string" where
  "contentDisposition name =
     (let safe = SafeFileName name; ascii = asciiFallback safe in
      ''attachment; filename='' @ [CHR 0x22] @ ascii @ [CHR 0x22] @
      ''; filename*=UTF-8'' @ [CHR 0x27, CHR 0x27] @ PathEscape safe)"

subsection \<open>Downloads\<close>

definition rangeMessage :: string where
  "rangeMessage =
     str [232, 166, 129, 230, 177, 130, 227, 129, 149, 227, 130, 140, 227, 129, 159, 231,
     175, 132, 229, 155, 178, 227, 129, 140, 228, 184, 141, 230, 173, 163, 227, 129, 167,
     227, 129, 153, 227, 128, 130]"

definition downloadHeaders :: "UnlockedFile \<Rightarrow> int \<Rightarrow> response \<Rightarrow> response" where
  "downloadHeaders meta n w =
     SetHeader ''X-Content-Type-Options'' ''nosniff''
     (SetHeader ''Cache-Control'' ''no-store''
     (SetHeader ''Accept-Ranges'' ''bytes''
     (SetHeader ''Content-Length'' (FormatInt n)
     (SetHeader ''Content-Disposition'' (contentDisposition (uf_Name meta))
     (SetHeader ''Content-Type'' ''application/octet-stream'' w)))))"

text \<open>
  \<open>io.CopyN\<close> sends at most \<open>length\<close> bytes of the opened body, and what was read before an error.
\<close>

definition handleDownload :: "request \<Rightarrow> response \<Rightarrow> server \<Rightarrow> response \<times> server" where
  "handleDownload r w s =
     (let ticket = rq_value r ''ticket'' in
      case call (StatTicket ticket) s of
        (Inl e, s1) \<Rightarrow> (failPage s1 r e w, s1)
      | (Inr meta, s1) \<Rightarrow>
          case parseRange (rq_header r ''Range'') (uf_Size meta) of
            Inl _ \<Rightarrow>
              (httpError rangeMessage 416
                 (SetHeader ''Content-Range'' (''bytes */'' @ FormatInt (uf_Size meta)) w), s1)
          | Inr (start, end, partial) \<Rightarrow>
              let n = end - start + 1;
                  w1 = downloadHeaders meta n w;
                  w2 = (if partial
                        then respond 206 NoBody (SetHeader ''Content-Range''
                          (''bytes '' @ FormatInt start @ ''-'' @ FormatInt end @ ''/'' @ FormatInt (uf_Size meta)) w1)
                        else w1)
              in if rq_method r = ''HEAD'' then (w2, s1)
                 else case call (OpenTicket ticket start) s1 of
                   (Inl e, s2) \<Rightarrow> (failPage s2 r e w, s2)
                 | (Inr (body, _), s2) \<Rightarrow>
                     (w2\<lparr>rs_body := Raw (take (nat n) (fst (readAll body)))\<rparr>, s2))"

definition handleArchive :: "request \<Rightarrow> response \<Rightarrow> server \<Rightarrow> response \<times> server" where
  "handleArchive r w s =
     (let ticket = rq_value r ''ticket'' in
      case call (TicketSession ticket) s of
        (Inl e, s1) \<Rightarrow> (failPage s1 r e w, s1)
      | (Inr _, s1) \<Rightarrow>
          let w1 = SetHeader ''X-Content-Type-Options'' ''nosniff''
                (SetHeader ''Cache-Control'' ''no-store''
                (SetHeader ''Content-Disposition'' (contentDisposition ''securefile.zip'')
                (SetHeader ''Content-Type'' ''application/zip'' w)))
          in case WriteArchive ticket (hs_svc s1) of
               ((entries, e), svc) \<Rightarrow> (w1\<lparr>rs_body := Archive entries e\<rparr>, s1\<lparr>hs_svc := svc\<rparr>))"

end
