(* ===== verification/Service_Inv.thy ===== *)
theory Service_Inv
  imports Service_Download
begin

text \<open>
  The invariant of a running service and a small program logic for its actions.  Beyond the
  database invariant, \<open>svc_ok\<close> says that an upload session exists only for a pending drop,
  that every file of a ready drop is complete, and that every download session refers to an
  existing drop by both its id and its key: row ids are handed out again after a deletion, so
  the last part is what keeps a session from reaching a later drop's files.
\<close>

subsection \<open>The database part\<close>

definition drop_refs :: "store \<Rightarrow> (int \<times> string) set" where
  "drop_refs st = (\<lambda>r. (dr_id r, dr_key r)) ` set (drops st)"

definition uploads_pending :: "store \<Rightarrow> bool" where
  "uploads_pending st \<longleftrightarrow>
     (\<forall>u \<in> set (upload_sessions st). \<forall>r \<in> set (drops st).
        dr_id r = s_drop_id u \<longrightarrow> dr_status r = StatusPending)"

definition ready_complete :: "store \<Rightarrow> bool" where
  "ready_complete st \<longleftrightarrow>
     (\<forall>f \<in> set (files st). \<forall>r \<in> set (drops st).
        dr_id r = f_DropID f \<and> dr_status r = StatusReady \<longrightarrow> Complete f)"

definition st_ok :: "store \<Rightarrow> bool" where
  "st_ok st \<longleftrightarrow> store_ok st \<and> uploads_pending st \<and> ready_complete st"

definition pending_drop :: "int \<Rightarrow> store \<Rightarrow> bool" where
  "pending_drop i st \<longleftrightarrow>
     i \<in> dr_id ` set (drops st) \<and> (\<forall>r \<in> set (drops st). dr_id r = i \<longrightarrow> dr_status r = StatusPending)"

lemma st_ok_store: "st_ok st \<Longrightarrow> store_ok st"
  by (simp add: st_ok_def)

lemmas st_defs = uploads_pending_def ready_complete_def pending_drop_def

lemma st_ok_CreateDrop: "st_ok st \<Longrightarrow> st_ok (snd (CreateDrop d h ip st))"
proof -
  assume ok: "st_ok st"
  have "s_drop_id u \<in> dr_id ` set (drops st)" if "u \<in> set (upload_sessions st)" for u
    using ok that by (auto simp: st_ok_def store_ok_def refs_ok_def)
  then show ?thesis
    using ok store_ok_CreateDrop [of st d h ip]
    by (auto simp: st_ok_def CreateDrop_def Let_def insert_row_def st_defs new_drop_def split: if_splits)
qed

lemma st_ok_AddFile: "st_ok st \<Longrightarrow> pending_drop (f_DropID f) st \<Longrightarrow> st_ok (snd (AddFile f st))"
  using store_ok_AddFile [of st f]
  by (auto simp: st_ok_def AddFile_def Let_def insert_row_def st_defs new_file_def split: if_splits)

lemma st_ok_SetBlobPath: "st_ok st \<Longrightarrow> st_ok (SetBlobPath i p st)"
  using store_ok_SetBlobPath [of st i p]
  by (auto simp: st_ok_def SetBlobPath_def st_defs set_update_where Complete_def)

lemma st_ok_SetReceived:
  assumes "st_ok st" "\<forall>f \<in> set (files st). f_ID f = i \<longrightarrow> pending_drop (f_DropID f) st"
  shows "st_ok (SetReceived i n st)"
  using assms store_ok_SetReceived [of st i n]
  by (auto simp: st_ok_def SetReceived_def st_defs set_update_where)

lemma st_ok_Finalize: "st_ok st \<Longrightarrow> st_ok (snd (Finalize i st))"
proof -
  assume ok: "st_ok st"
  have "Complete f" if "count_where (\<lambda>f. f_Received f < f_Size f) (filter (\<lambda>f. f_DropID f = i) (files st)) \<le> 0"
      "f \<in> set (files st)" "f_DropID f = i" for f
    using that by (auto simp: count_where_def filter_empty_conv Complete_def not_less)
  then show ?thesis
    using ok store_ok_Finalize [of st i]
    by (auto simp: st_ok_def Finalize_def Let_def st_defs set_update_where delete_where_def
        split: option.splits if_splits)
qed

lemma st_ok_ClaimDownload: "st_ok st \<Longrightarrow> st_ok (snd (ClaimDownload key now st))"
  using store_ok_ClaimDownload [of st key now]
  by (auto simp: st_ok_def ClaimDownload_def Let_def st_defs set_update_where)

lemma st_ok_CreateUploadSession:
  "st_ok st \<Longrightarrow> pending_drop (u_DropID u) st \<Longrightarrow> st_ok (snd (CreateUploadSession u now st))"
  using store_ok_CreateUploadSession [of st u now]
  by (auto simp: st_ok_def CreateUploadSession_def st_defs)

lemma st_ok_DeleteDrop: "st_ok st \<Longrightarrow> st_ok (DeleteDrop i st)"
  using store_ok_DeleteDrop [of st i]
  by (auto simp: st_ok_def DeleteDrop_def st_defs delete_where_def)

lemma st_ok_BlockDrop: "st_ok st \<Longrightarrow> st_ok (BlockDrop i now st)"
  using store_ok_BlockDrop [of st i now]
  by (auto simp: st_ok_def BlockDrop_def st_defs set_update_where)

lemma st_ok_CreateReport: "st_ok st \<Longrightarrow> st_ok (snd (CreateReport r st))"
  using store_ok_CreateReport [of st r]
  by (auto simp: st_ok_def CreateReport_def st_defs split: option.splits if_splits)

lemma st_ok_BumpUsage: "st_ok st \<Longrightarrow> st_ok (BumpUsage day u d b st)"
  using store_ok_BumpUsage [of st day u d b]
  by (auto simp: st_ok_def BumpUsage_def st_defs)

lemmas st_ok_ops = st_ok_CreateDrop st_ok_SetBlobPath st_ok_Finalize st_ok_ClaimDownload
  st_ok_DeleteDrop st_ok_BlockDrop st_ok_CreateReport st_ok_BumpUsage

text \<open>Only creating and deleting a drop change which drops there are.\<close>

lemma drop_refs_update:
  "(\<And>r. dr_id (f r) = dr_id r) \<Longrightarrow> (\<And>r. dr_key (f r) = dr_key r) \<Longrightarrow>
    drop_refs (st\<lparr>drops := update_where p f (drops st)\<rparr>) = drop_refs st"
  unfolding drop_refs_def set_map [symmetric] by (simp add: map_update_where del: set_map)

lemma drop_refs_CreateDrop: "drop_refs st \<subseteq> drop_refs (snd (CreateDrop d h ip st))"
  by (auto simp: drop_refs_def CreateDrop_def Let_def insert_row_def)

lemma drop_refs_same [simp]:
  "drop_refs (snd (AddFile f st)) = drop_refs st"
  "drop_refs (SetBlobPath i p st) = drop_refs st"
  "drop_refs (SetReceived i n st) = drop_refs st"
  "drop_refs (snd (CreateUploadSession u now st)) = drop_refs st"
  "drop_refs (snd (CreateReport rp st)) = drop_refs st"
  "drop_refs (BumpUsage day n m b st) = drop_refs st"
  by (auto simp: drop_refs_def AddFile_def insert_row_def Let_def SetBlobPath_def SetReceived_def
      CreateUploadSession_def CreateReport_def BumpUsage_def split: option.splits)

lemma drop_refs_same_drops [simp]:
  "drop_refs (snd (Finalize i st)) = drop_refs st"
  "drop_refs (snd (ClaimDownload key now st)) = drop_refs st"
  "drop_refs (BlockDrop i now st) = drop_refs st"
proof -
  have sess: "drop_refs (st\<lparr>drops := d, upload_sessions := u\<rparr>) = drop_refs (st\<lparr>drops := d\<rparr>)" for d u
    by (simp add: drop_refs_def)
  show "drop_refs (snd (Finalize i st)) = drop_refs st"
    by (auto simp: Finalize_def Let_def sess drop_refs_update split: option.splits)
  show "drop_refs (snd (ClaimDownload key now st)) = drop_refs st"
    by (simp add: ClaimDownload_def Let_def drop_refs_update)
  show "drop_refs (BlockDrop i now st) = drop_refs st"
    by (simp add: BlockDrop_def drop_refs_update)
qed

lemma drop_refs_DeleteDrop: "drop_refs (DeleteDrop i st) = {x \<in> drop_refs st. fst x \<noteq> i}"
proof -
  have "drops (DeleteDrop i st) = filter (\<lambda>r. dr_id r \<noteq> i) (drops st)"
    by (simp add: DeleteDrop_def delete_where_def)
  then show ?thesis unfolding drop_refs_def by force
qed

subsection \<open>The invariant and triples\<close>

definition sessions_ok :: "(int \<times> string) set \<Rightarrow> sessionTable \<Rightarrow> bool" where
  "sessions_ok refs t \<longleftrightarrow>
     distinct (map fst t) \<and> (\<forall>(k, x) \<in> set t. (ss_dropID x, ss_dropKey x) \<in> refs)"

definition svc_ok :: "service \<Rightarrow> bool" where
  "svc_ok s \<longleftrightarrow>
     st_ok (sv_st s) \<and> sessions_ok (drop_refs (sv_st s)) (sv_down s) \<and>
     distinct (map fst (sv_tickets s))"

text \<open>From \<open>P\<close>, the action ends in \<open>Q\<close> or fails, and a failure leaves the invariant intact.\<close>

definition triple :: "(service \<Rightarrow> bool) \<Rightarrow> 'a act \<Rightarrow> ('a \<Rightarrow> service \<Rightarrow> bool) \<Rightarrow> bool" where
  "triple P m Q \<longleftrightarrow>
     (\<forall>s. P s \<longrightarrow> (case m s of (Inr x, s') \<Rightarrow> Q x s' | (Inl e, s') \<Rightarrow> svc_ok s'))"

text \<open>The invariant together with an assertion on the database.\<close>

definition with_st :: "(store \<Rightarrow> bool) \<Rightarrow> service \<Rightarrow> bool" where
  "with_st I s \<longleftrightarrow> svc_ok s \<and> I (sv_st s)"

abbreviation keeps :: "'a act \<Rightarrow> bool" where
  "keeps m \<equiv> triple (with_st (\<lambda>_. True)) m (\<lambda>_. with_st (\<lambda>_. True))"

lemma tripleI:
  "(\<And>s x s'. P s \<Longrightarrow> m s = (Inr x, s') \<Longrightarrow> Q x s') \<Longrightarrow>
   (\<And>s e s'. P s \<Longrightarrow> m s = (Inl e, s') \<Longrightarrow> svc_ok s') \<Longrightarrow> triple P m Q"
  by (auto simp: triple_def split: prod.splits sum.splits)

lemma triple_andThen:
  "triple P m R \<Longrightarrow> (\<And>x. triple (R x) (f x) Q) \<Longrightarrow> triple P (andThen m f) Q"
  unfolding triple_def andThen_def by (fastforce split: prod.splits sum.splits)

lemma triple_pre: "triple P' m Q \<Longrightarrow> (\<And>s. P s \<Longrightarrow> P' s) \<Longrightarrow> triple P m Q"
  by (auto simp: triple_def)

lemma triple_post: "triple P m Q' \<Longrightarrow> (\<And>x s. Q' x s \<Longrightarrow> Q x s) \<Longrightarrow> triple P m Q"
  by (fastforce simp: triple_def split: prod.splits sum.splits)

lemma keeps_snd: "keeps m \<Longrightarrow> svc_ok s \<Longrightarrow> svc_ok (snd (m s))"
  unfolding triple_def with_st_def by (cases "m s"; cases "fst (m s)") fastforce+

lemma triple_case_res:
  "(\<And>e. r = Inl e \<Longrightarrow> triple P (f e) Q) \<Longrightarrow> (\<And>x. r = Inr x \<Longrightarrow> triple P (g x) Q) \<Longrightarrow>
   triple P (case r of Inl e \<Rightarrow> f e | Inr x \<Rightarrow> g x) Q"
  by (cases r) auto

lemma triple_if: "(b \<Longrightarrow> triple P m Q) \<Longrightarrow> (\<not> b \<Longrightarrow> triple P m' Q) \<Longrightarrow> triple P (if b then m else m') Q"
  by simp

lemma triple_prod: "(\<And>a b. x = (a, b) \<Longrightarrow> triple P (f a b) Q) \<Longrightarrow> triple P (case x of (a, b) \<Rightarrow> f a b) Q"
  by (cases x) simp

lemma triple_case_opt:
  "(r = None \<Longrightarrow> triple P f Q) \<Longrightarrow> (\<And>x. r = Some x \<Longrightarrow> triple P (g x) Q) \<Longrightarrow>
   triple P (case r of None \<Rightarrow> f | Some x \<Rightarrow> g x) Q"
  by (cases r) auto

lemma triple_ret: "triple (Q x) (ret x) Q"
  by (simp add: triple_def ret_def)

lemma triple_fail: "(\<And>s. P s \<Longrightarrow> svc_ok s) \<Longrightarrow> triple P (fail e) Q"
  by (simp add: triple_def fail_def)

lemma triple_frame:
  assumes "\<And>s. sv_st (snd (m s)) = sv_st s" "\<And>s. sv_down (snd (m s)) = sv_down s"
    and "\<And>s. sv_tickets (snd (m s)) = sv_tickets s"
  shows "triple (with_st I) m (\<lambda>_. with_st I)"
proof -
  have "svc_ok (snd (m s)) = svc_ok s" for s using assms by (simp add: svc_ok_def)
  with assms(1) have "with_st I s \<Longrightarrow> with_st I (snd (m s)) \<and> svc_ok (snd (m s))" for s
    by (simp add: with_st_def)
  then show ?thesis by (intro tripleI) (metis snd_conv)+
qed

named_theorems frame

lemma triple_seq:
  "triple (with_st I) m (\<lambda>_. with_st I) \<Longrightarrow> (\<And>x. triple (with_st I) (f x) Q) \<Longrightarrow>
   triple (with_st I) (andThen m f) Q"
  by (rule triple_andThen)

lemma frame_if [frame]:
  "triple (with_st I) m (\<lambda>_. with_st I) \<Longrightarrow> triple (with_st I) m' (\<lambda>_. with_st I) \<Longrightarrow>
   triple (with_st I) (if b then m else m') (\<lambda>_. with_st I)"
  by simp

lemmas triple_splits = triple_if triple_case_res triple_prod triple_case_opt

lemma frame_draw [frame]: "triple (with_st I) (draw r) (\<lambda>_. with_st I)"
  by (rule triple_frame) (simp_all add: draw_def split: prod.splits)

lemma frame_lift [frame]: "triple (with_st I) (lift_res r) (\<lambda>_. with_st I)"
  by (rule triple_frame) (simp_all add: lift_res_def)

lemma frame_query [frame]: "triple (with_st I) (query q) (\<lambda>_. with_st I)"
  by (rule triple_frame) (simp_all add: query_def)

lemma frame_notFound: "triple P m Q \<Longrightarrow> triple P (notFound m) Q"
  unfolding triple_def notFound_def by (fastforce split: prod.splits sum.splits)

lemma frame_clock [frame]: "triple (with_st I) clock (\<lambda>_. with_st I)"
  by (rule triple_frame) (simp_all add: clock_def)

lemma frame_config [frame]: "triple (with_st I) config (\<lambda>_. with_st I)"
  by (rule triple_frame) (simp_all add: config_def)

lemma frame_setBlob [frame]: "triple (with_st I) (setBlob p b) (\<lambda>_. with_st I)"
  by (rule triple_frame) (simp_all add: setBlob_def)

lemma frame_openCreate [frame]: "triple (with_st I) (openCreate p) (\<lambda>_. with_st I)"
  by (rule triple_frame)
     (simp_all add: openCreate_def andThen_def setBlob_def ret_def split: option.splits)

lemma frame_openBlob [frame]: "triple (with_st I) (openBlob p) (\<lambda>_. with_st I)"
  by (rule triple_frame) (simp_all add: openBlob_def split: option.splits)

lemma frame_MkdirAll [frame]: "triple (with_st I) (MkdirAll d) (\<lambda>_. with_st I)"
  by (rule triple_frame) (simp_all add: MkdirAll_def)

lemma frame_RemoveAll [frame]: "triple (with_st I) (RemoveAll d) (\<lambda>_. with_st I)"
  by (rule triple_frame) (simp_all add: RemoveAll_def)

lemma frame_ret [frame]: "triple (with_st I) (ret x) (\<lambda>_. with_st I)"
  by (rule triple_ret)

lemma frame_fail [frame]: "triple (with_st I) (fail e) (\<lambda>_. with_st I)"
  by (rule triple_fail) (simp add: with_st_def)

lemma frame_newWriter [frame]: "triple (with_st I) (newWriter d k) (\<lambda>_. with_st I)"
  unfolding newWriter_def by (intro triple_splits triple_seq frame)

lemma frame_writeEmptyBlob [frame]: "triple (with_st I) (writeEmptyBlob p k) (\<lambda>_. with_st I)"
  unfolding writeEmptyBlob_def by (intro triple_splits triple_seq frame)

lemma frame_writerAt [frame]: "triple (with_st I) (writerAt p c k off room) (\<lambda>_. with_st I)"
  unfolding writerAt_def Let_def
  by (intro triple_splits triple_seq frame)

lemma frame_manageSecret [frame]: "triple (with_st I) (manageSecret b) (\<lambda>_. with_st I)"
  unfolding manageSecret_def by (intro triple_splits triple_seq frame)

lemma frame_validateStart [frame]: "triple (with_st I) (validateStart ip req) (\<lambda>_. with_st I)"
  unfolding validateStart_def by (intro triple_splits triple_seq frame)

lemma frame_uniqueKey_loop: "triple (with_st I) (uniqueKey_loop n) (\<lambda>_. with_st I)"
proof (induction n)
  case (Suc n)
  have "triple (with_st I) (\<lambda>s. case DropByKey key (sv_st s) of
         Inl e \<Rightarrow> if e = StoreNotFound then ret key s else fail e s
       | Inr d \<Rightarrow> uniqueKey_loop n s) (\<lambda>_. with_st I)" for key
    using Suc by (auto simp: triple_def with_st_def ret_def fail_def split: sum.splits)
  then show ?case by (auto intro!: triple_seq frame)
qed (simp add: frame_fail)

lemma frame_uniqueKey [frame]: "triple (with_st I) uniqueKey (\<lambda>_. with_st I)"
  unfolding uniqueKey_def by (rule frame_uniqueKey_loop)

text \<open>Sequencing after an action that leaves the assertion alone.\<close>

lemmas seqs = frame [THEN triple_seq]

subsection \<open>Database actions\<close>

lemma svc_ok_st:
  assumes "svc_ok s" "st_ok st" "drop_refs (sv_st s) \<subseteq> drop_refs st"
  shows "svc_ok (s\<lparr>sv_st := st\<rparr>)"
  using assms by (fastforce simp: svc_ok_def sessions_ok_def)

lemma triple_db:
  assumes "\<And>st. st_ok st \<Longrightarrow> I st \<Longrightarrow> st_ok (snd (f st)) \<and> drop_refs st \<subseteq> drop_refs (snd (f st))"
    and "\<And>st x st'. st_ok st \<Longrightarrow> I st \<Longrightarrow> f st = (Inr x, st') \<Longrightarrow> J x st'"
  shows "triple (with_st I) (db f) (\<lambda>x. with_st (J x))"
proof (rule tripleI)
  fix s x s' assume "with_st I s" "db f s = (Inr x, s')"
  then have s: "svc_ok s \<and> I (sv_st s)" "db f s = (Inr x, s')" by (simp_all add: with_st_def)
  from s(2) obtain st where st: "f (sv_st s) = (Inr x, st)" "s' = s\<lparr>sv_st := st\<rparr>"
    by (auto simp: db_def split: prod.splits)
  have "st_ok (sv_st s)" using s by (simp add: svc_ok_def)
  with st show "with_st (J x) s'"
    using s assms [of "sv_st s"] by (auto simp: with_st_def intro: svc_ok_st)
next
  fix s e s' assume "with_st I s" "db f s = (Inl e, s')"
  then have s: "svc_ok s \<and> I (sv_st s)" "db f s = (Inl e, s')" by (simp_all add: with_st_def)
  from s(2) obtain st where "f (sv_st s) = (Inl e, st)" "s' = s\<lparr>sv_st := st\<rparr>"
    by (auto simp: db_def split: prod.splits)
  then show "svc_ok s'"
    using s assms(1) [of "sv_st s"] by (metis snd_conv svc_ok_def svc_ok_st)
qed

lemma triple_db_upd:
  assumes "\<And>st. st_ok st \<Longrightarrow> I st \<Longrightarrow> st_ok (f st) \<and> drop_refs st \<subseteq> drop_refs (f st) \<and> J (f st)"
  shows "triple (with_st I) (db_upd f) (\<lambda>_. with_st J)"
  using assms by (auto simp: triple_def with_st_def db_upd_def intro!: svc_ok_st) (auto simp: svc_ok_def)

lemma triple_db_err:
  assumes "\<And>st. st_ok st \<Longrightarrow> I st \<Longrightarrow>
      st_ok (snd (f st)) \<and> drop_refs st \<subseteq> drop_refs (snd (f st)) \<and> J (snd (f st))"
  shows "triple (with_st I) (db_err f) (\<lambda>_. with_st J)"
proof -
  have "svc_ok (s\<lparr>sv_st := st\<rparr>) \<and> J st" if "svc_ok s" "I (sv_st s)" "f (sv_st s) = (r, st)" for s r st
    using assms [of "sv_st s"] that by (metis snd_conv svc_ok_def svc_ok_st)
  then show ?thesis
    by (intro tripleI) (auto simp: with_st_def db_err_def split: prod.splits option.splits)
qed

lemma triple_query: "triple (with_st I) (query q) (\<lambda>x. with_st (\<lambda>st. I st \<and> q st = Inr x))"
  by (auto simp: triple_def with_st_def query_def split: sum.splits)

lemma with_True: "triple (with_st (\<lambda>_. True)) m Q \<Longrightarrow> triple (with_st I) m Q"
  by (simp add: triple_def with_st_def)

lemma drop_with_True: "triple P m (\<lambda>_. with_st I) \<Longrightarrow> triple P m (\<lambda>_. with_st (\<lambda>_. True))"
  by (erule triple_post) (simp add: with_st_def)

subsection \<open>Uploads keep the invariant\<close>

lemma pending_drop_keep:
  "pending_drop i (snd (AddFile f st)) = pending_drop i st"
  "pending_drop i (SetBlobPath k p st) = pending_drop i st"
  "pending_drop i (SetReceived k n st) = pending_drop i st"
  by (simp_all add: pending_drop_def AddFile_def insert_row_def Let_def SetBlobPath_def SetReceived_def)

lemma CreateDrop_pending:
  assumes "store_ok st" "CreateDrop d h ip st = (Inr d', st')"
  shows "pending_drop (d_ID d') st'"
proof -
  let ?x = "(d, if d_Kind d = [] then ''file'' else d_Kind d, h, ip)"
  obtain rows i where ins: "insert_row dr_id (new_drop ?x) (drops st) = (rows, i)"
    by (cases "insert_row dr_id (new_drop ?x) (drops st)") auto
  then have *: "d_ID d' = i" "drops st' = rows" "rows = drops st @ [new_drop ?x i]"
    using assms(2) insert_row_parts [OF ins] by (auto simp: CreateDrop_def Let_def split: if_splits)
  have "dr_id r \<noteq> i" if "r \<in> set (drops st)" for r
    using drop_tab.insert_fresh [OF ins] that by blast
  then show ?thesis using * by (auto simp: pending_drop_def new_drop_def)
qed

lemma keeps_startFile:
  "triple (with_st (pending_drop i)) (startFile key dek i n fr) (\<lambda>_. with_st (pending_drop i))"
proof -
  have add: "triple (with_st (pending_drop i)) (db (AddFile f)) (\<lambda>_. with_st (pending_drop i))"
    if "f_DropID f = i" for f
  proof (rule triple_db)
    fix st x st'
    assume "pending_drop i st" "AddFile f st = (Inr x, st')"
    then show "pending_drop i st'" using pending_drop_keep(1) [of i f st] by simp
  qed (simp add: st_ok_AddFile that)
  have path: "triple (with_st (pending_drop i)) (db_upd (SetBlobPath k p)) (\<lambda>_. with_st (pending_drop i))" for k p
    by (rule triple_db_upd) (simp add: st_ok_SetBlobPath pending_drop_keep)
  show ?thesis
    unfolding startFile_def by (intro triple_splits triple_seq frame path add) simp
qed

lemma keeps_startFiles:
  "triple (with_st (pending_drop i)) (startFiles key dek i n frs) (\<lambda>_. with_st (pending_drop i))"
  by (induction frs arbitrary: n) (auto intro!: triple_seq frame keeps_startFile)

lemma seq_CreateDrop:
  "(\<And>x. triple (with_st (pending_drop (d_ID x))) (f x) Q) \<Longrightarrow>
   triple (with_st (\<lambda>_. True)) (andThen (db (CreateDrop d h ip)) f) Q"
  by (rule triple_andThen, rule triple_db [where J = "\<lambda>x. pending_drop (d_ID x)"])
     (simp_all add: st_ok_CreateDrop drop_refs_CreateDrop CreateDrop_pending [OF st_ok_store])

lemma seq_CreateUploadSession:
  assumes "triple (with_st (\<lambda>_. True)) m Q" "u_DropID u = i"
  shows "triple (with_st (pending_drop i)) (andThen (db_err (CreateUploadSession u now)) (\<lambda>_. m)) Q"
  by (rule triple_andThen [OF triple_db_err [where J = "\<lambda>_. True"]])
     (use assms in \<open>simp_all add: st_ok_CreateUploadSession\<close>)

lemma keeps_StartUpload: "keeps (StartUpload K ip req)"
  unfolding StartUpload_def Let_def
  by (intro seqs frame triple_prod seq_CreateDrop seq_CreateUploadSession
      keeps_startFiles [THEN triple_seq]) simp

lemma session_pending:
  assumes "st_ok st" "UploadSessionByID i now st = Inr u"
  shows "pending_drop (u_DropID u) st"
proof -
  obtain r where r: "find (\<lambda>u. s_id u = i \<and> s_expires_at u > Unix now) (upload_sessions st) = Some r"
      "u_DropID u = s_drop_id r"
    using assms(2) by (auto simp: UploadSessionByID_def split: option.splits)
  have "r \<in> set (upload_sessions st)" using find_Some_D [OF r(1)] by blast
  then show ?thesis
    using assms(1) unfolding r(2) st_ok_def store_ok_def refs_ok_def st_defs by blast
qed

lemma seq_resolveSession:
  assumes "\<And>sess dek. triple (with_st (pending_drop (u_DropID sess))) (f (sess, dek)) Q"
  shows "triple (with_st (\<lambda>_. True)) (andThen (resolveSession K i tok) f) Q"
proof (rule triple_andThen)
  have q: "triple (with_st (\<lambda>_. True)) (query (UploadSessionByID i now)) (\<lambda>u. with_st (pending_drop (u_DropID u)))" for now
    by (rule triple_post [OF triple_query]) (auto simp: with_st_def svc_ok_def intro: session_pending)
  show "triple (with_st (\<lambda>_. True)) (resolveSession K i tok) (\<lambda>x. with_st (pending_drop (u_DropID (fst x))))"
    unfolding resolveSession_def
    by (intro seqs triple_andThen [OF frame_notFound [OF q]] triple_case_res triple_fail)
       (simp_all add: triple_def with_st_def ret_def)
  show "triple (with_st (pending_drop (u_DropID (fst x)))) (f x) Q" for x
    using assms by (cases x) simp
qed

lemma keeps_UploadState: "keeps (UploadState K i tok)"
  unfolding UploadState_def
  by (intro seq_resolveSession, unfold prod.case, rule with_True, intro seqs frame)

lemma FileByID_Inr:
  assumes "FileByID i k st = Inr f"
  shows "f \<in> set (files st) \<and> f_ID f = k \<and> f_DropID f = i"
proof -
  have "find (\<lambda>f. f_ID f = k \<and> f_DropID f = i) (files st) = Some f"
    using assms by (cases "find (\<lambda>f. f_ID f = k \<and> f_DropID f = i) (files st)") (simp_all add: FileByID_def)
  from find_Some_D [OF this] show ?thesis by simp
qed

lemma file_pending:
  assumes "st_ok st" "pending_drop i st" "FileByID i k st = Inr f"
  shows "\<forall>g \<in> set (files st). f_ID g = k \<longrightarrow> pending_drop (f_DropID g) st"
proof -
  have f: "f \<in> set (files st)" "f_ID f = k" "f_DropID f = i" using FileByID_Inr [OF assms(3)] by simp_all
  have "inj_on f_ID (set (files st))"
    using assms(1) file_tab.ids_ok_distinct [of "files st"] by (simp add: st_ok_def store_ok_def distinct_map)
  then have "g = f" if "g \<in> set (files st)" "f_ID g = k" for g
    using that f by (auto dest: inj_onD)
  then show ?thesis using f(3) assms(2) by auto
qed

lemma keeps_WriteParts: "keeps (WriteParts K i tok k off ps bf room)"
proof -
  let ?I = "\<lambda>st. \<forall>g \<in> set (files st). f_ID g = k \<longrightarrow> pending_drop (f_DropID g) st"
  have q: "triple (with_st (pending_drop j)) (notFound (query (FileByID j k))) (\<lambda>_. with_st ?I)" for j
    by (rule frame_notFound, rule triple_post [OF triple_query])
       (use file_pending in \<open>fastforce simp: with_st_def svc_ok_def\<close>)
  have upd: "triple (with_st ?I) (db_upd (SetReceived k n)) (\<lambda>_. with_st (\<lambda>_. True))" for n
    by (rule triple_db_upd) (simp add: st_ok_SetReceived)
  have seal: "triple (with_st ?I) (sealPart p offs sz w k n) (\<lambda>_. with_st (\<lambda>_. True))" for p offs sz w n
    unfolding sealPart_def Let_def
    by (intro triple_splits seqs triple_andThen [OF upd] frame with_True [OF frame_fail])
  show ?thesis
    unfolding WriteParts_def Let_def
    by (intro seq_resolveSession, unfold prod.case,
        intro triple_andThen [OF q] triple_splits seqs seal with_True [OF frame_fail] with_True [OF frame_ret])
qed

lemma DeleteDropAct_eq:
  "DeleteDropAct d s =
    (let s1 = s\<lparr>sv_down := deleteByDrop (d_ID d) (sv_down s)\<rparr> in
     case dropDir (d_Key d) of
       Inl e \<Rightarrow> (Inl e, s1)
     | Inr dir \<Rightarrow>
         case RemoveAll dir s1 of
           (Inl e, s2) \<Rightarrow> (Inl e, s2)
         | (Inr _, s2) \<Rightarrow> (Inr (), s2\<lparr>sv_st := DeleteDrop (d_ID d) (sv_st s2)\<rparr>))"
  by (simp add: DeleteDropAct_def andThen_def lift_res_def db_upd_def Let_def
      split: sum.splits prod.splits)

lemma sessions_ok_deleteByDrop:
  assumes "sessions_ok refs t"
  shows "sessions_ok {x \<in> refs. fst x \<noteq> i} (deleteByDrop i t)"
  using assms by (auto simp: sessions_ok_def deleteByDrop_def distinct_map_filter)

lemma svc_ok_down:
  assumes "svc_ok s" "sessions_ok (drop_refs (sv_st s)) t"
  shows "svc_ok (s\<lparr>sv_down := t\<rparr>)"
  using assms by (simp add: svc_ok_def)

lemma sessions_ok_mono: "sessions_ok A t \<Longrightarrow> A \<subseteq> B \<Longrightarrow> sessions_ok B t"
  by (auto simp: sessions_ok_def)

lemma RemoveAll_frame:
  "RemoveAll dir s = (r, s') \<Longrightarrow>
    sv_st s' = sv_st s \<and> sv_down s' = sv_down s \<and> sv_tickets s' = sv_tickets s \<and>
    sv_rand s' = sv_rand s \<and> sv_now s' = sv_now s \<and> sv_cfg s' = sv_cfg s"
  by (auto simp: RemoveAll_def split: if_splits)

lemma svc_ok_DeleteDropAct:
  assumes "svc_ok s"
  shows "svc_ok (snd (DeleteDropAct d s))"
proof -
  let ?s1 = "s\<lparr>sv_down := deleteByDrop (d_ID d) (sv_down s)\<rparr>"
  have cut: "sessions_ok {x \<in> drop_refs (sv_st s). fst x \<noteq> d_ID d} (sv_down ?s1)"
    using assms by (simp add: svc_ok_def sessions_ok_deleteByDrop)
  then have s1: "svc_ok ?s1"
    using assms sessions_ok_mono [OF cut] by (auto intro: svc_ok_down)
  show ?thesis
  proof (cases "dropDir (d_Key d)")
    case (Inr dir)
    obtain r s2 where r: "RemoveAll dir ?s1 = (r, s2)" by (cases "RemoveAll dir ?s1") auto
    note fr = RemoveAll_frame [OF r]
    have "svc_ok s2" using s1 fr by (simp add: svc_ok_def)
    moreover have "svc_ok (s2\<lparr>sv_st := DeleteDrop (d_ID d) (sv_st s2)\<rparr>)"
      using s1 cut fr by (simp add: svc_ok_def drop_refs_DeleteDrop st_ok_DeleteDrop)
    ultimately show ?thesis
      using Inr r by (cases r) (simp_all add: DeleteDropAct_eq Let_def)
  qed (use s1 in \<open>simp add: DeleteDropAct_eq Let_def\<close>)
qed

lemma keepsI: "(\<And>s. svc_ok s \<Longrightarrow> svc_ok (snd (m s))) \<Longrightarrow> keeps m"
  by (intro tripleI) (simp_all add: with_st_def, (metis snd_conv)+)

lemma keeps_DeleteDropAct: "keeps (DeleteDropAct d)"
  by (rule keepsI) (rule svc_ok_DeleteDropAct)

lemma keeps_FinishUpload: "keeps (FinishUpload K i tok)"
proof -
  have fin: "keeps (\<lambda>s. case db_err (Finalize k) s of
      (Inl e, s') \<Rightarrow> (Inl ErrInvalid, s') | (Inr x, s') \<Rightarrow> (Inr x, s'))" for k
  proof (rule keepsI)
    fix s assume "svc_ok s"
    moreover have "keeps (db_err (Finalize k))"
      by (rule triple_db_err) (simp add: st_ok_Finalize)
    ultimately have "svc_ok (snd (db_err (Finalize k) s))" by (rule keeps_snd [rotated])
    then show "svc_ok (snd (case db_err (Finalize k) s of
      (Inl e, s') \<Rightarrow> (Inl ErrInvalid, s') | (Inr x, s') \<Rightarrow> (Inr x, s')))"
      by (auto split: prod.splits sum.splits)
  qed
  have bump: "keeps (db_upd (BumpUsage day a b c))" for day a b c
    by (rule triple_db_upd) (simp add: st_ok_BumpUsage)
  show ?thesis
    unfolding FinishUpload_def
    by (intro seq_resolveSession, unfold prod.case, rule with_True)
       (intro seqs frame fin [THEN triple_seq] bump [THEN triple_seq])
qed

lemma keeps_CancelUpload: "keeps (CancelUpload K i tok)"
  unfolding CancelUpload_def
  by (intro seq_resolveSession, unfold prod.case, rule with_True)
     (intro seqs triple_if frame keeps_DeleteDropAct)

subsection \<open>Downloads keep the invariant\<close>

lemma sessions_ok_put:
  "sessions_ok refs t \<Longrightarrow> (ss_dropID x, ss_dropKey x) \<in> refs \<Longrightarrow> sessions_ok refs (tab_put k x t)"
  by (auto simp: sessions_ok_def distinct_tab_put) (auto simp: tab_put_def)

lemma sessions_ok_subset:
  "sessions_ok refs t \<Longrightarrow> distinct (map fst t') \<Longrightarrow> set t' \<subseteq> set t \<Longrightarrow> sessions_ok refs t'"
  by (auto simp: sessions_ok_def)

lemma LiveDropByKey_ref:
  assumes "LiveDropByKey key now st = Inr d"
  shows "(d_ID d, d_Key d) \<in> drop_refs st"
proof -
  obtain r where r: "find (claimable key now) (drops st) = Some r" "d = toDrop r"
    using assms by (cases "find (claimable key now) (drops st)") (auto simp: LiveDropByKey_def)
  have "r \<in> set (drops st)" using find_Some_D [OF r(1)] by simp
  then show ?thesis by (simp add: r(2) drop_refs_def)
qed

lemma keeps_put:
  "triple (with_st (\<lambda>st. (ss_dropID x, ss_dropKey x) \<in> drop_refs st))
     (\<lambda>s. (Inr (), s\<lparr>sv_down := put k x (sv_down s)\<rparr>)) (\<lambda>_. with_st (\<lambda>_. True))"
  by (auto simp: triple_def with_st_def svc_ok_def put_def sessions_ok_put)

lemma keeps_Unlock: "keeps (Unlock K key pw)"
proof -
  have q: "triple (with_st (\<lambda>_. True)) (notFound (query (LiveDropByKey key now)))
      (\<lambda>d. with_st (\<lambda>st. (d_ID d, d_Key d) \<in> drop_refs st))" for now
    by (rule frame_notFound, rule triple_post [OF triple_query])
       (use LiveDropByKey_ref in \<open>auto simp: with_st_def\<close>)
  have seq_put: "triple (with_st (\<lambda>st. (i, dk) \<in> drop_refs st))
      (andThen (\<lambda>s. (Inr (), s\<lparr>sv_down := put k \<lparr>ss_dropKey = dk, ss_dropID = i, ss_dek = e,
         ss_expiresAt = t, ss_claimed = False\<rparr> (sv_down s)\<rparr>)) (\<lambda>_. ret y)) (\<lambda>_. with_st (\<lambda>_. True))"
    for i dk k e t y
    by (rule triple_andThen, rule keeps_put [where x = "\<lparr>ss_dropKey = dk, ss_dropID = i, ss_dek = e,
         ss_expiresAt = t, ss_claimed = False\<rparr>", simplified], rule frame)
  show ?thesis
    unfolding Unlock_def Let_def
    by (intro seqs triple_andThen [OF q] triple_case_res with_True [OF frame_fail] seq_put)
qed

lemma getSession_Inr:
  "getSession tok s = (Inr x, s') \<longleftrightarrow>
    map_of (sv_down s) tok = Some x \<and> sv_now s \<le> ss_expiresAt x \<and> s' = s"
  unfolding getSession_def sessions.look_law by (auto split: option.splits if_splits)

lemma getSession_frame:
  "getSession tok s = (r, s') \<Longrightarrow>
    \<exists>t. s' = s\<lparr>sv_down := t\<rparr> \<and> set t \<subseteq> set (sv_down s) \<and>
      (distinct (map fst (sv_down s)) \<longrightarrow> distinct (map fst t))"
  using sessions.look_shrinks [of tok "sv_now s" "sv_down s"]
    sessions.look_distinct [of "sv_down s" tok "sv_now s"]
  by (auto simp: getSession_def split: prod.splits option.splits)

lemma svc_ok_getSession: "svc_ok s \<Longrightarrow> getSession tok s = (r, s') \<Longrightarrow> svc_ok s'"
  by (drule getSession_frame) (fastforce simp: svc_ok_def sessions_ok_def)

text \<open>A session handed out by the table refers to a drop; claiming it keeps it in the table.\<close>

lemma session_ref:
  assumes "svc_ok s" "map_of (sv_down s) tok = Some x"
  shows "(ss_dropID x, ss_dropKey x) \<in> drop_refs (sv_st s)"
  using assms map_of_SomeD [OF assms(2)] by (auto simp: svc_ok_def sessions_ok_def)

lemma seq_getSession:
  assumes "\<And>x. triple (with_st (\<lambda>st. (ss_dropID x, ss_dropKey x) \<in> drop_refs st)) (f x) Q"
  shows "triple (with_st (\<lambda>_. True)) (andThen (getSession tok) f) Q"
  by (rule triple_andThen [OF _ assms], rule tripleI)
     (auto simp: with_st_def getSession_Inr intro: svc_ok_getSession session_ref)

lemma claimDownload_ok:
  assumes "st_ok st"
  shows "st_ok (snd (claimDownload key now st)) \<and> drop_refs (snd (claimDownload key now st)) = drop_refs st"
proof -
  obtain r st' where c: "ClaimDownload key now st = (r, st')" by (cases "ClaimDownload key now st") auto
  then have "st_ok st'" "drop_refs st' = drop_refs st"
    using assms st_ok_ClaimDownload [of st key now] drop_refs_same_drops(2) [of key now st] by simp_all
  then show ?thesis using c by (cases r) (simp_all add: claimDownload_def st_ok_BumpUsage)
qed

lemma keeps_claimSession:
  "triple (with_st (\<lambda>st. (ss_dropID x, ss_dropKey x) \<in> drop_refs st)) (claimSession tok x)
     (\<lambda>_. with_st (\<lambda>_. True))"
proof -
  have "svc_ok (snd (claimSession tok x s))"
    if ok: "svc_ok s" and x: "(ss_dropID x, ss_dropKey x) \<in> drop_refs (sv_st s)" for s
  proof -
    let ?c = "claimDownload (ss_dropKey x) (sv_now s) (sv_st s)"
    have "st_ok (snd ?c)" "drop_refs (snd ?c) = drop_refs (sv_st s)"
      using claimDownload_ok ok by (simp_all add: svc_ok_def)
    with ok x show ?thesis
      by (auto simp: claimSession_def claimOnce_def svc_ok_def sessions_ok_put split: prod.splits option.splits)
  qed
  then show ?thesis by (intro tripleI) (simp_all add: with_st_def, (metis snd_conv)+)
qed

lemma keeps_OpenFile: "keeps (OpenFile tok k off)"
  unfolding OpenFile_def Let_def
  by (intro seq_getSession triple_andThen [OF keeps_claimSession]
      triple_andThen [OF frame_notFound [OF frame_query]] triple_if seqs frame)

lemma keeps_reads: "keeps (Peek key)" "keeps (SessionFiles tok)" "keeps StatsAct"
    "keeps (ManageStatus mtok)"
proof -
  have m: "keeps (resolveManage mtok)"
    unfolding resolveManage_def by (intro triple_if frame frame_notFound)
  show "keeps (Peek key)" unfolding Peek_def
    by (intro seqs triple_andThen [OF frame_notFound [OF frame_query]] frame)
  show "keeps (SessionFiles tok)" unfolding SessionFiles_def
    by (intro seq_getSession, rule with_True, intro seqs frame)
  show "keeps StatsAct" unfolding StatsAct_def by (intro seqs frame)
  show "keeps (ManageStatus mtok)" unfolding ManageStatus_def
    by (rule triple_seq [OF m]) (intro seqs frame)
qed

lemma keeps_DeleteBySession: "keeps (DeleteBySession tok)"
  unfolding DeleteBySession_def
  by (intro seq_getSession, rule with_True)
     (intro triple_seq [OF frame_notFound [OF frame_query]] triple_if frame keeps_DeleteDropAct)

lemma keeps_ManageDelete: "keeps (ManageDelete tok)"
  unfolding ManageDelete_def resolveManage_def
  by (intro triple_seq triple_if frame frame_notFound keeps_DeleteDropAct)

subsection \<open>Tickets, archives, reports and expiry keep the invariant\<close>

lemma svc_ok_tickets:
  "svc_ok s \<Longrightarrow> distinct (map fst t) \<Longrightarrow> svc_ok (s\<lparr>sv_tickets := t\<rparr>)"
  by (simp add: svc_ok_def)

lemma keeps_redeem: "keeps (redeem i)"
proof (rule keepsI)
  fix s assume "svc_ok s"
  moreover have "snd (redeem i s) = s\<lparr>sv_tickets := snd (lookupTicket i (sv_now s) (sv_tickets s))\<rparr>"
    by (simp add: redeem_def split: prod.splits option.splits)
  ultimately show "svc_ok (snd (redeem i s))"
    using tickets.look_distinct [of "sv_tickets s" i "sv_now s"] by (simp add: svc_ok_def)
qed

lemma keeps_IssueTicket: "keeps (IssueTicket tok k)"
proof -
  have put: "keeps (\<lambda>s. (Inr (), s\<lparr>sv_tickets := tab_put i x (sv_tickets s)\<rparr>))" for i x
    by (rule keepsI) (simp add: svc_ok_def distinct_tab_put)
  have mint: "keeps (andThen (draw NewToken) (\<lambda>i. andThen clock (\<lambda>now.
       andThen (\<lambda>s. (Inr (), s\<lparr>sv_tickets := tab_put i
          \<lparr>tk_sessionToken = tok, tk_fileID = k, tk_expiresAt = now + ticketTTL\<rparr> (sv_tickets s)\<rparr>))
       (\<lambda>_. ret (i, now + ticketTTL)))))"
    by (intro seqs put [THEN triple_seq] frame)
  show ?thesis
    unfolding IssueTicket_def Let_def
  proof (intro seq_getSession, rule with_True, rule keepsI)
    fix x s assume ok: "svc_ok s"
    show "svc_ok (snd (if k \<noteq> ZipTicket \<and> FileByID (ss_dropID x) k (sv_st s) = Inl StoreNotFound
      then fail ErrNotFound s
      else andThen (draw NewToken) (\<lambda>i. andThen clock (\<lambda>now.
       andThen (\<lambda>s. (Inr (), s\<lparr>sv_tickets := tab_put i
          \<lparr>tk_sessionToken = tok, tk_fileID = k, tk_expiresAt = now + ticketTTL\<rparr> (sv_tickets s)\<rparr>))
       (\<lambda>_. ret (i, now + ticketTTL)))) s))"
      using keeps_snd [OF mint ok] ok by (simp add: fail_def)
  qed
qed

lemma keeps_OpenTicket: "keeps (OpenTicket i off)"
  unfolding OpenTicket_def
  by (intro keeps_redeem [THEN triple_seq] triple_prod triple_if frame keeps_OpenFile)

lemma keeps_StatTicket: "keeps (StatTicket i)"
  unfolding StatTicket_def
  by (intro keeps_redeem [THEN triple_seq] triple_prod triple_if frame seq_getSession)
     (rule with_True, intro triple_seq [OF frame_notFound [OF frame_query]] seqs frame)

lemma svc_ok_archiveFiles: "svc_ok s \<Longrightarrow> svc_ok (snd (archiveFiles tok used fs s))"
proof (induction fs arbitrary: used s)
  case (Cons f fs)
  have "svc_ok (snd (OpenFile tok (uf_ID f) 0 s))" by (rule keeps_snd [OF keeps_OpenFile Cons.prems])
  then show ?case
    by (auto split: prod.splits sum.splits option.splits) (metis Cons.IH snd_conv)
qed simp

lemma svc_ok_WriteArchive:
  assumes "svc_ok s"
  shows "svc_ok (snd (WriteArchive i s))"
proof -
  obtain r s1 where r: "redeem i s = (r, s1)" by (cases "redeem i s") auto
  have s1: "svc_ok s1" using keeps_snd [OF keeps_redeem assms, of i] r by simp
  have "svc_ok (snd (SessionFiles tok s1))" for tok by (rule keeps_snd [OF keeps_reads(2) s1])
  then show ?thesis
    using r s1 svc_ok_archiveFiles
    by (auto simp: WriteArchive_def split: prod.splits sum.splits) (metis snd_conv)+
qed

lemma svc_ok_ReportAct:
  assumes "svc_ok s"
  shows "svc_ok (snd (ReportAct key reason who ip s))"
proof -
  have report: "svc_ok (snd (db_err (CreateReport rp) x))" if "svc_ok x" for rp x
    by (rule keeps_snd [OF triple_db_err that]) (simp add: st_ok_CreateReport)
  have block: "svc_ok (x\<lparr>sv_st := BlockDrop i t (sv_st x), sv_down := deleteByDrop i (sv_down x)\<rparr>)"
    if "svc_ok x" for x i t
    using that sessions_ok_mono [OF sessions_ok_deleteByDrop, of "drop_refs (sv_st x)" "sv_down x" i]
    by (auto simp: svc_ok_def st_ok_BlockDrop)
  show ?thesis
    using assms report block
    by (auto simp: ReportAct_def Let_def andThen_def clock_def db_upd_def fail_def split: sum.splits)
qed

lemma svc_ok_sweepDrops: "svc_ok s \<Longrightarrow> svc_ok (snd (snd (sweepDrops ds s)))"
proof (induction ds arbitrary: s)
  case (Cons d ds)
  have "svc_ok (snd (DeleteDropAct d s))" by (rule svc_ok_DeleteDropAct [OF Cons.prems])
  with Cons.IH show ?case by (auto split: prod.splits sum.splits) (metis snd_conv)+
qed simp

lemma svc_ok_Sweep:
  assumes "svc_ok s"
  shows "svc_ok (snd (Sweep s))"
proof -
  let ?s1 = "s\<lparr>sv_down := snd (sweepSessions (sv_now s) (sv_down s)),
    sv_tickets := snd (sweepTickets (sv_now s) (sv_tickets s))\<rparr>"
  have "sessions_ok (drop_refs (sv_st s)) (snd (sweepSessions (sv_now s) (sv_down s)))"
    by (rule sessions_ok_subset [OF _ sessions.clear_distinct sessions.clear_shrinks])
       (use assms in \<open>simp_all add: svc_ok_def sessions_ok_def\<close>)
  then have "svc_ok ?s1"
    using assms tickets.clear_distinct [of "sv_tickets s" "sv_now s"] by (simp add: svc_ok_def)
  from svc_ok_sweepDrops [OF this] show ?thesis
    by (simp add: Sweep_def Let_def case_prod_unfold)
qed

lemma svc_ok_Lock: "svc_ok s \<Longrightarrow> svc_ok (Lock tok s)"
  by (auto simp: Lock_def deleteSession_def svc_ok_def sessions_ok_def distinct_tab_delete)
     (auto simp: tab_delete_def)

subsection \<open>Runs of the service\<close>

text \<open>
  One constructor per public operation, with any arguments; besides, time passes, the host
  touches the disk and the random source refills.  A restart keeps only the database.
\<close>

inductive svc_op :: "kdf \<Rightarrow> interp \<Rightarrow> service \<Rightarrow> service \<Rightarrow> bool" for K ip where
  start: "svc_op K ip s (snd (StartUpload K ip req s))"
| state: "svc_op K ip s (snd (UploadState K i tok s))"
| write_parts: "svc_op K ip s (snd (WriteParts K i tok k off ps bf room s))"
| finish: "svc_op K ip s (snd (FinishUpload K i tok s))"
| cancel: "svc_op K ip s (snd (CancelUpload K i tok s))"
| peek: "svc_op K ip s (snd (Peek key s))"
| unlock: "svc_op K ip s (snd (Unlock K key pw s))"
| lock: "svc_op K ip s (Lock tok s)"
| list_files: "svc_op K ip s (snd (SessionFiles tok s))"
| open_file: "svc_op K ip s (snd (OpenFile tok k off s))"
| delete_by_session: "svc_op K ip s (snd (DeleteBySession tok s))"
| issue: "svc_op K ip s (snd (IssueTicket tok k s))"
| open_ticket: "svc_op K ip s (snd (OpenTicket i off s))"
| stat_ticket: "svc_op K ip s (snd (StatTicket i s))"
| ticket_session: "svc_op K ip s (snd (TicketSession i s))"
| archive: "svc_op K ip s (snd (WriteArchive i s))"
| manage_status: "svc_op K ip s (snd (ManageStatus tok s))"
| manage_delete: "svc_op K ip s (snd (ManageDelete tok s))"
| report: "svc_op K ip s (snd (ReportAct key reason who addr s))"
| sweep: "svc_op K ip s (snd (Sweep s))"

inductive svc_step :: "kdf \<Rightarrow> interp \<Rightarrow> service \<Rightarrow> service \<Rightarrow> bool" for K ip where
  op: "svc_op K ip s s' \<Longrightarrow> svc_step K ip s s'"
| tick: "sv_now s \<le> t \<Longrightarrow> svc_step K ip s (s\<lparr>sv_now := t\<rparr>)"
| host: "svc_step K ip s (s\<lparr>sv_fs := fs, sv_rand := rnd\<rparr>)"
| restart: "New (sv_st s) cfg fs rnd now = Inr s' \<Longrightarrow> svc_step K ip s s'"

inductive svc_reachable :: "kdf \<Rightarrow> interp \<Rightarrow> service \<Rightarrow> bool" for K ip where
  init: "New empty_store cfg fs rnd now = Inr s \<Longrightarrow> svc_reachable K ip s"
| step: "svc_reachable K ip s \<Longrightarrow> svc_step K ip s s' \<Longrightarrow> svc_reachable K ip s'"

lemma st_ok_empty: "st_ok empty_store"
  by (simp add: st_ok_def store_ok_empty st_defs) (simp add: empty_store_def)

lemma svc_ok_New: "st_ok st \<Longrightarrow> New st cfg fs rnd now = Inr s \<Longrightarrow> svc_ok s"
  by (auto simp: New_def svc_ok_def sessions_ok_def split: option.splits if_splits)

lemmas keeps_ops = keeps_StartUpload keeps_UploadState keeps_WriteParts keeps_FinishUpload
  keeps_CancelUpload keeps_reads keeps_Unlock keeps_OpenFile keeps_DeleteBySession keeps_IssueTicket
  keeps_OpenTicket keeps_StatTicket keeps_redeem keeps_ManageDelete

lemma svc_ok_op: "svc_op K ip s s' \<Longrightarrow> svc_ok s \<Longrightarrow> svc_ok s'"
  by (induction rule: svc_op.induct) (simp_all add: keeps_ops [THEN keeps_snd] TicketSession_def svc_ok_Lock
      svc_ok_WriteArchive svc_ok_ReportAct svc_ok_Sweep)

lemma svc_ok_step: "svc_step K ip s s' \<Longrightarrow> svc_ok s \<Longrightarrow> svc_ok s'"
proof (induction rule: svc_step.induct)
  case (restart s cfg fs rnd now s')
  then show ?case by (auto simp: svc_ok_def [of s] intro: svc_ok_New)
qed (simp_all add: svc_ok_op, simp_all add: svc_ok_def)

lemma svc_ok_reachable: "svc_reachable K ip s \<Longrightarrow> svc_ok s"
  by (induction rule: svc_reachable.induct) (auto intro: svc_ok_New st_ok_empty svc_ok_step)

end
