(* ===== verification/Upload_Correct.thy ===== *)
theory Upload_Correct
  imports Service_Inv
begin

text \<open>
  What an upload part does to a file.  \<open>holds dek p b\<close> says that the blob \<open>b\<close> is an
  unfinished stream of exactly the plaintext \<open>p\<close>, \<open>sealed dek p b\<close> that it is a finished one.
  The theory relates \<open>WriteParts\<close> to the abstract operation "append to the plaintext".
\<close>

subsection \<open>Blobs and plaintexts\<close>

definition holds :: "bytes \<Rightarrow> bytes \<Rightarrow> bytes \<Rightarrow> bool" where
  "holds dek p b \<longleftrightarrow>
     (\<exists>pfx cs. good_key dek pfx \<and> full_chunks cs \<and> concat cs = p \<and> b = partial_of dek pfx cs)"

definition sealed :: "bytes \<Rightarrow> bytes \<Rightarrow> bytes \<Rightarrow> bool" where
  "sealed dek p b \<longleftrightarrow>
     (\<exists>pfx cs c. good_key dek pfx \<and> full_chunks cs \<and> length c \<le> ChunkSize \<and>
        concat cs @ c = p \<and> b = stream_of dek pfx cs c)"

definition authed :: "kdf \<Rightarrow> string \<Rightarrow> string \<Rightarrow> int \<Rightarrow> bytes \<Rightarrow> service \<Rightarrow> bool" where
  "authed K sid tok i dek s \<longleftrightarrow>
     (\<exists>u. UploadSessionByID sid (sv_now s) (sv_st s) = Inr u \<and> u_DropID u = i \<and>
          UnwrapKeyWithToken K (u_Wrapped u) tok ''upload'' = Inr dek)"

text \<open>The file record and its blob hold \<open>p\<close> so far.\<close>

definition progress :: "bytes \<Rightarrow> bytes \<Rightarrow> File \<Rightarrow> service \<Rightarrow> bool" where
  "progress dek p f s \<longleftrightarrow>
     f_Received f = int (length p) \<and> length p mod ChunkSize = 0 \<and>
     (if p = [] then f_BlobPath f \<in> fst ` set (fs_files (sv_fs s)) \<or> blobDir (f_BlobPath f) \<in> set (fs_dirs (sv_fs s))
      else \<exists>b. map_of (fs_files (sv_fs s)) (f_BlobPath f) = Some b \<and> holds dek p b)"

lemma authed_resolve:
  "authed K sid tok i dek s \<longleftrightarrow>
    (\<exists>u. resolveSession K sid tok s = (Inr (u, dek), s) \<and> u_DropID u = i)"
  by (auto simp: authed_def resolveSession_def andThen_def clock_def notFound_def query_def ret_def
      fail_def split: sum.splits)

lemma UnwrapKeyWithToken_length: "UnwrapKeyWithToken K w tok pp = Inr dek \<Longrightarrow> length dek = KeySize"
  by (auto simp: UnwrapKeyWithToken_def split: sum.splits if_splits)

lemma authed_key: "authed K sid tok i dek s \<Longrightarrow> length dek = KeySize"
  by (auto simp: authed_def dest: UnwrapKeyWithToken_length)

subsection \<open>Copying a part into a positioned writer\<close>

text \<open>What the writer has after taking in a part \<open>q\<close> of the plaintext.\<close>

lemma CopyBody_part:
  assumes "writer_at w k pfx cs []"
  obtains w' ds buf where "CopyBody w ss False lim 0 = (w', length (take lim (concat ss)), None)"
    and "writer_at w' k pfx (cs @ ds) buf" "take lim (concat ss) = concat ds @ buf"
    and "take lim (concat ss) \<noteq> [] \<longrightarrow> buf \<noteq> []"
proof -
  obtain w' ds buf where
    c: "CopyBody w ss False lim 0 = (w', 0 + min lim (length (concat ss)),
          if False \<and> length (concat ss) < lim then Some (Other ''read body'') else None)"
    and w': "writer_at w' k pfx (cs @ ds) buf" "[] @ take lim (concat ss) = concat ds @ buf"
      "[] @ take lim (concat ss) \<noteq> [] \<longrightarrow> buf \<noteq> []"
    using CopyBody_at [OF assms] by blast
  have "CopyBody w ss False lim 0 = (w', length (take lim (concat ss)), None)"
    using c by (simp add: min.commute)
  then show ?thesis by (rule that) (use w' in \<open>simp_all only: append_Nil\<close>)
qed

lemma buf_of_aligned:
  assumes "writer_at w k pfx (cs @ ds) buf" "q = concat ds @ buf" "q \<noteq> [] \<longrightarrow> buf \<noteq> []"
  shows "length q mod ChunkSize = 0 \<longleftrightarrow> buf = [] \<or> length buf = ChunkSize"
proof -
  have l: "length buf \<le> ChunkSize" "full_chunks ds" using writer_at_length [OF assms(1)] by simp_all
  have "length q mod ChunkSize = length buf mod ChunkSize"
    using assms(2) l(2) by (simp add: length_concat_full)
  also have "\<dots> = 0 \<longleftrightarrow> buf = [] \<or> length buf = ChunkSize"
    using l(1) by (auto simp: mod_if le_less)
  finally show ?thesis .
qed

lemma seal_aligned:
  assumes "writer_at w k pfx (cs @ ds) buf" "good_key k pfx" "q = concat ds @ buf"
    and "q \<noteq> [] \<longrightarrow> buf \<noteq> []" "length q mod ChunkSize = 0"
  obtains w' where "FlushFull w = (w', None)" "holds k (concat cs @ q) (sink_data (w_dst w'))"
proof (cases "buf = []")
  case True
  obtain w' where w': "FlushFull w = (w', None)" "writer_at w' k pfx (cs @ ds) []" "w_wroteHeader w'"
    using FlushFull_at_empty assms(1) True by blast
  have "holds k (concat cs @ q) (sink_data (w_dst w'))"
    unfolding holds_def
    by (intro exI [of _ pfx] exI [of _ "cs @ ds"]) (use w' assms True in \<open>auto simp: writer_at_def\<close>)
  with w'(1) show ?thesis by (rule that)
next
  case False
  then have "length buf = ChunkSize" using buf_of_aligned [OF assms(1,3,4)] assms(5) by blast
  then obtain w' where w': "FlushFull w = (w', None)" "writer_at w' k pfx ((cs @ ds) @ [buf]) []" "w_wroteHeader w'"
    using FlushFull_at_full assms(1) by blast
  have "holds k (concat cs @ q) (sink_data (w_dst w'))"
    unfolding holds_def
    by (intro exI [of _ pfx] exI [of _ "(cs @ ds) @ [buf]"]) (use w' assms in \<open>auto simp: writer_at_def\<close>)
  with w'(1) show ?thesis by (rule that)
qed

lemma seal_final:
  assumes "writer_at w k pfx (cs @ ds) buf" "good_key k pfx" "q = concat ds @ buf"
  obtains w' where "CloseWriter w = (w', None)" "sealed k (concat cs @ q) (sink_data (w_dst w'))"
proof -
  obtain w' where w': "CloseWriter w = (w', None)" "sink_data (w_dst w') = stream_of k pfx (cs @ ds) buf"
    using CloseWriter_at [OF assms(1)] by blast
  have "sealed k (concat cs @ q) (sink_data (w_dst w'))"
    unfolding sealed_def
    by (intro exI [of _ pfx] exI [of _ "cs @ ds"] exI [of _ buf])
       (use w' assms writer_at_length [OF assms(1)] in auto)
  with w'(1) show ?thesis by (rule that)
qed

subsection \<open>Positioning the writer\<close>

lemma newWriter_ok:
  assumes "length dek = KeySize" "noncePrefixSize \<le> length (sv_rand s)"
  obtains w pfx where "newWriter \<lparr>sink_data = [], sink_room = None\<rparr> dek s =
      (Inr w, s\<lparr>sv_rand := drop noncePrefixSize (sv_rand s)\<rparr>)"
    and "writer_at w dek pfx [] []" "good_key dek pfx"
proof -
  let ?pfx = "take noncePrefixSize (sv_rand s)"
  obtain w where w: "NewWriter \<lparr>sink_data = [], sink_room = None\<rparr> dek ?pfx = Inr w" "writer_at w dek ?pfx [] []"
    using NewWriter_at [OF assms(1)] by blast
  have "newWriter \<lparr>sink_data = [], sink_room = None\<rparr> dek s =
      (Inr w, s\<lparr>sv_rand := drop noncePrefixSize (sv_rand s)\<rparr>)"
    using assms w(1) by (simp add: newWriter_def newGCM_def andThen_def draw_def rand_Read_def lift_res_def)
  moreover have "good_key dek ?pfx" using assms by (simp add: good_key_def)
  ultimately show ?thesis using w(2) that by blast
qed

lemma writerAt_start:
  assumes "length dek = KeySize" "noncePrefixSize \<le> length (sv_rand s)"
  obtains w pfx s' where "writerAt path c dek 0 None s = (Inr w, s')"
    and "s' = (snd (setBlob path [] s))\<lparr>sv_rand := drop noncePrefixSize (sv_rand s)\<rparr>"
    and "writer_at w dek pfx [] []" "good_key dek pfx"
proof -
  let ?s1 = "snd (setBlob path [] s)"
  have r: "sv_rand ?s1 = sv_rand s" by (simp add: setBlob_def)
  obtain w pfx where w: "newWriter \<lparr>sink_data = [], sink_room = None\<rparr> dek ?s1 =
      (Inr w, ?s1\<lparr>sv_rand := drop noncePrefixSize (sv_rand ?s1)\<rparr>)"
    "writer_at w dek pfx [] []" "good_key dek pfx"
    using newWriter_ok [of dek ?s1] assms r by metis
  have "writerAt path c dek 0 None s = (Inr w, ?s1\<lparr>sv_rand := drop noncePrefixSize (sv_rand s)\<rparr>)"
    using w(1) r by (simp add: writerAt_def andThen_def setBlob_def)
  then show ?thesis using w(2,3) that by blast
qed

lemma writerAt_resume:
  assumes "good_key dek pfx" "full_chunks cs" "cs \<noteq> []"
  obtains w where "writerAt path (partial_of dek pfx cs) dek (int (length (concat cs))) None s =
      (Inr w, snd (setBlob path (partial_of dek pfx cs) s))"
    and "writer_at w dek pfx cs []" "w_wroteHeader w"
proof -
  let ?c = "partial_of dek pfx cs"
  have al: "AlignDown (int (length ?c)) = int (length ?c)"
    using AlignDown_nat [of "length cs" 0] length_partial_of [OF assms(1,2)] by simp
  obtain w where w: "NewResumeWriter \<lparr>sink_data = ?c, sink_room = None\<rparr> dek
       \<lparr>NoncePrefix = pfx, NextIndex = of_nat (length cs), PlaintextLen = int (length (concat cs))\<rparr> = Inr w"
    "writer_at w dek pfx cs []" "w_wroteHeader w"
    using NewResumeWriter_at [OF assms(1,2)] by blast
  have "0 < length cs * ChunkSize" using assms(3) by (simp add: size_defs)
  then have nz: "int (length (concat cs)) \<noteq> 0" using assms(2) by (simp only: length_concat_full)
  have "writerAt path ?c dek (int (length (concat cs))) None s =
      (Inr w, snd (setBlob path ?c s))"
    using w(1) InspectPartial_partial [OF assms(1,2)]
    unfolding writerAt_def if_not_P [OF nz] by (simp add: al Let_def andThen_def setBlob_def lift_res_def)
  then show ?thesis using w(2,3) that by blast
qed

subsection \<open>Frames\<close>

text \<open>Nothing but the blob at \<open>path\<close> and the random tape differ.\<close>

definition only_blob :: "string \<Rightarrow> service \<Rightarrow> service \<Rightarrow> bool" where
  "only_blob path s s' \<longleftrightarrow>
     sv_st s' = sv_st s \<and> sv_cfg s' = sv_cfg s \<and> sv_down s' = sv_down s \<and>
     sv_tickets s' = sv_tickets s \<and> sv_now s' = sv_now s \<and>
     fs_dirs (sv_fs s') = fs_dirs (sv_fs s) \<and> fs_denied (sv_fs s') = fs_denied (sv_fs s) \<and>
     (\<forall>q. q \<noteq> path \<longrightarrow> map_of (fs_files (sv_fs s')) q = map_of (fs_files (sv_fs s)) q)"

definition blob :: "string \<Rightarrow> service \<Rightarrow> bytes option" where
  "blob path s = map_of (fs_files (sv_fs s)) path"

text \<open>A part draws at most one nonce prefix.\<close>

definition drew :: "service \<Rightarrow> service \<Rightarrow> bool" where
  "drew s s' \<longleftrightarrow> length (sv_rand s) \<le> length (sv_rand s') + noncePrefixSize"

lemma drew_setBlob [simp]: "drew s (snd (setBlob path b s')) = drew s s'"
  by (simp add: drew_def setBlob_def)

lemma drew_st [simp]: "drew s (s'\<lparr>sv_st := st\<rparr>) = drew s s'"
  by (simp add: drew_def)

lemma only_blob_refl [simp]: "only_blob path s s"
  by (simp add: only_blob_def)

lemma only_blob_trans: "only_blob path s s' \<Longrightarrow> only_blob path s' s'' \<Longrightarrow> only_blob path s s''"
  by (simp add: only_blob_def)

lemma setBlob_eq: "setBlob path b s = (Inr (), snd (setBlob path b s))"
  by (simp add: setBlob_def)

lemma only_blob_setBlob: "only_blob path s (snd (setBlob path b s))"
  by (simp add: only_blob_def setBlob_def map_of_tab_put)

lemma blob_setBlob [simp]: "blob path (snd (setBlob path b s)) = Some b"
  by (simp add: blob_def setBlob_def map_of_tab_put)

lemma only_blob_rand: "only_blob path s s' \<Longrightarrow> only_blob path s (s'\<lparr>sv_rand := t\<rparr>)"
  by (simp add: only_blob_def)

lemma openCreate_ok:
  assumes "path \<in> fst ` set (fs_files (sv_fs s)) \<or> blobDir path \<in> set (fs_dirs (sv_fs s))"
  obtains b s' where "openCreate path s = (Inr b, s')" "only_blob path s s'" "sv_rand s' = sv_rand s"
    "blob path s' = Some b" "blob path s = Some b \<or> blob path s = None \<and> b = []"
proof (cases "map_of (fs_files (sv_fs s)) path")
  case None
  then have "blobDir path \<in> set (fs_dirs (sv_fs s))" using assms by (auto simp: map_of_eq_None_iff)
  then have "openCreate path s = (Inr [], snd (setBlob path [] s))"
    using None by (simp add: openCreate_def andThen_def setBlob_def ret_def)
  then show ?thesis
    by (rule that) (use None in \<open>simp_all add: only_blob_setBlob, simp_all add: setBlob_def blob_def\<close>)
next
  case (Some b)
  then have "openCreate path s = (Inr b, s)" by (simp add: openCreate_def)
  then show ?thesis by (rule that) (use Some in \<open>simp_all add: blob_def\<close>)
qed

text \<open>The writer \<open>WriteParts\<close> works with continues the stream of \<open>p\<close>.\<close>

lemma positioned:
  assumes "progress dek p f s" "length dek = KeySize" "noncePrefixSize \<le> length (sv_rand s)"
  obtains b s1 w s2 pfx cs where "openCreate (f_BlobPath f) s = (Inr b, s1)"
    "writerAt (f_BlobPath f) b dek (f_Received f) None s1 = (Inr w, s2)"
    "only_blob (f_BlobPath f) s s2" "writer_at w dek pfx cs []" "good_key dek pfx" "concat cs = p"
    "p \<noteq> [] \<longrightarrow> w_wroteHeader w" "drew s s2"
proof -
  let ?path = "f_BlobPath f"
  have rec: "f_Received f = int (length p)" using assms(1) by (simp add: progress_def)
  show ?thesis
  proof (cases "p = []")
    case True
    then have "?path \<in> fst ` set (fs_files (sv_fs s)) \<or> blobDir ?path \<in> set (fs_dirs (sv_fs s))"
      using assms(1) by (simp add: progress_def)
    then obtain b s1 where o1: "openCreate ?path s = (Inr b, s1)" "only_blob ?path s s1" "sv_rand s1 = sv_rand s"
      using openCreate_ok by metis
    obtain w pfx s2 where w: "writerAt ?path b dek 0 None s1 = (Inr w, s2)"
      "s2 = (snd (setBlob ?path [] s1))\<lparr>sv_rand := drop noncePrefixSize (sv_rand s1)\<rparr>"
      "writer_at w dek pfx [] []" "good_key dek pfx"
      using writerAt_start [OF assms(2), of s1 ?path b] assms(3) o1(3) by metis
    have "only_blob ?path s s2"
      unfolding w(2) by (intro only_blob_rand only_blob_trans [OF o1(2)] only_blob_setBlob)
    moreover have "drew s s2" using o1(3) by (simp add: w(2) drew_def)
    ultimately show ?thesis 
      using o1(1) w(1,3,4) rec True by (intro that [of b s1 w s2 pfx "[]"]) simp_all
  next
    case False
    then obtain b where b: "blob ?path s = Some b" "holds dek p b"
      using assms(1) by (auto simp: progress_def blob_def)
    then obtain pfx cs where h: "good_key dek pfx" "full_chunks cs" "concat cs = p" "b = partial_of dek pfx cs"
      by (auto simp: holds_def)
    have "openCreate ?path s = (Inr b, s)" using b(1) by (simp add: openCreate_def blob_def)
    moreover have "cs \<noteq> []" using h(3) False by auto
    then obtain w where w: "writerAt ?path b dek (int (length p)) None s = (Inr w, snd (setBlob ?path b s))"
      "writer_at w dek pfx cs []" "w_wroteHeader w"
      using writerAt_resume [OF h(1,2)] h(3,4) by metis
    ultimately show ?thesis
      using rec h by (intro that [of b s w "snd (setBlob ?path b s)" pfx cs])
        (simp_all add: only_blob_setBlob, simp add: drew_def)
  qed
qed

subsection \<open>One part\<close>

lemma WriteParts_copied:
  fixes pieces :: "bytes list"
  assumes "authed K sid tok i dek s" "FileByID i k (sv_st s) = Inr f"
    and "progress dek p f s" "f_Received f < f_Size f" "f_Size f < 2 ^ 62"
    and "noncePrefixSize \<le> length (sv_rand s)"
  defines "q \<equiv> take (nat (f_Size f) - length p) (concat pieces)"
  obtains w s2 pfx cs ds buf where
    "WriteParts K sid tok k (int (length p)) pieces False None s =
       sealPart (f_BlobPath f) (int (length p)) (f_Size f) w k (int (length p + length q)) s2"
    "only_blob (f_BlobPath f) s s2" "good_key dek pfx" "writer_at w dek pfx (cs @ ds) buf"
    "concat cs = p" "q = concat ds @ buf" "q \<noteq> [] \<longrightarrow> buf \<noteq> []" "p \<noteq> [] \<longrightarrow> w_wroteHeader w" "drew s s2"
proof -
  obtain u where u: "resolveSession K sid tok s = (Inr (u, dek), s)" "u_DropID u = i"
    using assms(1) authed_resolve by blast
  have rec: "f_Received f = int (length p)" using assms(3) by (simp add: progress_def)
  obtain b s1 w0 s2 pfx cs where o: "openCreate (f_BlobPath f) s = (Inr b, s1)"
    "writerAt (f_BlobPath f) b dek (f_Received f) None s1 = (Inr w0, s2)"
    "only_blob (f_BlobPath f) s s2" "writer_at w0 dek pfx cs []" "good_key dek pfx" "concat cs = p"
    "p \<noteq> [] \<longrightarrow> w_wroteHeader w0" "drew s s2"
    using positioned [OF assms(3) authed_key [OF assms(1)] assms(6)] by blast
  have rem: "nat (i64 (f_Size f - int (length p))) = nat (f_Size f) - length p"
    using assms(4,5) rec by (simp add: nat_diff_distrib)
  obtain w ds buf where c: "CopyBody w0 pieces False (nat (f_Size f) - length p) 0 = (w, length q, None)"
    "writer_at w dek pfx (cs @ ds) buf" "q = concat ds @ buf" "q \<noteq> [] \<longrightarrow> buf \<noteq> []"
    using CopyBody_part [OF o(4), of pieces "nat (f_Size f) - length p"] unfolding q_def by blast
  have "length q \<le> nat (f_Size f) - length p" by (simp add: q_def)
  then have len: "i64 (int (length p) + int (length q)) = int (length p + length q)"
    using assms(4,5) rec by (subst i64_id) auto
  have "WriteParts K sid tok k (int (length p)) pieces False None s =
      sealPart (f_BlobPath f) (int (length p)) (f_Size f) w k (int (length p + length q)) s2"
    using u assms(2,4) rec o(1,2) c(1) rem len
    by (simp add: WriteParts_def andThen_def notFound_def query_def Let_def)
  moreover have "p \<noteq> [] \<longrightarrow> w_wroteHeader w"
    using o(7) c(2) by (cases "w_wroteHeader w") (auto simp: writer_at_def o(6) [symmetric])
  ultimately show ?thesis using o(3,5,6,8) c(2-4) that by blast
qed

text \<open>The three outcomes: a final part, an aligned part, and an unaligned part.\<close>

lemma SetReceived_blob: "only_blob path s s' \<Longrightarrow> only_blob path (s\<lparr>sv_st := f (sv_st s)\<rparr>) (s'\<lparr>sv_st := f (sv_st s')\<rparr>)"
  by (simp add: only_blob_def)

lemma WriteParts_final:
  fixes pieces :: "bytes list"
  assumes "authed K sid tok i dek s" "FileByID i k (sv_st s) = Inr f"
    and "progress dek p f s" "f_Received f < f_Size f" "f_Size f < 2 ^ 62"
    and "noncePrefixSize \<le> length (sv_rand s)"
    and "f_Size f \<le> int (length p + length (concat pieces))"
  defines "c \<equiv> take (nat (f_Size f)) (p @ concat pieces)"
  shows "\<exists>s' b. WriteParts K sid tok k (int (length p)) pieces False None s = (Inr (f_Size f), s') \<and>
    only_blob (f_BlobPath f) (s\<lparr>sv_st := SetReceived k (f_Size f) (sv_st s)\<rparr>) s' \<and>
    blob (f_BlobPath f) s' = Some b \<and> sealed dek c b \<and> drew s s'"
proof -
  let ?q = "take (nat (f_Size f) - length p) (concat pieces)" and ?path = "f_BlobPath f"
  obtain w s2 pfx cs ds buf where w: "WriteParts K sid tok k (int (length p)) pieces False None s =
       sealPart ?path (int (length p)) (f_Size f) w k (int (length p + length ?q)) s2"
    "only_blob ?path s s2" "good_key dek pfx" "writer_at w dek pfx (cs @ ds) buf"
    "concat cs = p" "?q = concat ds @ buf" "drew s s2"
    by (rule WriteParts_copied [OF assms(1-6), of pieces])
  have "length p \<le> nat (f_Size f)" using assms(3,4) by (simp add: progress_def)
  then have c: "p @ ?q = c" and len: "int (length p + length ?q) = f_Size f"
    using assms(4,7) assms(3) by (auto simp: c_def progress_def)
  obtain w' where w': "CloseWriter w = (w', None)" "sealed dek (concat cs @ ?q) (sink_data (w_dst w'))"
    using seal_final [OF w(4,3,6)] by blast
  let ?b = "sink_data (w_dst w')"
  let ?s3 = "snd (setBlob ?path ?b s2)"
  let ?s' = "?s3\<lparr>sv_st := SetReceived k (f_Size f) (sv_st ?s3)\<rparr>"
  have "WriteParts K sid tok k (int (length p)) pieces False None s = (Inr (f_Size f), ?s')"
    unfolding w(1) len by (simp add: sealPart_def Let_def w'(1) andThen_def setBlob_def db_upd_def ret_def)
  moreover have "only_blob ?path (s\<lparr>sv_st := SetReceived k (f_Size f) (sv_st s)\<rparr>) ?s'"
    by (intro SetReceived_blob only_blob_trans [OF w(2)] only_blob_setBlob)
  moreover have "blob ?path ?s' = Some ?b" using blob_setBlob [of ?path ?b s2] by (simp add: blob_def)
  moreover have "drew s ?s'" using w(7) by simp
  ultimately show ?thesis using w'(2) unfolding w(5) c by blast
qed

lemma WriteParts_aligned:
  fixes pieces :: "bytes list"
  assumes "authed K sid tok i dek s" "FileByID i k (sv_st s) = Inr f"
    and "progress dek p f s" "f_Received f < f_Size f" "f_Size f < 2 ^ 62"
    and "noncePrefixSize \<le> length (sv_rand s)"
    and "int (length p + length (concat pieces)) < f_Size f" "length (concat pieces) mod ChunkSize = 0"
  defines "n \<equiv> int (length p + length (concat pieces))"
  shows "\<exists>s' b. WriteParts K sid tok k (int (length p)) pieces False None s = (Inr n, s') \<and>
    only_blob (f_BlobPath f) (s\<lparr>sv_st := SetReceived k n (sv_st s)\<rparr>) s' \<and>
    blob (f_BlobPath f) s' = Some b \<and> holds dek (p @ concat pieces) b \<and> drew s s'"
proof -
  let ?path = "f_BlobPath f" and ?q = "concat pieces"
  have q: "take (nat (f_Size f) - length p) (concat pieces) = ?q" using assms(7) by simp
  obtain w s2 pfx cs ds buf where w: "WriteParts K sid tok k (int (length p)) pieces False None s =
       sealPart ?path (int (length p)) (f_Size f) w k n s2"
    "only_blob ?path s s2" "good_key dek pfx" "writer_at w dek pfx (cs @ ds) buf"
    "concat cs = p" "?q = concat ds @ buf" "?q \<noteq> [] \<longrightarrow> buf \<noteq> []" "drew s s2"
    by (rule WriteParts_copied [OF assms(1-6), of pieces, unfolded q, folded n_def])
  obtain w' where w': "FlushFull w = (w', None)" "holds dek (concat cs @ ?q) (sink_data (w_dst w'))"
    using seal_aligned [OF w(4,3,6,7) assms(8)] by blast
  let ?b = "sink_data (w_dst w')"
  let ?s3 = "snd (setBlob ?path ?b s2)"
  let ?s' = "?s3\<lparr>sv_st := SetReceived k n (sv_st ?s3)\<rparr>"
  have "\<not> n \<ge> f_Size f" using assms(7) by (simp add: n_def)
  then have "WriteParts K sid tok k (int (length p)) pieces False None s = (Inr n, ?s')"
    unfolding w(1) by (simp add: sealPart_def Let_def w'(1) andThen_def setBlob_def db_upd_def ret_def)
  moreover have "only_blob ?path (s\<lparr>sv_st := SetReceived k n (sv_st s)\<rparr>) ?s'"
    by (intro SetReceived_blob only_blob_trans [OF w(2)] only_blob_setBlob)
  moreover have "blob ?path ?s' = Some ?b" using blob_setBlob [of ?path ?b s2] by (simp add: blob_def)
  moreover have "drew s ?s'" using w(8) by simp
  ultimately show ?thesis using w'(2) unfolding w(5) by blast
qed

text \<open>
  An unaligned part that does not complete the file is refused and rolled back: what was
  received before still is, and the blob again holds exactly that.
\<close>

lemma ciphertextLenFor_chunks:
  assumes "full_chunks cs" "int (length (concat cs)) < 2 ^ 62"
  shows "ciphertextLenFor (int (length (concat cs))) = int (headerSize + length cs * (ChunkSize + TagSize))"
proof -
  have l: "length (concat cs) = length cs * ChunkSize" using assms(1) by (rule length_concat_full)
  have b: "int (length cs) < 2 ^ 42" using assms(2) unfolding l by (simp add: ChunkSize_def)
  have d: "int (length (concat cs)) sdiv int ChunkSize = int (length cs)"
    unfolding l sdiv_nat by (simp add: ChunkSize_def)
  show ?thesis
    unfolding ciphertextLenFor_def d using b by (simp add: headerLen_def size_defs ChunkSize_def)
qed

lemma WriteParts_unaligned:
  fixes pieces :: "bytes list"
  assumes "authed K sid tok i dek s" "FileByID i k (sv_st s) = Inr f"
    and "progress dek p f s" "f_Received f < f_Size f" "f_Size f < 2 ^ 62"
    and "noncePrefixSize \<le> length (sv_rand s)"
    and "int (length p + length (concat pieces)) < f_Size f" "length (concat pieces) mod ChunkSize \<noteq> 0"
  shows "\<exists>s'. WriteParts K sid tok k (int (length p)) pieces False None s = (Inl ErrInvalid, s') \<and>
    only_blob (f_BlobPath f) s s' \<and> progress dek p f s' \<and> drew s s'"
proof -
  let ?path = "f_BlobPath f" and ?q = "concat pieces" and ?n = "int (length p + length (concat pieces))"
  have q: "take (nat (f_Size f) - length p) (concat pieces) = ?q" using assms(7) by simp
  obtain w s2 pfx cs ds buf where w: "WriteParts K sid tok k (int (length p)) pieces False None s =
       sealPart ?path (int (length p)) (f_Size f) w k ?n s2"
    "only_blob ?path s s2" "good_key dek pfx" "writer_at w dek pfx (cs @ ds) buf"
    "concat cs = p" "?q = concat ds @ buf" "?q \<noteq> [] \<longrightarrow> buf \<noteq> []" "p \<noteq> [] \<longrightarrow> w_wroteHeader w" "drew s s2"
    by (rule WriteParts_copied [OF assms(1-6), of pieces, unfolded q])
  have un: "FlushFull w = (w, Some CryptoUnaligned)"
    by (rule FlushFull_unaligned [OF w(4)]) (use buf_of_aligned [OF w(4,6,7)] assms(8) in auto)
  let ?b = "Truncate (ciphertextLenFor (int (length p))) (sink_data (w_dst w))"
  let ?s' = "snd (setBlob ?path ?b s2)"
  have "\<not> ?n \<ge> f_Size f" using assms(7) by simp
  then have run: "WriteParts K sid tok k (int (length p)) pieces False None s = (Inl ErrInvalid, ?s')"
    unfolding w(1) by (simp add: sealPart_def Let_def un andThen_def setBlob_def fail_def)
  have fr: "only_blob ?path s ?s'" by (intro only_blob_trans [OF w(2)] only_blob_setBlob)
  have fc: "full_chunks cs" "full_chunks (cs @ ds)" using writer_at_length [OF w(4)] by simp_all
  have "holds dek p ?b" if "p \<noteq> []"
  proof -
    have sd: "sink_data (w_dst w) = partial_of dek pfx (cs @ ds)"
      using w(4,8) that by (simp add: writer_at_def)
    have lp: "int (length (concat cs)) < 2 ^ 62" using assms(3-5) w(5) by (simp add: progress_def)
    have "?b = take (headerSize + length cs * (ChunkSize + TagSize)) (partial_of dek pfx (cs @ ds))"
      unfolding w(5) [symmetric] ciphertextLenFor_chunks [OF fc(1) lp] sd
      by (simp add: Truncate_def nat_add_distrib nat_mult_distrib length_partial_of [OF w(3) fc(2)]
          algebra_simps)
    also have "\<dots> = partial_of dek pfx cs"
      using partial_prefix [OF w(3) fc(2), of "length cs"] by simp
    finally show ?thesis unfolding holds_def using w(3,5) fc(1) by blast
  qed
  moreover have "blob ?path ?s' = Some ?b" by simp
  moreover have "?path \<in> fst ` set (fs_files (sv_fs ?s'))" by (simp add: setBlob_def tab_put_def)
  ultimately have "progress dek p f ?s'" using assms(3) by (cases "p = []") (simp_all add: progress_def blob_def)
  moreover have "drew s ?s'" using w(9) by simp
  ultimately show ?thesis using run fr by blast
qed

subsection \<open>The abstract operation\<close>

text \<open>
  Appending a body to a file of \<open>n\<close> bytes of which \<open>p\<close> is there: the file takes no more than
  it needs, and a part that leaves the file short must be whole chunks.
\<close>

definition append_part :: "nat \<Rightarrow> bytes \<Rightarrow> bytes \<Rightarrow> bytes res" where
  "append_part n p body =
     (if length (p @ body) < n \<and> length body mod ChunkSize \<noteq> 0 then Inl ErrInvalid
      else Inr (take n (p @ body)))"

text \<open>A file record and its blob represent the plaintext \<open>c\<close>.\<close>

definition file_has :: "bytes \<Rightarrow> bytes \<Rightarrow> File \<Rightarrow> service \<Rightarrow> bool" where
  "file_has dek c f s \<longleftrightarrow>
     int (length c) \<le> f_Size f \<and> f_Size f < 2 ^ 61 \<and>
     (if int (length c) < f_Size f then progress dek c f s
      else f_Received f = f_Size f \<and> (\<exists>b. blob (f_BlobPath f) s = Some b \<and> sealed dek c b))"

lemma file_has_received: "file_has dek c f s \<Longrightarrow> f_Received f = int (length c)"
  by (auto simp: file_has_def progress_def split: if_splits)

lemma FileByID_SetReceived:
  assumes "FileByID i k st = Inr f"
  shows "FileByID i k (SetReceived k n st) = Inr (f\<lparr>f_Received := n\<rparr>)"
proof -
  have "find (\<lambda>f. f_ID f = k \<and> f_DropID f = i) (files st) = Some f"
    using assms by (cases "find (\<lambda>f. f_ID f = k \<and> f_DropID f = i) (files st)") (simp_all add: FileByID_def)
  then have "find (\<lambda>f. f_ID f = k \<and> f_DropID f = i)
      (update_where (\<lambda>f. f_ID f = k) (\<lambda>f. f\<lparr>f_Received := n\<rparr>) (files st)) = Some (f\<lparr>f_Received := n\<rparr>)"
    by (subst find_update_where_sub) simp_all
  then show ?thesis by (simp add: FileByID_def SetReceived_def)
qed

lemma WriteParts_refines:
  assumes "authed K sid tok i dek s" "FileByID i k (sv_st s) = Inr f" "file_has dek p f s"
    and "int (length p) < f_Size f" "noncePrefixSize \<le> length (sv_rand s)"
  shows "\<exists>s'. WriteParts K sid tok k (int (length p)) pieces False None s =
      (map_sum id (\<lambda>c. int (length c)) (append_part (nat (f_Size f)) p (concat pieces)), s') \<and> drew s s' \<and>
    (case append_part (nat (f_Size f)) p (concat pieces) of
       Inl e \<Rightarrow> only_blob (f_BlobPath f) s s' \<and> file_has dek p f s'
     | Inr c \<Rightarrow> only_blob (f_BlobPath f) (s\<lparr>sv_st := SetReceived k (int (length c)) (sv_st s)\<rparr>) s' \<and>
         file_has dek c (f\<lparr>f_Received := int (length c)\<rparr>) s')"
proof -
  have p: "progress dek p f s" and sz: "f_Size f < 2 ^ 62" and rec: "f_Received f < f_Size f"
    using assms(3,4) file_has_received [OF assms(3)] by (simp_all add: file_has_def)
  let ?all = "length p + length (concat pieces)"
  note W = assms(1,2) p rec sz assms(5)
  consider "f_Size f \<le> int ?all" | "int ?all < f_Size f" "length (concat pieces) mod ChunkSize = 0"
    | "int ?all < f_Size f" "length (concat pieces) mod ChunkSize \<noteq> 0" by linarith
  then show ?thesis
  proof cases
    case 1
    define c where "c = take (nat (f_Size f)) (p @ concat pieces)"
    have ap: "append_part (nat (f_Size f)) p (concat pieces) = Inr c"
      using 1 by (simp add: append_part_def c_def)
    have len: "int (length c) = f_Size f" using 1 rec p by (simp add: progress_def c_def)
    from WriteParts_final [OF W 1] obtain s' b where
      "WriteParts K sid tok k (int (length p)) pieces False None s = (Inr (f_Size f), s')"
      "only_blob (f_BlobPath f) (s\<lparr>sv_st := SetReceived k (f_Size f) (sv_st s)\<rparr>) s'"
      "blob (f_BlobPath f) s' = Some b" "sealed dek c b" "drew s s'" unfolding c_def by blast
    with len assms(3) show ?thesis unfolding ap by (intro exI [of _ s']) (simp add: file_has_def)
  next
    case 2
    let ?c = "p @ concat pieces"
    have ap: "append_part (nat (f_Size f)) p (concat pieces) = Inr ?c"
      using 2 by (simp add: append_part_def)
    from WriteParts_aligned [OF W 2] obtain s' b where s':
      "WriteParts K sid tok k (int (length p)) pieces False None s = (Inr (int ?all), s')"
      "only_blob (f_BlobPath f) (s\<lparr>sv_st := SetReceived k (int ?all) (sv_st s)\<rparr>) s'"
      "blob (f_BlobPath f) s' = Some b" "holds dek ?c b" "drew s s'" by blast
    have "length ?c mod ChunkSize = 0"
      using 2(2) p by (auto simp: progress_def mod_add_eq [symmetric, of "length p"])
    moreover have "blob (f_BlobPath f) s' = Some b \<Longrightarrow> f_BlobPath f \<in> fst ` set (fs_files (sv_fs s'))"
      by (force simp: blob_def dest: map_of_SomeD)
    ultimately have "file_has dek ?c (f\<lparr>f_Received := int ?all\<rparr>) s'"
      using 2(1) assms(3) s'(3,4) by (auto simp: file_has_def progress_def blob_def)
    with s'(1,2,5) show ?thesis unfolding ap by (intro exI [of _ s']) simp
  next
    case 3
    have ap: "append_part (nat (f_Size f)) p (concat pieces) = Inl ErrInvalid"
      using 3 by (simp add: append_part_def)
    from WriteParts_unaligned [OF W 3] obtain s' where
      "WriteParts K sid tok k (int (length p)) pieces False None s = (Inl ErrInvalid, s')"
      "only_blob (f_BlobPath f) s s'" "progress dek p f s'" "drew s s'" by blast
    with assms(3,4) show ?thesis unfolding ap by (intro exI [of _ s']) (simp add: file_has_def)
  qed
qed

end
