(* ===== verification/Share_Correct.thy ===== *)
theory Share_Correct
  imports Upload_Correct
begin

text \<open>
  From an upload to its download.  A client's whole upload is \<open>send_all\<close>, which sends every
  file of a share part by part; the theory shows what the server holds after it, that
  finishing publishes it, and that unlocking with the password and opening a file then
  delivers the bytes that were sent.
\<close>

subsection \<open>A client's upload\<close>

fun send_file :: "kdf \<Rightarrow> string \<Rightarrow> string \<Rightarrow> int \<Rightarrow> int \<Rightarrow> bytes list list \<Rightarrow> int act" where
  "send_file K sid tok k off [] = ret off"
| "send_file K sid tok k off (part # parts) =
     andThen (WriteParts K sid tok k off part False None) (\<lambda>n. send_file K sid tok k n parts)"

fun send_all :: "kdf \<Rightarrow> string \<Rightarrow> string \<Rightarrow> (int \<times> bytes list list) list \<Rightarrow> unit act" where
  "send_all K sid tok [] = ret ()"
| "send_all K sid tok ((k, parts) # jobs) =
     andThen (send_file K sid tok k 0 parts) (\<lambda>_. send_all K sid tok jobs)"

text \<open>All parts but the last are whole chunks.\<close>

fun whole_parts :: "bytes list list \<Rightarrow> bool" where
  "whole_parts [] = True"
| "whole_parts [part] = True"
| "whole_parts (part # parts) = (length (concat part) mod ChunkSize = 0 \<and> whole_parts parts)"

definition body :: "bytes list list \<Rightarrow> bytes" where
  "body parts = concat (map concat parts)"

subsection \<open>Frames\<close>

text \<open>Only file \<open>k\<close>'s received length, the blob at \<open>path\<close> and the random tape differ.\<close>

definition touched :: "int \<Rightarrow> string \<Rightarrow> service \<Rightarrow> service \<Rightarrow> bool" where
  "touched k path s s' \<longleftrightarrow>
     (\<exists>h. only_blob path
        (s\<lparr>sv_st := (sv_st s)\<lparr>files := update_where (\<lambda>f. f_ID f = k) (f_Received_update h) (files (sv_st s))\<rparr>\<rparr>) s')"

lemma touched_refl [simp]: "touched k path s s"
proof -
  have "update_where (\<lambda>f. f_ID f = k) (f_Received_update (\<lambda>x. x)) (files (sv_st s)) = files (sv_st s)"
    by (rule update_where_cong) simp
  then show ?thesis unfolding touched_def by (intro exI [of _ "\<lambda>x. x"]) simp
qed

lemma update_received_twice:
  "update_where (\<lambda>f. f_ID f = k) (f_Received_update h') (update_where (\<lambda>f. f_ID f = k) (f_Received_update h) fs)
    = update_where (\<lambda>f. f_ID f = k) (f_Received_update (h' \<circ> h)) fs"
  by (simp add: update_where_def)

lemma touched_trans:
  assumes "touched k path s s'" "touched k path s' s''"
  shows "touched k path s s''"
proof -
  obtain h h' where h:
    "only_blob path (s\<lparr>sv_st := (sv_st s)\<lparr>files := update_where (\<lambda>f. f_ID f = k) (f_Received_update h) (files (sv_st s))\<rparr>\<rparr>) s'"
    "only_blob path (s'\<lparr>sv_st := (sv_st s')\<lparr>files := update_where (\<lambda>f. f_ID f = k) (f_Received_update h') (files (sv_st s'))\<rparr>\<rparr>) s''"
    using assms by (auto simp: touched_def)
  then show ?thesis
    unfolding touched_def
    by (intro exI [of _ "h' \<circ> h"]) (simp add: only_blob_def update_received_twice)
qed

lemma touched_SetReceived:
  "only_blob path (s\<lparr>sv_st := SetReceived k n (sv_st s)\<rparr>) s' \<Longrightarrow> touched k path s s'"
  unfolding touched_def SetReceived_def by (intro exI [of _ "\<lambda>_. n"])

lemma touched_st:
  assumes "touched k path s s'"
  shows "drops (sv_st s') = drops (sv_st s)" "upload_sessions (sv_st s') = upload_sessions (sv_st s)"
    "sv_now s' = sv_now s" "sv_cfg s' = sv_cfg s" "sv_down s' = sv_down s"
  using assms by (auto simp: touched_def only_blob_def)

lemma touched_authed: "touched k path s s' \<Longrightarrow> authed K sid tok i dek s' = authed K sid tok i dek s"
  by (simp add: authed_def UploadSessionByID_def touched_st)

lemma touched_FileByID:
  assumes "touched k path s s'" "k' \<noteq> k"
  shows "FileByID i k' (sv_st s') = FileByID i k' (sv_st s)"
proof -
  obtain h where "files (sv_st s') = update_where (\<lambda>f. f_ID f = k) (f_Received_update h) (files (sv_st s))"
    using assms(1) by (auto simp: touched_def only_blob_def)
  then show ?thesis using assms(2) unfolding FileByID_def
    by (simp only:) (subst find_update_where_other, auto)
qed

lemma touched_file_has:
  assumes "touched k path s s'" "f_BlobPath f \<noteq> path"
  shows "file_has dek c f s' = file_has dek c f s"
proof -
  have "map_of (fs_files (sv_fs s')) (f_BlobPath f) = map_of (fs_files (sv_fs s)) (f_BlobPath f)"
    "fs_dirs (sv_fs s') = fs_dirs (sv_fs s)"
    using assms by (auto simp: touched_def only_blob_def)
  moreover have "q \<in> fst ` set m \<longleftrightarrow> map_of m q \<noteq> None" for q and m :: "bytes table"
    by (simp add: map_of_eq_None_iff)
  ultimately show ?thesis by (simp add: file_has_def progress_def blob_def)
qed

subsection \<open>Sending one file\<close>

lemma WriteParts_complete:
  assumes "authed K sid tok i dek s" "FileByID i k (sv_st s) = Inr f" "f_Received f \<ge> f_Size f"
  shows "WriteParts K sid tok k off pieces bf room s = (Inr (f_Received f), s)"
proof -
  obtain u where "resolveSession K sid tok s = (Inr (u, dek), s)" "u_DropID u = i"
    using assms(1) authed_resolve by blast
  then show ?thesis
    using assms(2,3) by (simp add: WriteParts_def andThen_def notFound_def query_def ret_def)
qed

lemma send_step:
  assumes "authed K sid tok i dek s" "FileByID i k (sv_st s) = Inr f" "file_has dek p f s"
    and "int (length (p @ concat part)) \<le> f_Size f"
    and "int (length (p @ concat part)) < f_Size f \<longrightarrow> length (concat part) mod ChunkSize = 0"
    and "noncePrefixSize \<le> length (sv_rand s)"
  shows "\<exists>s' f'. WriteParts K sid tok k (int (length p)) part False None s = (Inr (int (length (p @ concat part))), s') \<and>
    touched k (f_BlobPath f) s s' \<and> FileByID i k (sv_st s') = Inr f' \<and> f_Size f' = f_Size f \<and>
    f_BlobPath f' = f_BlobPath f \<and> file_has dek (p @ concat part) f' s' \<and> drew s s'"
proof (cases "int (length p) < f_Size f")
  case True
  define c where "c = p @ concat part"
  have ap: "append_part (nat (f_Size f)) p (concat part) = Inr c"
    using assms(4,5) by (auto simp: append_part_def c_def)
  obtain s' where s': "WriteParts K sid tok k (int (length p)) part False None s = (Inr (int (length c)), s')"
    "drew s s'" "only_blob (f_BlobPath f) (s\<lparr>sv_st := SetReceived k (int (length c)) (sv_st s)\<rparr>) s'"
    "file_has dek c (f\<lparr>f_Received := int (length c)\<rparr>) s'"
    using WriteParts_refines [OF assms(1-3) True assms(6), of part] unfolding ap by auto
  have "sv_st s' = SetReceived k (int (length c)) (sv_st s)" using s'(3) by (simp add: only_blob_def)
  then have "FileByID i k (sv_st s') = Inr (f\<lparr>f_Received := int (length c)\<rparr>)"
    using FileByID_SetReceived [OF assms(2)] by simp
  then show ?thesis
    using s' touched_SetReceived [OF s'(3)] unfolding c_def [symmetric]
    by (intro exI [of _ s'] exI [of _ "f\<lparr>f_Received := int (length c)\<rparr>"]) simp
next
  case False
  then have c: "p @ concat part = p" and r: "f_Received f \<ge> f_Size f" "f_Received f = int (length p)"
    using assms(4) file_has_received [OF assms(3)] by (cases "concat part", auto)
  show ?thesis
    unfolding c using WriteParts_complete [OF assms(1,2) r(1)] r assms(2,3)
    by (intro exI [of _ s] exI [of _ f]) (simp add: drew_def)
qed

lemma send_file_ok:
  assumes "authed K sid tok i dek s" "FileByID i k (sv_st s) = Inr f" "file_has dek p f s"
    and "whole_parts parts" "int (length (p @ body parts)) = f_Size f"
    and "noncePrefixSize * length parts \<le> length (sv_rand s)"
  shows "\<exists>s' f'. send_file K sid tok k (int (length p)) parts s = (Inr (f_Size f), s') \<and>
    touched k (f_BlobPath f) s s' \<and> FileByID i k (sv_st s') = Inr f' \<and> f_Size f' = f_Size f \<and>
    f_BlobPath f' = f_BlobPath f \<and> file_has dek (p @ body parts) f' s' \<and>
    length (sv_rand s) \<le> length (sv_rand s') + noncePrefixSize * length parts"
  using assms
proof (induction parts arbitrary: p f s)
  case Nil
  then show ?case by (auto simp: ret_def body_def)
next
  case (Cons part parts)
  have len: "int (length (p @ concat part)) + int (length (body parts)) = f_Size f"
    using Cons.prems(5) by (simp add: body_def)
  have wp: "whole_parts parts" "parts = [] \<or> length (concat part) mod ChunkSize = 0"
    using Cons.prems(4) by (cases parts; simp)+
  have al: "int (length (p @ concat part)) < f_Size f \<longrightarrow> length (concat part) mod ChunkSize = 0"
    using wp(2) len by (auto simp: body_def)
  obtain s1 f1 where s1: "WriteParts K sid tok k (int (length p)) part False None s = (Inr (int (length (p @ concat part))), s1)"
    "touched k (f_BlobPath f) s s1" "FileByID i k (sv_st s1) = Inr f1" "f_Size f1 = f_Size f"
    "f_BlobPath f1 = f_BlobPath f" "file_has dek (p @ concat part) f1 s1" "drew s s1"
    using send_step [OF Cons.prems(1-3) _ al] len Cons.prems(6) by auto
  have a1: "authed K sid tok i dek s1" using Cons.prems(1) touched_authed [OF s1(2)] by simp
  have l1: "int (length ((p @ concat part) @ body parts)) = f_Size f1" using len s1(4) by simp
  have r1: "noncePrefixSize * length parts \<le> length (sv_rand s1)"
    using Cons.prems(6) s1(7) by (simp add: drew_def)
  obtain s' f' where s': "send_file K sid tok k (int (length (p @ concat part))) parts s1 = (Inr (f_Size f1), s')"
    "touched k (f_BlobPath f1) s1 s'" "FileByID i k (sv_st s') = Inr f'" "f_Size f' = f_Size f1"
    "f_BlobPath f' = f_BlobPath f1" "file_has dek ((p @ concat part) @ body parts) f' s'"
    "length (sv_rand s1) \<le> length (sv_rand s') + noncePrefixSize * length parts"
    using Cons.IH [OF a1 s1(3,6) wp(1) l1 r1] by blast
  have "send_file K sid tok k (int (length p)) (part # parts) s = (Inr (f_Size f), s')"
    using s1(1,4) s'(1) by (simp add: andThen_def)
  moreover have "touched k (f_BlobPath f) s s'" using touched_trans [OF s1(2)] s'(2) s1(5) by simp
  moreover have "p @ body (part # parts) = (p @ concat part) @ body parts" by (simp add: body_def)
  moreover have "length (sv_rand s) \<le> length (sv_rand s') + noncePrefixSize * length (part # parts)"
    using s1(7) s'(7) by (simp add: drew_def)
  ultimately show ?case using s'(3-6) s1(4,5) by auto
qed

subsection \<open>Sending all files of a share\<close>

definition have_all :: "bytes \<Rightarrow> (int \<Rightarrow> bytes) \<Rightarrow> int \<Rightarrow> service \<Rightarrow> bool" where
  "have_all dek cont i s \<longleftrightarrow>
     (\<forall>f \<in> set (files (sv_st s)). f_DropID f = i \<longrightarrow> file_has dek (cont (f_ID f)) f s)"

definition paths_ok :: "int \<Rightarrow> store \<Rightarrow> bool" where
  "paths_ok i st \<longleftrightarrow>
     (\<forall>f \<in> set (files st). \<forall>g \<in> set (files st).
        f_DropID f = i \<longrightarrow> f_DropID g = i \<longrightarrow> f_BlobPath f = f_BlobPath g \<longrightarrow> f_ID f = f_ID g)"

definition strip :: "File \<Rightarrow> File" where
  "strip f = f\<lparr>f_Received := 0\<rparr>"

lemma strip_simps [simp]:
  "f_ID (strip f) = f_ID f" "f_DropID (strip f) = f_DropID f" "f_Ordinal (strip f) = f_Ordinal f"
  "f_NameEnc (strip f) = f_NameEnc f" "f_Size (strip f) = f_Size f" "f_BlobPath (strip f) = f_BlobPath f"
  by (simp_all add: strip_def)

lemma strip_eq:
  assumes "map strip (files st') = map strip (files st)" "f \<in> set (files st')"
  obtains g where "g \<in> set (files st)" "f_ID g = f_ID f" "f_DropID g = f_DropID f" "f_Size g = f_Size f"
    "f_BlobPath g = f_BlobPath f" "f_NameEnc g = f_NameEnc f"
proof -
  have "strip f \<in> strip ` set (files st)" using assms by (metis image_eqI list.set_map)
  then obtain g where "g \<in> set (files st)" "strip f = strip g" by auto
  then show ?thesis using that by (metis strip_simps)
qed

lemma touched_strip:
  assumes "touched k path s s'"
  shows "map strip (files (sv_st s')) = map strip (files (sv_st s))"
proof -
  obtain h where "files (sv_st s') = update_where (\<lambda>f. f_ID f = k) (f_Received_update h) (files (sv_st s))"
    using assms by (auto simp: touched_def only_blob_def)
  then show ?thesis by (simp add: map_update_where strip_def)
qed

lemma touched_other:
  assumes "touched k path s s'" "f \<in> set (files (sv_st s'))" "f_ID f \<noteq> k"
  shows "f \<in> set (files (sv_st s))"
proof -
  obtain h where "files (sv_st s') = update_where (\<lambda>f. f_ID f = k) (f_Received_update h) (files (sv_st s))"
    using assms by (auto simp: touched_def only_blob_def)
  then show ?thesis using assms(2,3) by (auto simp: set_update_where split: if_splits)
qed

lemma touched_store_ok:
  assumes "touched k path s s'" "store_ok (sv_st s)"
  shows "store_ok (sv_st s')"
proof -
  obtain h where "sv_st s' = (sv_st s)\<lparr>files := update_where (\<lambda>f. f_ID f = k) (f_Received_update h) (files (sv_st s))\<rparr>"
    using assms(1) by (auto simp: touched_def only_blob_def)
  moreover have "store_ok ((sv_st s)\<lparr>files := update_where (\<lambda>f. f_ID f = k) (f_Received_update h) (files (sv_st s))\<rparr>)"
    by (rule store_ok_files_update) (use assms(2) in auto)
  ultimately show ?thesis by simp
qed

lemma file_unique:
  "store_ok st \<Longrightarrow> f \<in> set (files st) \<Longrightarrow> g \<in> set (files st) \<Longrightarrow> f_ID f = f_ID g \<Longrightarrow> f = g"
  using file_tab.ids_ok_distinct [of "files st"] by (auto simp: store_ok_def distinct_map dest: inj_onD)

lemma FileByID_iff:
  assumes "store_ok st"
  shows "FileByID i k st = Inr f \<longleftrightarrow> f \<in> set (files st) \<and> f_ID f = k \<and> f_DropID f = i"
proof
  assume f: "f \<in> set (files st) \<and> f_ID f = k \<and> f_DropID f = i"
  then obtain g where g: "find (\<lambda>f. f_ID f = k \<and> f_DropID f = i) (files st) = Some g"
    by (cases "find (\<lambda>f. f_ID f = k \<and> f_DropID f = i) (files st)") (auto simp: find_None)
  then have "g = f" using find_Some_D [OF g] f file_unique [OF assms] by metis
  with g show "FileByID i k st = Inr f" by (simp add: FileByID_def)
qed (rule FileByID_Inr)

lemma paths_ok_strip:
  assumes "map strip (files st') = map strip (files st)" "paths_ok i st"
  shows "paths_ok i st'"
  unfolding paths_ok_def
proof (intro ballI impI)
  fix f g
  assume f: "f \<in> set (files st')" "f_DropID f = i" and g: "g \<in> set (files st')" "f_DropID g = i"
    and eq: "f_BlobPath f = f_BlobPath g"
  obtain f' where f': "f' \<in> set (files st)" "f_ID f' = f_ID f" "f_DropID f' = f_DropID f" "f_BlobPath f' = f_BlobPath f"
    by (rule strip_eq [OF assms(1) f(1)])
  obtain g' where g': "g' \<in> set (files st)" "f_ID g' = f_ID g" "f_DropID g' = f_DropID g" "f_BlobPath g' = f_BlobPath g"
    by (rule strip_eq [OF assms(1) g(1)])
  show "f_ID f = f_ID g" using assms(2) f f' g g' eq by (metis paths_ok_def)
qed

lemma have_all_sent:
  assumes "have_all dek cont i s" "store_ok (sv_st s)" "paths_ok i (sv_st s)" "touched k path s s'"
    and "FileByID i k (sv_st s') = Inr f'" "f_BlobPath f' = path" "file_has dek c f' s'"
  shows "have_all dek (cont(k := c)) i s'"
  unfolding have_all_def
proof (intro ballI impI)
  fix f assume f: "f \<in> set (files (sv_st s'))" "f_DropID f = i"
  have ok': "store_ok (sv_st s')" by (rule touched_store_ok [OF assms(4,2)])
  have f': "f' \<in> set (files (sv_st s'))" "f_ID f' = k" "f_DropID f' = i"
    using assms(5) FileByID_iff [OF ok'] by simp_all
  show "file_has dek ((cont(k := c)) (f_ID f)) f s'"
  proof (cases "f_ID f = k")
    case True
    then have "f = f'" using file_unique [OF ok' f(1) f'(1)] f'(2) by simp
    then show ?thesis using assms(7) f'(2) by simp
  next
    case False
    then have "f \<in> set (files (sv_st s))" using touched_other [OF assms(4) f(1)] by simp
    then have "file_has dek (cont (f_ID f)) f s" using assms(1) f(2) by (simp add: have_all_def)
    moreover have "f_BlobPath f \<noteq> path"
      using paths_ok_strip [OF touched_strip [OF assms(4)] assms(3)] f f' False assms(6)
      unfolding paths_ok_def by metis
    ultimately show ?thesis using touched_file_has [OF assms(4)] False by simp
  qed
qed

definition job_ok :: "int \<Rightarrow> store \<Rightarrow> int \<times> bytes list list \<Rightarrow> bool" where
  "job_ok i st job \<longleftrightarrow>
     whole_parts (snd job) \<and>
     (\<exists>f \<in> set (files st). f_ID f = fst job \<and> f_DropID f = i \<and> f_Size f = int (length (body (snd job))))"

lemma job_ok_strip:
  assumes "map strip (files st') = map strip (files st)" "job_ok i st job"
  shows "job_ok i st' job"
proof -
  obtain f where f: "f \<in> set (files st)" "f_ID f = fst job" "f_DropID f = i"
      "f_Size f = int (length (body (snd job)))"
    using assms(2) by (auto simp: job_ok_def)
  obtain g where "g \<in> set (files st')" "f_ID g = f_ID f" "f_DropID g = f_DropID f" "f_Size g = f_Size f"
    by (rule strip_eq [OF assms(1) [symmetric] f(1)])
  then show ?thesis using f assms(2) unfolding job_ok_def by metis
qed

definition contents :: "(int \<times> bytes list list) list \<Rightarrow> (int \<Rightarrow> bytes) \<Rightarrow> int \<Rightarrow> bytes" where
  "contents jobs cont k = (case map_of jobs k of None \<Rightarrow> cont k | Some parts \<Rightarrow> body parts)"

definition same_share :: "service \<Rightarrow> service \<Rightarrow> bool" where
  "same_share s s' \<longleftrightarrow>
     map strip (files (sv_st s')) = map strip (files (sv_st s)) \<and> drops (sv_st s') = drops (sv_st s) \<and>
     upload_sessions (sv_st s') = upload_sessions (sv_st s) \<and> sv_now s' = sv_now s \<and>
     sv_cfg s' = sv_cfg s \<and> sv_down s' = sv_down s"

lemma same_share_touched: "touched k path s s' \<Longrightarrow> same_share s s'"
  by (simp add: same_share_def touched_strip touched_st)

lemma same_share_refl [simp]: "same_share s s"
  by (simp add: same_share_def)

lemma same_share_trans: "same_share s s' \<Longrightarrow> same_share s' s'' \<Longrightarrow> same_share s s''"
  by (simp add: same_share_def)

lemma send_all_ok:
  assumes "authed K sid tok i dek s" "store_ok (sv_st s)" "paths_ok i (sv_st s)" "have_all dek cont i s"
    and "distinct (map fst jobs)" "\<forall>job \<in> set jobs. job_ok i (sv_st s) job \<and> cont (fst job) = []"
    and "noncePrefixSize * sum_list (map (length \<circ> snd) jobs) \<le> length (sv_rand s)"
  shows "\<exists>s'. send_all K sid tok jobs s = (Inr (), s') \<and> same_share s s' \<and> store_ok (sv_st s') \<and>
    have_all dek (contents jobs cont) i s'"
  using assms
proof (induction jobs arbitrary: s cont)
  case Nil
  then show ?case by (simp add: ret_def contents_def)
next
  case (Cons job jobs)
  obtain k parts where job: "job = (k, parts)" by (cases job)
  obtain f where f: "f \<in> set (files (sv_st s))" "f_ID f = k" "f_DropID f = i" "f_Size f = int (length (body parts))"
    and wp: "whole_parts parts" and ck: "cont k = []"
    using Cons.prems(6) by (auto simp: job job_ok_def)
  have fb: "FileByID i k (sv_st s) = Inr f" using f FileByID_iff [OF Cons.prems(2)] by simp
  have fh: "file_has dek [] f s" using Cons.prems(4) f ck by (auto simp: have_all_def)
  have r: "noncePrefixSize * length parts \<le> length (sv_rand s)"
    using Cons.prems(7) by (simp add: job add_mult_distrib2)
  obtain s1 f1 where s1: "send_file K sid tok k 0 parts s = (Inr (f_Size f), s1)"
    "touched k (f_BlobPath f) s s1" "FileByID i k (sv_st s1) = Inr f1" "f_BlobPath f1 = f_BlobPath f"
    "file_has dek (body parts) f1 s1" "length (sv_rand s) \<le> length (sv_rand s1) + noncePrefixSize * length parts"
    using send_file_ok [OF Cons.prems(1) fb fh wp _ r] f(4) by auto
  have strip: "map strip (files (sv_st s1)) = map strip (files (sv_st s))" by (rule touched_strip [OF s1(2)])
  have "\<exists>s'. send_all K sid tok jobs s1 = (Inr (), s') \<and> same_share s1 s' \<and> store_ok (sv_st s') \<and>
      have_all dek (contents jobs (cont(k := body parts))) i s'"
  proof (rule Cons.IH)
    show "authed K sid tok i dek s1" using Cons.prems(1) touched_authed [OF s1(2)] by simp
    show "store_ok (sv_st s1)" by (rule touched_store_ok [OF s1(2) Cons.prems(2)])
    show "paths_ok i (sv_st s1)" by (rule paths_ok_strip [OF strip Cons.prems(3)])
    show "have_all dek (cont(k := body parts)) i s1"
      by (rule have_all_sent [OF Cons.prems(4,2,3) s1(2,3,4,5)])
    show "distinct (map fst jobs)" using Cons.prems(5) by simp
    show "\<forall>job \<in> set jobs. job_ok i (sv_st s1) job \<and> (cont(k := body parts)) (fst job) = []"
      using Cons.prems(5,6) job_ok_strip [OF strip] by (auto simp: job)
    show "noncePrefixSize * sum_list (map (length \<circ> snd) jobs) \<le> length (sv_rand s1)"
      using Cons.prems(7) s1(6) by (simp add: job add_mult_distrib2 comp_def)
  qed
  moreover have "contents (job # jobs) cont = contents jobs (cont(k := body parts))"
  proof -
    have "map_of jobs k = None" using Cons.prems(5) by (simp add: job map_of_eq_None_iff)
    then show ?thesis by (auto simp: contents_def job fun_eq_iff split: option.splits)
  qed
  ultimately show ?case
    using s1(1) same_share_trans [OF same_share_touched [OF s1(2)]] by (auto simp: job andThen_def)
qed

end
