(* ===== verification/Start_Correct.thy ===== *)
theory Start_Correct
  imports Share_Correct
begin

text \<open>
  What a successful \<open>StartUpload\<close> leaves behind: a pending drop under the returned key whose
  wrapped data key opens with the returned password, an upload session that the returned
  token resolves, and one record per requested file, all of them empty so far.
\<close>

subsection \<open>One file\<close>

text \<open>Starting a file leaves everything but the file table, its own blob and the directories alone.\<close>

definition started :: "string set \<Rightarrow> service \<Rightarrow> service \<Rightarrow> bool" where
  "started ps s s' \<longleftrightarrow>
     drops (sv_st s') = drops (sv_st s) \<and> upload_sessions (sv_st s') = upload_sessions (sv_st s) \<and>
     sv_cfg s' = sv_cfg s \<and> sv_down s' = sv_down s \<and> sv_now s' = sv_now s \<and>
     set (fs_dirs (sv_fs s)) \<subseteq> set (fs_dirs (sv_fs s')) \<and>
     (\<forall>q. q \<notin> ps \<longrightarrow> blob q s' = blob q s)"

lemma started_refl [simp]: "started ps s s"
  by (simp add: started_def)

lemma started_trans: "started ps s s' \<Longrightarrow> started qs s' s'' \<Longrightarrow> started (ps \<union> qs) s s''"
  unfolding started_def by (intro conjI) auto

lemma only_blob_openCreate:
  assumes "openCreate path s = (r, s')"
  shows "only_blob path s s'"
proof (cases "map_of (fs_files (sv_fs s)) path = None \<and> blobDir path \<in> set (fs_dirs (sv_fs s))")
  case True
  then have "s' = snd (setBlob path [] s)"
    using assms by (simp add: openCreate_def andThen_Inr [OF setBlob_eq] ret_def)
  then show ?thesis by (simp add: only_blob_setBlob)
next
  case False
  then have "s' = s" using assms by (auto simp: openCreate_def split: option.splits)
  then show ?thesis by simp
qed

lemma writeEmptyBlob_Inr:
  assumes "writeEmptyBlob rel dek s = (Inr (), s')" "length dek = KeySize"
  obtains b where "blob rel s' = Some b" "sealed dek [] b" "started {rel} s s'" "sv_st s' = sv_st s"
proof -
  obtain c s1 where o1: "openCreate rel s = (Inr c, s1)"
    and r1: "andThen (setBlob rel []) (\<lambda>_. andThen (newWriter empty_sink dek) (\<lambda>w.
        case CloseWriter w of
          (w', Some e) \<Rightarrow> andThen (setBlob rel (sink_data (w_dst w'))) (\<lambda>_. fail e)
        | (w', None) \<Rightarrow> setBlob rel (sink_data (w_dst w')))) s1 = (Inr (), s')"
    using assms(1) unfolding writeEmptyBlob_def by (rule andThen_Inr_E)
  let ?s2 = "snd (setBlob rel [] s1)"
  have f1: "only_blob rel s s1"
    by (rule only_blob_openCreate [OF o1])
  have f2: "only_blob rel s ?s2" by (rule only_blob_trans [OF f1 only_blob_setBlob])
  have "andThen (newWriter empty_sink dek) (\<lambda>w. case CloseWriter w of
          (w', Some e) \<Rightarrow> andThen (setBlob rel (sink_data (w_dst w'))) (\<lambda>_. fail e)
        | (w', None) \<Rightarrow> setBlob rel (sink_data (w_dst w'))) ?s2 = (Inr (), s')"
    using r1 by (simp add: andThen_Inr [OF setBlob_eq])
  then obtain w s3 where w: "newWriter empty_sink dek ?s2 = (Inr w, s3)"
    and c: "(case CloseWriter w of
          (w', Some e) \<Rightarrow> andThen (setBlob rel (sink_data (w_dst w'))) (\<lambda>_. fail e)
        | (w', None) \<Rightarrow> setBlob rel (sink_data (w_dst w'))) s3 = (Inr (), s')"
    by (rule andThen_Inr_E)
  have rl: "noncePrefixSize \<le> length (sv_rand ?s2)"
    using w assms(2) by (auto simp: newWriter_def newGCM_def andThen_def draw_def rand_Read_def not_le split: if_splits)
  obtain w1 pfx where w1: "newWriter empty_sink dek ?s2 = (Inr w1, ?s2\<lparr>sv_rand := drop noncePrefixSize (sv_rand ?s2)\<rparr>)"
    "writer_at w1 dek pfx [] []" "good_key dek pfx"
    by (rule newWriter_ok [OF assms(2) rl])
  have s3: "w1 = w" "s3 = ?s2\<lparr>sv_rand := drop noncePrefixSize (sv_rand ?s2)\<rparr>" using w w1(1) by simp_all
  obtain w' where w': "CloseWriter w = (w', None)" "sealed dek (concat [] @ []) (sink_data (w_dst w'))"
    using seal_final [of w dek pfx "[]" "[]" "[]" "[]"] w1(2,3) s3(1) by auto
  have s': "s' = snd (setBlob rel (sink_data (w_dst w')) s3)" using c w'(1) by (simp add: setBlob_def)
  have "only_blob rel s s'"
    unfolding s' s3(2) by (rule only_blob_trans [OF only_blob_rand [OF f2] only_blob_setBlob])
  then have "started {rel} s s'" "sv_st s' = sv_st s"
    by (auto simp: started_def only_blob_def blob_def)
  then show ?thesis using that w'(2) s' by simp
qed

definition new_file_of :: "string \<Rightarrow> bytes \<Rightarrow> int \<Rightarrow> FileRequest \<Rightarrow> StartedFile \<Rightarrow> File \<Rightarrow> bool" where
  "new_file_of key dek i fr sf f \<longleftrightarrow>
     sf = \<lparr>sf_ID = f_ID f, sf_Name = q_Name fr, sf_Size = q_Size fr\<rparr> \<and> f_DropID f = i \<and>
     f_Size f = q_Size fr \<and> f_Received f = 0 \<and> 0 < f_ID f \<and> blobRel key (f_ID f) = Inr (f_BlobPath f) \<and>
     Open dek (f_NameEnc f) = Inr (bytes_of (q_Name fr))"

text \<open>The blob of a started file is there if the file is empty, and can be created otherwise.\<close>

definition startable :: "bytes \<Rightarrow> File \<Rightarrow> service \<Rightarrow> bool" where
  "startable dek f s \<longleftrightarrow>
     (if f_Size f = 0 then \<exists>b. blob (f_BlobPath f) s = Some b \<and> sealed dek [] b
      else blobDir (f_BlobPath f) \<in> set (fs_dirs (sv_fs s)))"

lemma startFile_Inr:
  assumes "startFile key dek i n fr s = (Inr sf, s')" "length dek = KeySize"
  obtains f where "files (sv_st s') = files (sv_st s) @ [f]" "new_file_of key dek i fr sf f"
    "startable dek f s'" "started {f_BlobPath f} s s'" "f_Ordinal f = n"
    "f_ID f \<notin> f_ID ` set (files (sv_st s))"
proof -
  obtain ne s1 where s1: "draw (Seal dek (bytes_of (q_Name fr))) s = (Inr ne, s1)"
    and c1: "andThen (db (AddFile \<lparr>f_ID = 0, f_DropID = i, f_Ordinal = n, f_NameEnc = ne,
                          f_Size = q_Size fr, f_Received = 0, f_BlobPath = []\<rparr>)) (\<lambda>rec.
     andThen (lift_res (blobRel key (f_ID rec))) (\<lambda>rel.
     andThen (db_upd (SetBlobPath (f_ID rec) rel)) (\<lambda>_.
     andThen (MkdirAll (blobDir rel)) (\<lambda>_.
     andThen (if q_Size fr = 0 then writeEmptyBlob rel dek else ret ()) (\<lambda>_.
     ret \<lparr>sf_ID = f_ID rec, sf_Name = q_Name fr, sf_Size = q_Size fr\<rparr>))))) s1 = (Inr sf, s')"
    using assms(1) unfolding startFile_def by (rule andThen_Inr_E)
  let ?f0 = "\<lparr>f_ID = 0, f_DropID = i, f_Ordinal = n, f_NameEnc = ne, f_Size = q_Size fr, f_Received = 0, f_BlobPath = []\<rparr>"
  have st1: "sv_st s1 = sv_st s" "sv_fs s1 = sv_fs s" "started {} s s1"
    using s1 by (auto simp: draw_def started_def blob_def split: prod.splits)
  have ne: "Open dek ne = Inr (bytes_of (q_Name fr))"
    using s1 by (auto simp: draw_def split: prod.splits intro: Open_Seal)
  define k where "k = next_id (map f_ID (files (sv_st s)))"
  obtain rec s2 where s2: "db (AddFile ?f0) s1 = (Inr rec, s2)"
    and c2: "andThen (lift_res (blobRel key (f_ID rec))) (\<lambda>rel.
     andThen (db_upd (SetBlobPath (f_ID rec) rel)) (\<lambda>_.
     andThen (MkdirAll (blobDir rel)) (\<lambda>_.
     andThen (if q_Size fr = 0 then writeEmptyBlob rel dek else ret ()) (\<lambda>_.
     ret \<lparr>sf_ID = f_ID rec, sf_Name = q_Name fr, sf_Size = q_Size fr\<rparr>)))) s2 = (Inr sf, s')"
    using c1 by (rule andThen_Inr_E)
  have rec: "f_ID rec = k" and st2: "s2 = s1\<lparr>sv_st := (sv_st s1)\<lparr>files := files (sv_st s1) @ [?f0\<lparr>f_ID := k\<rparr>]\<rparr>\<rparr>"
    using s2 st1(1) by (auto simp: db_def AddFile_def insert_row_def Let_def k_def new_file_def split: if_splits)
  obtain rel where rel: "blobRel key k = Inr rel"
    using c2 rec by (cases "blobRel key k") (simp_all add: andThen_def lift_res_def)
  define f where "f = ?f0\<lparr>f_ID := k, f_BlobPath := rel\<rparr>"
  have fresh: "update_where (\<lambda>f. f_ID f = k) h (files (sv_st s)) = files (sv_st s)" for h
  proof (rule update_where_cong)
    fix r assume "r \<in> set (files (sv_st s))" "f_ID r = k"
    then have "k \<in> set (map f_ID (files (sv_st s)))" by auto
    then show "h r = r" using next_id_fresh [of "map f_ID (files (sv_st s))"] by (simp only: k_def)
  qed
  let ?s3 = "s2\<lparr>sv_st := SetBlobPath k rel (sv_st s2)\<rparr>"
  have files3: "files (sv_st ?s3) = files (sv_st s) @ [f]"
    using fresh by (simp add: SetBlobPath_def st2 st1(1) f_def) (simp add: update_where_def)
  have c3: "andThen (MkdirAll (blobDir rel)) (\<lambda>_.
     andThen (if q_Size fr = 0 then writeEmptyBlob rel dek else ret ()) (\<lambda>_.
     ret \<lparr>sf_ID = k, sf_Name = q_Name fr, sf_Size = q_Size fr\<rparr>)) ?s3 = (Inr sf, s')"
    using c2 rec rel by (simp add: lift_res_def db_upd_def andThen_def [of "lift_res _"] andThen_def [of "db_upd _"])
  obtain x s4 where s4: "MkdirAll (blobDir rel) ?s3 = (Inr x, s4)"
    and c4: "andThen (if q_Size fr = 0 then writeEmptyBlob rel dek else ret ()) (\<lambda>_.
       ret \<lparr>sf_ID = k, sf_Name = q_Name fr, sf_Size = q_Size fr\<rparr>) s4 = (Inr sf, s')"
    using c3 by (rule andThen_Inr_E)
  have dirs4: "blobDir rel \<in> set (fs_dirs (sv_fs s4))" "sv_st s4 = sv_st ?s3" "started {} s s4"
    using s4 st1(3) by (auto simp: MkdirAll_def started_def blob_def st2 SetBlobPath_def st1(2) split: if_splits)
  have k: "0 < k" "k \<notin> f_ID ` set (files (sv_st s))"
    using next_id_fresh [of "map f_ID (files (sv_st s))"] by (simp_all add: k_def next_id_pos)
  show ?thesis
  proof (cases "q_Size fr = 0")
    case True
    then have "writeEmptyBlob rel dek s4 = (Inr (), s')" "sf = \<lparr>sf_ID = k, sf_Name = q_Name fr, sf_Size = q_Size fr\<rparr>"
      using c4 by (auto simp: ret_def elim!: andThen_Inr_E)
    moreover from this(1) assms(2) obtain b where "blob rel s' = Some b" "sealed dek [] b" "started {rel} s4 s'" "sv_st s' = sv_st s4"
      by (rule writeEmptyBlob_Inr)
    ultimately show ?thesis
      using files3 dirs4 k rel ne True started_trans [OF dirs4(3), of "{rel}" s']
      by (intro that [of f]) (simp_all add: f_def new_file_of_def startable_def)
  next
    case False
    then have "s' = s4" "sf = \<lparr>sf_ID = k, sf_Name = q_Name fr, sf_Size = q_Size fr\<rparr>"
      using c4 by (auto simp: ret_def)
    then show ?thesis
      using files3 dirs4 k rel ne False
      by (intro that [of f]) (simp_all add: f_def new_file_of_def startable_def started_def)
  qed
qed

subsection \<open>All files\<close>

lemma blobRel_inject: "0 < i \<Longrightarrow> 0 < j \<Longrightarrow> blobRel key i = Inr p \<Longrightarrow> blobRel key j = Inr p \<Longrightarrow> i = j"
  by (auto simp: blobRel_def FormatInt_inject split: if_splits)

lemma startable_frame:
  "startable dek f s \<Longrightarrow> started ps s s' \<Longrightarrow> f_BlobPath f \<notin> ps \<Longrightarrow> startable dek f s'"
  by (auto simp: startable_def started_def)

lemma startFiles_Inr:
  assumes "startFiles key dek i n frs s = (Inr sfs, s')" "length dek = KeySize"
  obtains fs where "files (sv_st s') = files (sv_st s) @ fs" "length sfs = length frs" "length fs = length frs"
    "\<forall>j < length frs. new_file_of key dek i (frs ! j) (sfs ! j) (fs ! j)" "\<forall>f \<in> set fs. startable dek f s'"
    "started (f_BlobPath ` set fs) s s'" "map f_Ordinal fs = map (\<lambda>j. n + int j) [0..<length frs]"
    "f_ID ` set fs \<inter> f_ID ` set (files (sv_st s)) = {}"
  using assms(1)
proof (induction frs arbitrary: n s sfs thesis)
  case Nil
  then show ?case by (intro Nil.prems(1) [of "[]"]) (auto simp: ret_def)
next
  case (Cons fr frs)
  obtain sf s1 where s1: "startFile key dek i n fr s = (Inr sf, s1)"
    and c1: "andThen (startFiles key dek i (n + 1) frs) (\<lambda>fs. ret (sf # fs)) s1 = (Inr sfs, s')"
    using Cons.prems(2) by (simp only: startFiles.simps) (erule andThen_Inr_E)
  obtain sfs1 s2 where s2: "startFiles key dek i (n + 1) frs s1 = (Inr sfs1, s2)"
    and c2: "ret (sf # sfs1) s2 = (Inr sfs, s')"
    using c1 by (rule andThen_Inr_E)
  have [simp]: "sfs = sf # sfs1" and s2': "startFiles key dek i (n + 1) frs s1 = (Inr sfs1, s')"
    using c2 s2 by (simp_all add: ret_def)
  obtain f where f: "files (sv_st s1) = files (sv_st s) @ [f]" "new_file_of key dek i fr sf f"
    "startable dek f s1" "started {f_BlobPath f} s s1" "f_Ordinal f = n"
    "f_ID f \<notin> f_ID ` set (files (sv_st s))"
    by (rule startFile_Inr [OF s1 assms(2)])
  obtain fs where fs: "files (sv_st s') = files (sv_st s1) @ fs" "length sfs1 = length frs" "length fs = length frs"
    "\<forall>j < length frs. new_file_of key dek i (frs ! j) (sfs1 ! j) (fs ! j)" "\<forall>f \<in> set fs. startable dek f s'"
    "started (f_BlobPath ` set fs) s1 s'" "map f_Ordinal fs = map (\<lambda>j. n + 1 + int j) [0..<length frs]"
    "f_ID ` set fs \<inter> f_ID ` set (files (sv_st s1)) = {}"
    by (rule Cons.IH [OF _ s2'])
  have "f_BlobPath f \<notin> f_BlobPath ` set fs"
  proof
    assume "f_BlobPath f \<in> f_BlobPath ` set fs"
    then obtain j where j: "j < length frs" "f_BlobPath (fs ! j) = f_BlobPath f"
      using fs(3) by (metis imageE in_set_conv_nth)
    then have "f_ID (fs ! j) = f_ID f"
      using f(2) fs(4) blobRel_inject [of "f_ID (fs ! j)" "f_ID f" key] by (simp add: new_file_of_def)
    moreover have "fs ! j \<in> set fs" using j(1) fs(3) by simp
    ultimately have "f_ID f \<in> f_ID ` set fs" by (metis image_eqI)
    then show False using fs(8) f(1) by auto
  qed
  then have st: "startable dek f s'" using startable_frame [OF f(3) fs(6)] by simp
  have ord: "map f_Ordinal (f # fs) = map (\<lambda>j. n + int j) [0..<length (fr # frs)]"
    using f(5) fs(7) by (simp add: upt_conv_Cons map_Suc_upt [symmetric] comp_def del: upt_Suc)
  have new: "\<forall>j < length (fr # frs). new_file_of key dek i ((fr # frs) ! j) (sfs ! j) ((f # fs) ! j)"
    using f(2) fs(4) by (auto simp: nth_Cons split: nat.splits)
  show ?case
    using f fs st ord new started_trans [OF f(4) fs(6)] by (intro Cons.prems(1) [of "f # fs"]) auto
qed

subsection \<open>The whole call\<close>

definition only_rand :: "service \<Rightarrow> service \<Rightarrow> bool" where
  "only_rand s s' \<longleftrightarrow> (\<exists>t. s' = s\<lparr>sv_rand := t\<rparr>)"

lemma only_rand_refl [simp]: "only_rand s s"
  unfolding only_rand_def by (intro exI [of _ "sv_rand s"]) simp

lemma only_rand_trans: "only_rand s s' \<Longrightarrow> only_rand s' s'' \<Longrightarrow> only_rand s s''"
  by (auto simp: only_rand_def)

lemma only_rand_draw: "draw r s = (v, s') \<Longrightarrow> only_rand s s'"
  by (auto simp: draw_def only_rand_def split: prod.splits)

lemma only_rand_uniqueKey_loop:
  "uniqueKey_loop n s = (Inr key, s') \<Longrightarrow> only_rand s s' \<and> DropByKey key (sv_st s') = Inl StoreNotFound"
proof (induction n arbitrary: s)
  case (Suc n)
  then obtain k s1 where s1: "draw NewDropKey s = (Inr k, s1)"
    and c: "(case DropByKey k (sv_st s1) of Inl e \<Rightarrow> if e = StoreNotFound then ret k s1 else fail e s1
             | Inr d \<Rightarrow> uniqueKey_loop n s1) = (Inr key, s')"
    by (simp only: uniqueKey_loop.simps) (erule andThen_Inr_E)
  show ?case
    using c only_rand_draw [OF s1] Suc.IH [of s1] only_rand_trans
    by (auto simp: ret_def fail_def split: sum.splits if_splits)
qed (simp add: fail_def)

lemma only_rand_manageSecret: "manageSecret b s = (Inr v, s') \<Longrightarrow> only_rand s s'"
  by (auto simp: manageSecret_def ret_def elim!: andThen_Inr_E intro: only_rand_draw split: if_splits)

lemma total_size_nonneg: "total_size acc frs = Inr n \<Longrightarrow> \<forall>fr \<in> set frs. 0 \<le> q_Size fr"
  by (induction acc frs rule: total_size.induct) (auto split: if_splits)

lemma validateStart_Inr:
  assumes "validateStart ip req s = (Inr u, s')"
  shows "s' = s" "1 \<le> sr_Days req" "1 \<le> sr_MaxDownloads req" "\<forall>fr \<in> set (sr_Files req). 0 \<le> q_Size fr"
proof -
  have "s' = s \<and> 1 \<le> sr_Days req \<and> 1 \<le> sr_MaxDownloads req \<and> (\<exists>n. total_size 0 (sr_Files req) = Inr n)"
    using assms by (auto simp: validateStart_def andThen_def act_defs split: if_splits sum.splits)
  then show "s' = s" "1 \<le> sr_Days req" "1 \<le> sr_MaxDownloads req" "\<forall>fr \<in> set (sr_Files req). 0 \<le> q_Size fr"
    using total_size_nonneg by blast+
qed

lemma StartUpload_run:
  assumes "StartUpload K ip req s = (Inr x, s')"
  obtains u pw dek wrapped key mt drop sfs tok sw sid v s0 s1 s2 s3 s4 s5 s6 s7 s8 s9 s10 where
    "validateStart ip req s = (Inr u, s0)"
    "(if sr_Password req = [] then draw NewPassword else ret (sr_Password req)) s0 = (Inr pw, s1)"
    "draw NewKey s1 = (Inr dek, s2)" "draw (WrapKey K dek pw) s2 = (Inr wrapped, s3)"
    "uniqueKey s3 = (Inr key, s4)" "manageSecret (sr_Manage req) s4 = (Inr mt, s5)"
    "db (CreateDrop
        (draft_drop req key wrapped (snd mt) (sv_now s5))
        (sr_UploaderHash req) (sr_UploaderIP req)) s5 = (Inr drop, s6)"
    "startFiles key dek (d_ID drop) 0 (sr_Files req) s6 = (Inr sfs, s7)" "draw NewToken s7 = (Inr tok, s8)"
    "draw (WrapKeyWithToken K dek tok ''upload'') s8 = (Inr sw, s9)" "draw NewToken s9 = (Inr sid, s10)"
    "db_err (CreateUploadSession
        \<lparr>u_ID = sid, u_DropID = d_ID drop, u_Wrapped = sw, u_ExpiresAt = sv_now s5 + UploadTTL (sv_cfg s5)\<rparr>
        (sv_now s5)) s10 = (Inr v, s')"
    "x = \<lparr>x_Key = key, x_Password = pw, x_SessionID = sid, x_Token = tok,
          x_PartSize = PartSize (sv_cfg s5), x_ExpiresAt = sv_now s5 + UploadTTL (sv_cfg s5), x_Files = sfs,
          x_ManageToken = fst mt\<rparr>"
  using assms unfolding StartUpload_def Let_def case_prod_unfold
  apply (elim andThen_Inr_E)
  apply (unfold clock_def config_def ret_def [of "StartResult_ext _ _ _ _ _ _ _ _ _"] prod.inject sum.inject(2))
  apply (elim conjE)
  apply hypsubst
  apply (rule that; (assumption | rule refl))
  done

lemma CreateDrop_Inr:
  assumes "db (CreateDrop d h ip) s = (Inr d', s')"
  obtains r where "drops (sv_st s') = drops (sv_st s) @ [r]" "dr_id r = d_ID d'" "dr_id r \<notin> dr_id ` set (drops (sv_st s))"
    "\<exists>kind i. r = new_drop (d, kind, h, ip) i" "s' = s\<lparr>sv_st := (sv_st s)\<lparr>drops := drops (sv_st s) @ [r]\<rparr>\<rparr>"
proof -
  let ?k = "if d_Kind d = [] then ''file'' else d_Kind d"
  define i where "i = next_id (map dr_id (drops (sv_st s)))"
  have s': "s' = s\<lparr>sv_st := (sv_st s)\<lparr>drops := drops (sv_st s) @ [new_drop (d, ?k, h, ip) i]\<rparr>\<rparr>" "d_ID d' = i"
    using assms by (auto simp: db_def CreateDrop_def insert_row_def Let_def i_def split: if_splits)
  moreover have "dr_id (new_drop (d, ?k, h, ip) i) = i" by (simp add: new_drop_def)
  moreover have "i \<notin> dr_id ` set (drops (sv_st s))"
    using next_id_fresh [of "map dr_id (drops (sv_st s))"] by (simp add: i_def)
  ultimately show ?thesis by (intro that [of "new_drop (d, ?k, h, ip) i"]) auto
qed

lemma CreateUploadSession_authed:
  assumes "db_err (CreateUploadSession \<lparr>u_ID = sid, u_DropID = i, u_Wrapped = sw, u_ExpiresAt = e\<rparr> now) s = (Inr v, s')"
    and "UnwrapKeyWithToken K sw tok ''upload'' = Inr dek" "sv_now s + Second \<le> e"
  shows "authed K sid tok i dek s'" "\<exists>us. s' = s\<lparr>sv_st := (sv_st s)\<lparr>upload_sessions := us\<rparr>\<rparr>"
proof -
  let ?u = "\<lparr>s_id = sid, s_drop_id = i, s_wrapped = sw, s_created_at = Unix now, s_expires_at = Unix e\<rparr>"
  have s': "s' = s\<lparr>sv_st := (sv_st s)\<lparr>upload_sessions := upload_sessions (sv_st s) @ [?u]\<rparr>\<rparr>"
    and new: "sid \<notin> s_id ` set (upload_sessions (sv_st s))"
    using assms(1) by (auto simp: db_err_def CreateUploadSession_def split: if_splits)
  have "find (\<lambda>u. s_id u = sid \<and> s_expires_at u > Unix (sv_now s)) (upload_sessions (sv_st s)) = None"
    using new by (auto simp: find_None)
  moreover have "Unix (sv_now s) < Unix e"
    using Unix_mono [OF assms(3)] by (simp add: Unix_def Second_def)
  ultimately show "authed K sid tok i dek s'"
    using assms(2) by (simp add: authed_def UploadSessionByID_def s' find_append)
  show "\<exists>us. s' = s\<lparr>sv_st := (sv_st s)\<lparr>upload_sessions := us\<rparr>\<rparr>" using s' by blast
qed

lemma UnwrapKey_WrapKey:
  assumes "WrapKey K dek pw t = (Inr w, t')" "good_kdf K"
  shows "UnwrapKey K w pw = Inr dek" "length dek = KeySize"
proof -
  show dek: "length dek = KeySize" using assms(1) by (auto simp: WrapKey_def split: if_splits)
  have "saltSize + nonceSize \<le> length t"
    using assms(1) by (auto simp: WrapKey_def rand_Read_def Let_def split: if_splits sum.splits prod.splits)
  then show "UnwrapKey K w pw = Inr dek"
    using assms dek WrapKey_ok [OF assms(2) dek] UnwrapKey_wrap_blob [OF assms(2)] by auto
qed

lemma UnwrapKeyWithToken_Wrap:
  "WrapKeyWithToken K dek tok p t = (Inr w, t') \<Longrightarrow> length dek = KeySize \<Longrightarrow> UnwrapKeyWithToken K w tok p = Inr dek"
  by (rule UnwrapKeyWithToken_Seal) (simp_all add: WrapKeyWithToken_def DeriveFromToken_def)

lemma draw_E:
  assumes "draw r s = (Inr v, s')"
  obtains t t' where "r t = (Inr v, t')"
  using assms by (auto simp: draw_def split: prod.splits)

definition share_open ::
  "kdf \<Rightarrow> StartRequest \<Rightarrow> StartResult \<Rightarrow> drop_row \<Rightarrow> bytes \<Rightarrow> File list \<Rightarrow> service \<Rightarrow> bool" where
  "share_open K req x r dek fs s \<longleftrightarrow>
     r \<in> set (drops (sv_st s)) \<and> dr_key r = x_Key x \<and> dr_status r = StatusPending \<and> dr_downloads r = 0 \<and>
     1 \<le> dr_max_downloads r \<and> dr_blocked_at r = None \<and> Unix (sv_now s) < dr_expires_at r \<and>
     UnwrapKey K (dr_wrapped_dek r) (x_Password x) = Inr dek \<and>
     authed K (x_SessionID x) (x_Token x) (dr_id r) dek s \<and>
     filter (\<lambda>f. f_DropID f = dr_id r) (files (sv_st s)) = fs \<and>
     length (x_Files x) = length (sr_Files req) \<and> length fs = length (sr_Files req) \<and>
     (\<forall>j < length fs. new_file_of (x_Key x) dek (dr_id r) (sr_Files req ! j) (x_Files x ! j) (fs ! j)) \<and>
     (\<forall>f \<in> set fs. startable dek f s \<and> 0 \<le> f_Size f) \<and> map f_Ordinal fs = map int [0..<length fs]"

text \<open>The states between the calls, with what the purely random steps leave unchanged.\<close>

lemma StartUpload_steps:
  assumes run: "StartUpload K ip req s = (Inr x, s')" and kdf: "good_kdf K"
  obtains dek wrapped drop sw v s5 s6 s7 s10 mh where
    "only_rand s s5" "only_rand s7 s10" "\<forall>fr \<in> set (sr_Files req). 0 \<le> q_Size fr"
    "1 \<le> sr_Days req" "1 \<le> sr_MaxDownloads req" "length dek = KeySize"
    "UnwrapKey K wrapped (x_Password x) = Inr dek"
    "UnwrapKeyWithToken K sw (x_Token x) ''upload'' = Inr dek"
    "db (CreateDrop (draft_drop req (x_Key x) wrapped mh (sv_now s5))
        (sr_UploaderHash req) (sr_UploaderIP req)) s5 = (Inr drop, s6)"
    "startFiles (x_Key x) dek (d_ID drop) 0 (sr_Files req) s6 = (Inr (x_Files x), s7)"
    "db_err (CreateUploadSession
        \<lparr>u_ID = x_SessionID x, u_DropID = d_ID drop, u_Wrapped = sw,
         u_ExpiresAt = sv_now s5 + UploadTTL (sv_cfg s5)\<rparr> (sv_now s5)) s10 = (Inr v, s')"
proof (rule StartUpload_run [OF run])
  fix u pw dek wrapped key mt drop sfs tok sw sid v s0 s1 s2 s3 s4 s5 s6 s7 s8 s9 s10
  assume v: "validateStart ip req s = (Inr u, s0)"
    and pw: "(if sr_Password req = [] then draw NewPassword else ret (sr_Password req)) s0 = (Inr pw, s1)"
    and dek: "draw NewKey s1 = (Inr dek, s2)" "draw (WrapKey K dek pw) s2 = (Inr wrapped, s3)"
    and key: "uniqueKey s3 = (Inr key, s4)" "manageSecret (sr_Manage req) s4 = (Inr mt, s5)"
    and cd: "db (CreateDrop (draft_drop req key wrapped (snd mt) (sv_now s5))
        (sr_UploaderHash req) (sr_UploaderIP req)) s5 = (Inr drop, s6)"
    and sf: "startFiles key dek (d_ID drop) 0 (sr_Files req) s6 = (Inr sfs, s7)"
    and tk: "draw NewToken s7 = (Inr tok, s8)"
      "draw (WrapKeyWithToken K dek tok ''upload'') s8 = (Inr sw, s9)" "draw NewToken s9 = (Inr sid, s10)"
    and us: "db_err (CreateUploadSession \<lparr>u_ID = sid, u_DropID = d_ID drop, u_Wrapped = sw,
        u_ExpiresAt = sv_now s5 + UploadTTL (sv_cfg s5)\<rparr> (sv_now s5)) s10 = (Inr v, s')"
    and x: "x = \<lparr>x_Key = key, x_Password = pw, x_SessionID = sid, x_Token = tok,
          x_PartSize = PartSize (sv_cfg s5), x_ExpiresAt = sv_now s5 + UploadTTL (sv_cfg s5), x_Files = sfs,
          x_ManageToken = fst mt\<rparr>"
  have "only_rand s s1" using pw validateStart_Inr(1) [OF v] by (auto simp: ret_def intro: only_rand_draw split: if_splits)
  moreover have "only_rand s3 s4" using key(1) only_rand_uniqueKey_loop by (simp add: uniqueKey_def)
  ultimately have 1: "only_rand s s5"
    using dek [THEN only_rand_draw] only_rand_manageSecret [OF key(2)] by (meson only_rand_trans)
  have 2: "only_rand s7 s10" using tk [THEN only_rand_draw] by (meson only_rand_trans)
  obtain t t' where "WrapKey K dek pw t = (Inr wrapped, t')" using dek(2) by (rule draw_E)
  note w = UnwrapKey_WrapKey [OF this kdf]
  obtain t2 t2' where "WrapKeyWithToken K dek tok ''upload'' t2 = (Inr sw, t2')" using tk(2) by (rule draw_E)
  note tw = UnwrapKeyWithToken_Wrap [OF this w(2)]
  show thesis
    using that [OF 1 2 validateStart_Inr(4,2,3) [OF v] w(2)] w(1) tw cd sf us by (simp add: x)
qed

lemma StartUpload_Inr:
  assumes run: "StartUpload K ip req s = (Inr x, s')" and ok: "store_ok (sv_st s)" and kdf: "good_kdf K"
    and ttl: "Second \<le> UploadTTL (sv_cfg s)"
  obtains r dek fs where "share_open K req x r dek fs s'" "sv_now s' = sv_now s" "sv_cfg s' = sv_cfg s"
proof (rule StartUpload_steps [OF run kdf])
  fix dek wrapped drop sw v s5 s6 s7 s10 mh
  assume or: "only_rand s s5" "only_rand s7 s10"
    and v: "\<forall>fr \<in> set (sr_Files req). 0 \<le> q_Size fr" "1 \<le> sr_Days req" "1 \<le> sr_MaxDownloads req"
    and k: "length dek = KeySize" "UnwrapKey K wrapped (x_Password x) = Inr dek"
      "UnwrapKeyWithToken K sw (x_Token x) ''upload'' = Inr dek"
    and cd: "db (CreateDrop (draft_drop req (x_Key x) wrapped mh (sv_now s5))
        (sr_UploaderHash req) (sr_UploaderIP req)) s5 = (Inr drop, s6)"
    and sf: "startFiles (x_Key x) dek (d_ID drop) 0 (sr_Files req) s6 = (Inr (x_Files x), s7)"
    and us: "db_err (CreateUploadSession
        \<lparr>u_ID = x_SessionID x, u_DropID = d_ID drop, u_Wrapped = sw,
         u_ExpiresAt = sv_now s5 + UploadTTL (sv_cfg s5)\<rparr> (sv_now s5)) s10 = (Inr v, s')"
  obtain t5 t10 where s5: "s5 = s\<lparr>sv_rand := t5\<rparr>" and s10: "s10 = s7\<lparr>sv_rand := t10\<rparr>"
    using or by (auto simp: only_rand_def)
  obtain r kind i where r: "dr_id r = d_ID drop" "dr_id r \<notin> dr_id ` set (drops (sv_st s))"
      "s6 = s5\<lparr>sv_st := (sv_st s)\<lparr>drops := drops (sv_st s) @ [r]\<rparr>\<rparr>"
    and rn: "r = new_drop (draft_drop req (x_Key x) wrapped mh (sv_now s5), kind, sr_UploaderHash req, sr_UploaderIP req) i"
    by (rule CreateDrop_Inr [OF cd], elim exE) (use s5 in simp)
  have rf: "dr_key r = x_Key x" "dr_status r = StatusPending" "dr_downloads r = 0" "dr_blocked_at r = None"
      "dr_max_downloads r = sr_MaxDownloads req" "dr_wrapped_dek r = wrapped"
      "dr_expires_at r = Unix (AddDays (sv_now s) (sr_Days req))"
    by (simp_all add: rn new_drop_def draft_drop_def s5)
  obtain fs where fs: "files (sv_st s7) = files (sv_st s6) @ fs" "length (x_Files x) = length (sr_Files req)"
    "length fs = length (sr_Files req)"
    "\<forall>j < length (sr_Files req). new_file_of (x_Key x) dek (d_ID drop) (sr_Files req ! j) (x_Files x ! j) (fs ! j)"
    "\<forall>f \<in> set fs. startable dek f s7" "started (f_BlobPath ` set fs) s6 s7"
    "map f_Ordinal fs = map (\<lambda>j. 0 + int j) [0..<length (sr_Files req)]"
    by (rule startFiles_Inr [OF sf k(1)])
  have now: "sv_now s10 = sv_now s" "sv_cfg s10 = sv_cfg s" "sv_now s5 = sv_now s" "sv_cfg s5 = sv_cfg s"
    using fs(6) by (simp_all add: s10 s5 r(3) started_def)
  have auth: "authed K (x_SessionID x) (x_Token x) (d_ID drop) dek s'"
    and "\<exists>us. s' = s10\<lparr>sv_st := (sv_st s10)\<lparr>upload_sessions := us\<rparr>\<rparr>"
    using CreateUploadSession_authed [OF us k(3)] ttl now by simp_all
  then obtain us' where s': "s' = s10\<lparr>sv_st := (sv_st s10)\<lparr>upload_sessions := us'\<rparr>\<rparr>" by blast
  have dr: "drops (sv_st s') = drops (sv_st s) @ [r]" using fs(6) by (simp add: s' s10 started_def r(3))
  have own: "f_DropID f = dr_id r \<and> 0 \<le> f_Size f \<and> startable dek f s'" if f: "f \<in> set fs" for f
  proof -
    obtain j where "j < length (sr_Files req)" "f = fs ! j" using f fs(3) by (metis in_set_conv_nth)
    moreover have "startable dek f s' = startable dek f s7" by (simp add: startable_def s' s10 blob_def)
    ultimately show ?thesis using fs(4,5) f v(1) r(1) by (simp add: new_file_of_def)
  qed
  have "f_DropID ` set (files (sv_st s)) \<subseteq> dr_id ` set (drops (sv_st s))"
    using ok by (simp add: store_ok_def refs_ok_def)
  then have "\<forall>f \<in> set (files (sv_st s)). f_DropID f \<noteq> dr_id r" using r(2) by (metis imageI subsetD)
  then have "filter (\<lambda>f. f_DropID f = dr_id r) (files (sv_st s')) = fs"
    using own fs(1) unfolding s' s10 by (simp add: r(3))
  moreover have "Unix (sv_now s) < Unix (AddDays (sv_now s) (sr_Days req))"
    using v(2) by (simp add: Unix_def AddDays_def duration_defs)
  ultimately have "share_open K req x r dek fs s'"
    unfolding share_open_def using auth k(2) fs(2-4,7) own dr r(1) v(3) now rf by (simp add: s')
  then show ?thesis using now by (intro that) (simp_all add: s')
qed

end
