(* ===== verification/Delivery.thy ===== *)
theory Delivery
  imports Start_Correct
begin

text \<open>
  Publishing and delivering a share: \<open>FinishUpload\<close> makes a completely uploaded drop live,
  \<open>Unlock\<close> with its password lists the files, and \<open>OpenFile\<close> delivers their bytes from any
  offset.  The last theorem composes the whole path from \<open>StartUpload\<close> to the bytes read.
\<close>

subsection \<open>Opening a file\<close>

lemma claimSession_ok:
  assumes "store_ok (sv_st s)"
    and "ss_claimed x \<or> (\<exists>r \<in> set (drops (sv_st s)). claimable (ss_dropKey x) (sv_now s) r)"
  obtains s' where "claimSession tok x s = (Inr (), s')" "files (sv_st s') = files (sv_st s)" "sv_fs s' = sv_fs s"
proof (cases "ss_claimed x")
  case True
  then show ?thesis by (intro that [of s]) (simp_all add: claimSession_def claimOnce_def)
next
  case False
  then obtain r where r: "r \<in> set (drops (sv_st s))" "claimable (ss_dropKey x) (sv_now s) r" using assms(2) by blast
  then have "drop_by_key (ss_dropKey x) (sv_st s) = Some r"
    using drop_by_key_Some [OF assms(1)] by (simp add: claimable_def)
  then have "\<exists>st d. ClaimDownload (ss_dropKey x) (sv_now s) (sv_st s) = (Inr d, st) \<and> files st = files (sv_st s)"
    using r(2) by (simp add: ClaimDownload_cases [OF assms(1)])
  then obtain st d where c: "ClaimDownload (ss_dropKey x) (sv_now s) (sv_st s) = (Inr d, st)" "files st = files (sv_st s)"
    by blast
  show ?thesis
    using False c
    by (intro that [of "snd (claimSession tok x s)"]) (simp_all add: claimSession_def claimOnce_def claimDownload_def BumpUsage_def)
qed

lemma OpenFile_delivers:
  assumes ok: "store_ok (sv_st s)" and sess: "map_of (sv_down s) tok = Some x" "sv_now s \<le> ss_expiresAt x"
    and claim: "ss_claimed x \<or> (\<exists>r \<in> set (drops (sv_st s)). claimable (ss_dropKey x) (sv_now s) r)"
    and f: "FileByID (ss_dropID x) k (sv_st s) = Inr f" "Open (ss_dek x) (f_NameEnc f) = Inr nm"
    and c: "blob (f_BlobPath f) s = Some b" "sealed (ss_dek x) c b" "f_Size f = int (length c)" "f_Size f < 2 ^ 61"
    and off: "0 \<le> off" "off \<le> f_Size f"
  obtains r s' where "OpenFile tok k off s = (Inr (r, \<lparr>uf_ID = f_ID f, uf_Name = string_of nm, uf_Size = f_Size f\<rparr>), s')"
    "readAll r = (drop (nat off) c, None)"
proof -
  obtain s1 where s1: "claimSession tok x s = (Inr (), s1)" "files (sv_st s1) = files (sv_st s)" "sv_fs s1 = sv_fs s"
    by (rule claimSession_ok [OF ok claim])
  have g: "getSession tok s = (Inr x, s)" using sess by (simp add: getSession_Inr)
  have f1: "FileByID (ss_dropID x) k (sv_st s1) = Inr f" using f(1) s1(2) by (simp add: FileByID_def)
  have b1: "openBlob (f_BlobPath f) s1 = (Inr b, s1)" using c(1) s1(3) by (simp add: openBlob_def blob_def)
  note step = OpenFile_def andThen_Inr [where m = "getSession tok", OF g] andThen_Inr [where m = "claimSession tok x", OF s1(1)] andThen_def [of "notFound _"] notFound_def query_def
    f1 lift_res_def andThen_def [of "lift_res _"] f(2) andThen_Inr [where m = "openBlob (f_BlobPath f)", OF b1] Let_def ret_def
  show ?thesis
  proof (cases "off = f_Size f")
    case True
    then show ?thesis
      using off c(3) by (intro that [of EmptyReader s1]) (simp_all add: step readAll_def)
  next
    case False
    obtain pfx cs d where k: "good_key (ss_dek x) pfx" "full_chunks cs" "length d \<le> ChunkSize"
      "concat cs @ d = c" "b = stream_of (ss_dek x) pfx cs d"
      using c(2) by (auto simp: sealed_def)
    have "\<exists>r. OpenAt (file_source b) (ss_dek x) (int (nat off)) = Inr r \<and> CopyAll r = (drop (nat off) c, None)"
      by (rule OpenAt_stream [OF k(1-3), of "nat off"]) (use k off c(3,4) False in \<open>auto simp: CopyAll_pending\<close>)
    then obtain r where r: "OpenAt (file_source b) (ss_dek x) off = Inr r" "CopyAll r = (drop (nat off) c, None)"
      using off(1) by auto
    show ?thesis
      using off False r by (intro that [of "FileReader r" s1]) (simp_all add: step readAll_def)
  qed
qed

subsection \<open>Finishing\<close>

lemma FinishUpload_ok:
  assumes auth: "authed K sid tok i dek s" and ok: "store_ok (sv_st s)"
    and r: "r \<in> set (drops (sv_st s))" "dr_id r = i"
    and full: "\<forall>f \<in> set (files (sv_st s)). f_DropID f = i \<longrightarrow> Complete f \<and> 0 \<le> f_Size f"
    and tot: "sum_list (map f_Size (Files i (sv_st s))) < 2 ^ 63"
  defines "r' \<equiv> r\<lparr>dr_status := StatusReady, dr_total_bytes := sum_list (map f_Size (Files i (sv_st s)))\<rparr>"
  obtains st where "FinishUpload K sid tok s = (Inr (toDrop r'), s\<lparr>sv_st := st\<rparr>)" "store_ok st"
    "r' \<in> set (drops st)" "files st = files (sv_st s)"
proof -
  obtain u where u: "resolveSession K sid tok s = (Inr (u, dek), s)" "u_DropID u = i"
    using auth authed_resolve by blast
  define st1 where "st1 = snd (Finalize i (sv_st s))"
  note fin = Finalize_ok [OF full tot]
  have ok1: "store_ok st1" unfolding st1_def by (rule store_ok_Finalize [OF ok])
  have d1: "drops st1 = update_where (\<lambda>r. dr_id r = i)
      (\<lambda>r. r\<lparr>dr_status := StatusReady, dr_total_bytes := sum_list (map f_Size (Files i (sv_st s)))\<rparr>) (drops (sv_st s))"
    and f1: "files st1 = files (sv_st s)"
    unfolding st1_def fin by simp_all
  have r1: "r' \<in> set (drops st1)" using r unfolding d1 r'_def by (force simp: set_update_where)
  then have "drop_tab.by_id i (drops st1) = Some r'"
    using drop_tab.by_id_Some [of "drops st1" i r'] ok1 r(2) by (simp add: store_ok_def r'_def)
  then have dr: "DropByID i st1 = Inr (toDrop r')" by (simp add: DropByID_by_id)
  have fn: "Finalize i (sv_st s) = (None, st1)" unfolding st1_def fin by simp
  let ?st = "BumpUsage (DayKey (sv_now s)) 1 0 (d_TotalBytes (toDrop r')) st1"
  have "FinishUpload K sid tok s = (Inr (toDrop r'), s\<lparr>sv_st := ?st\<rparr>)"
    unfolding FinishUpload_def andThen_Inr [where m = "resolveSession K sid tok", OF u(1)]
    using fn dr u(2) by (simp add: andThen_def db_err_def query_def clock_def db_upd_def ret_def)
  then show ?thesis
    by (rule that) (use r1 f1 store_ok_BumpUsage [OF ok1] in \<open>simp_all add: BumpUsage_def\<close>)
qed

subsection \<open>Unlocking\<close>

lemma openNames_ok:
  "(\<And>f. f \<in> set fs \<Longrightarrow> Open dek (f_NameEnc f) = Inr (nm f)) \<Longrightarrow>
    openNames dek fs = Inr (map (\<lambda>f. \<lparr>uf_ID = f_ID f, uf_Name = string_of (nm f), uf_Size = f_Size f\<rparr>) fs)"
  by (induction fs) auto

lemma LiveDropByKey_claimable:
  assumes "store_ok st" "r \<in> set (drops st)" "claimable key now r"
  shows "LiveDropByKey key now st = Inr (toDrop r)"
proof -
  have "drop_by_key key st = Some r" using assms by (simp add: drop_by_key_Some claimable_def)
  then show ?thesis using assms(3) by (simp add: LiveDropByKey_def find_claimable [OF assms(1)])
qed

lemma Unlock_ok:
  assumes "store_ok (sv_st s)" "r \<in> set (drops (sv_st s))" "claimable key (sv_now s) r"
    and "UnwrapKey K (dr_wrapped_dek r) pw = Inr dek" "openNames dek (Files (dr_id r) (sv_st s)) = Inr ufs"
    and "NewToken (sv_rand s) = (Inr tok, t)"
  shows "Unlock K key pw s =
    (Inr \<lparr>un_Token = tok, un_ExpiresAt = sv_now s + DownloadTTL (sv_cfg s), un_Files = ufs,
          un_DeleteAllowed = (dr_delete_allowed r \<noteq> 0)\<rparr>,
     s\<lparr>sv_rand := t, sv_down := put tok \<lparr>ss_dropKey = dr_key r, ss_dropID = dr_id r, ss_dek = dek,
        ss_expiresAt = sv_now s + DownloadTTL (sv_cfg s), ss_claimed = False\<rparr> (sv_down s)\<rparr>)"
  using assms(4-6) LiveDropByKey_claimable [OF assms(1-3)]
  by (simp add: Unlock_def andThen_def clock_def notFound_def query_def draw_def config_def ret_def Let_def)

subsection \<open>From start to delivery\<close>

lemma share_open_ready:
  assumes "share_open K req x r dek fs s" "\<forall>fr \<in> set (sr_Files req). q_Size fr < 2 ^ 61"
  shows "have_all dek (\<lambda>_. []) (dr_id r) s" "paths_ok (dr_id r) (sv_st s)"
proof -
  have fs: "filter (\<lambda>f. f_DropID f = dr_id r) (files (sv_st s)) = fs" "length fs = length (sr_Files req)"
    using assms(1) by (simp_all add: share_open_def)
  have new: "new_file_of (x_Key x) dek (dr_id r) (sr_Files req ! j) (x_Files x ! j) (fs ! j) \<and> startable dek (fs ! j) s \<and> 0 \<le> f_Size (fs ! j)"
    if "j < length fs" for j
    using assms(1) that by (simp add: share_open_def)
  have get: "\<exists>j < length fs. f = fs ! j" if "f \<in> set (files (sv_st s))" "f_DropID f = dr_id r" for f
  proof -
    have "f \<in> set fs" unfolding fs(1) [symmetric] using that by simp
    then show ?thesis by (auto simp: in_set_conv_nth)
  qed
  show "have_all dek (\<lambda>_. []) (dr_id r) s"
    unfolding have_all_def
  proof (intro ballI impI)
    fix f assume "f \<in> set (files (sv_st s))" "f_DropID f = dr_id r"
    then obtain j where j: "j < length fs" "f = fs ! j" using get by blast
    moreover have "f_Size f < 2 ^ 61" using new [OF j(1)] j assms(2) fs(2) by (simp add: new_file_of_def)
    ultimately show "file_has dek [] f s"
      using new [OF j(1)] by (auto simp: file_has_def progress_def startable_def new_file_of_def split: if_splits)
  qed
  show "paths_ok (dr_id r) (sv_st s)"
    unfolding paths_ok_def
  proof (intro ballI impI)
    fix f g assume fg: "f \<in> set (files (sv_st s))" "g \<in> set (files (sv_st s))" "f_DropID f = dr_id r"
      "f_DropID g = dr_id r" "f_BlobPath f = f_BlobPath g"
    obtain i j where "i < length fs" "f = fs ! i" "j < length fs" "g = fs ! j" using get fg(1-4) by metis
    then show "f_ID f = f_ID g"
      using new [of i] new [of j] fg(5) blobRel_inject [of "f_ID f" "f_ID g" "x_Key x"] by (simp add: new_file_of_def)
  qed
qed

lemma filter_strip:
  assumes "map strip (files st') = map strip (files st)"
  shows "map strip (filter (\<lambda>f. f_DropID f = i) (files st')) = map strip (filter (\<lambda>f. f_DropID f = i) (files st))"
proof -
  have "map strip (filter (\<lambda>f. f_DropID f = i) fs) = filter (\<lambda>f. f_DropID f = i) (map strip fs)" for fs
    by (simp add: filter_map comp_def)
  then show ?thesis using assms by simp
qed

lemma sorted_Files:
  assumes "map f_Ordinal (filter (\<lambda>f. f_DropID f = i) (files st)) = map int [0..<n]"
  shows "Files i st = filter (\<lambda>f. f_DropID f = i) (files st)"
proof -
  have "sorted (map int [0..<n])" by (simp add: sorted_map sorted_wrt_upt)
  then show ?thesis unfolding Files_def by (intro sort_key_id_if_sorted) (simp add: assms)
qed

text \<open>The files of the share after all parts were sent.\<close>

definition share_sent ::
  "StartRequest \<Rightarrow> bytes list list list \<Rightarrow> int \<Rightarrow> bytes \<Rightarrow> File list \<Rightarrow> service \<Rightarrow> bool" where
  "share_sent req bodies i dek fs s \<longleftrightarrow>
     Files i (sv_st s) = fs \<and> length fs = length (sr_Files req) \<and>
     (\<forall>j < length fs. fs ! j \<in> set (files (sv_st s)) \<and> f_DropID (fs ! j) = i \<and>
        f_Size (fs ! j) = q_Size (sr_Files req ! j) \<and>
        Open dek (f_NameEnc (fs ! j)) = Inr (bytes_of (q_Name (sr_Files req ! j))) \<and>
        file_has dek (body (bodies ! j)) (fs ! j) s \<and>
        int (length (body (bodies ! j))) = f_Size (fs ! j))"

definition client_ok :: "StartRequest \<Rightarrow> bytes list list list \<Rightarrow> bool" where
  "client_ok req bodies \<longleftrightarrow>
     length bodies = length (sr_Files req) \<and> (\<forall>fr \<in> set (sr_Files req). q_Size fr < 2 ^ 61) \<and>
     sum_list (map q_Size (sr_Files req)) < 2 ^ 63 \<and>
     (\<forall>j < length bodies. whole_parts (bodies ! j) \<and> int (length (body (bodies ! j))) = q_Size (sr_Files req ! j))"

lemma share_jobs:
  assumes op: "share_open K req x r dek fs s" and ok: "store_ok (sv_st s)" and cl: "client_ok req bodies"
  shows "map sf_ID (x_Files x) = map f_ID fs" "distinct (map f_ID fs)" "length bodies = length fs"
    "\<forall>job \<in> set (zip (map f_ID fs) bodies). job_ok (dr_id r) (sv_st s) job"
proof -
  have len: "length (x_Files x) = length fs" "length bodies = length fs" "length (sr_Files req) = length fs"
    and fs: "filter (\<lambda>f. f_DropID f = dr_id r) (files (sv_st s)) = fs"
    using op cl by (simp_all add: share_open_def client_ok_def)
  have new: "new_file_of (x_Key x) dek (dr_id r) (sr_Files req ! j) (x_Files x ! j) (fs ! j)" if "j < length fs" for j
    using op that by (simp add: share_open_def)
  show "map sf_ID (x_Files x) = map f_ID fs"
    by (rule nth_equalityI) (use len new in \<open>auto simp: new_file_of_def\<close>)
  show "distinct (map f_ID fs)"
    unfolding fs [symmetric] using file_tab.ids_ok_distinct ok by (simp add: store_ok_def distinct_map_filter)
  show "length bodies = length fs" by (rule len(2))
  show "\<forall>job \<in> set (zip (map f_ID fs) bodies). job_ok (dr_id r) (sv_st s) job"
  proof
    fix job assume "job \<in> set (zip (map f_ID fs) bodies)"
    then obtain j where j: "j < length fs" "job = (f_ID (fs ! j), bodies ! j)" by (auto simp: set_zip len)
    have "f_Size (fs ! j) = int (length (body (bodies ! j)))" "whole_parts (bodies ! j)"
      using new [OF j(1)] cl j(1) len by (simp_all add: client_ok_def new_file_of_def)
    moreover have "fs ! j \<in> set (files (sv_st s)) \<and> f_DropID (fs ! j) = dr_id r"
      using nth_mem [OF j(1)] unfolding fs [symmetric] by auto
    ultimately show "job_ok (dr_id r) (sv_st s) job"
      unfolding job_ok_def using j by (auto intro!: bexI [of _ "fs ! j"])
  qed
qed

text \<open>Sending keeps everything about a file of the share but how much of it has arrived.\<close>

lemma share_open_sent:
  assumes op: "share_open K req x r dek fs s" and cl: "client_ok req bodies" and same: "same_share s s'"
    and all: "have_all dek cont (dr_id r) s'"
    and cont: "\<And>j. j < length fs \<Longrightarrow> cont (f_ID (fs ! j)) = body (bodies ! j)"
  shows "\<exists>fs'. share_sent req bodies (dr_id r) dek fs' s'"
proof -
  define fs' where "fs' = filter (\<lambda>f. f_DropID f = dr_id r) (files (sv_st s'))"
  have st: "map strip fs' = map strip fs"
    using filter_strip [of "sv_st s'" "sv_st s" "dr_id r"] same op by (simp add: same_share_def share_open_def fs'_def)
  then have len: "length fs' = length fs" by (metis length_map)
  have "map f_Ordinal fs' = map f_Ordinal (map strip fs')" by simp
  also have "\<dots> = map int [0..<length fs]" unfolding st using op by (simp add: share_open_def comp_def)
  finally have F: "Files (dr_id r) (sv_st s') = fs'" unfolding fs'_def by (rule sorted_Files)
  have "fs' ! j \<in> set (files (sv_st s')) \<and> f_DropID (fs' ! j) = dr_id r \<and>
        f_Size (fs' ! j) = q_Size (sr_Files req ! j) \<and>
        Open dek (f_NameEnc (fs' ! j)) = Inr (bytes_of (q_Name (sr_Files req ! j))) \<and>
        file_has dek (body (bodies ! j)) (fs' ! j) s' \<and>
        int (length (body (bodies ! j))) = f_Size (fs' ! j)" if "j < length fs'" for j
  proof -
    have j: "j < length fs" using that len by simp
    have "strip (fs' ! j) = strip (fs ! j)" using arg_cong [OF st, of "\<lambda>xs. xs ! j"] j len by simp
    then have eq: "f_ID (fs' ! j) = f_ID (fs ! j)" "f_Size (fs' ! j) = f_Size (fs ! j)" "f_NameEnc (fs' ! j) = f_NameEnc (fs ! j)"
      by (metis strip_simps)+
    have m: "fs' ! j \<in> set (files (sv_st s')) \<and> f_DropID (fs' ! j) = dr_id r"
      using nth_mem [OF that] by (auto simp: fs'_def)
    have "file_has dek (body (bodies ! j)) (fs' ! j) s'" using all m eq(1) cont [OF j] by (auto simp: have_all_def)
    then show ?thesis using m op j eq cl by (simp add: share_open_def new_file_of_def client_ok_def)
  qed
  then have "share_sent req bodies (dr_id r) dek fs' s'"
    using F len op by (simp add: share_sent_def share_open_def)
  then show ?thesis by blast
qed

lemma send_share:
  assumes op: "share_open K req x r dek fs s" and ok: "store_ok (sv_st s)" and cl: "client_ok req bodies"
    and rnd: "noncePrefixSize * sum_list (map length bodies) \<le> length (sv_rand s)"
  obtains s' fs' where "send_all K (x_SessionID x) (x_Token x) (zip (map sf_ID (x_Files x)) bodies) s = (Inr (), s')"
    "same_share s s'" "store_ok (sv_st s')" "share_sent req bodies (dr_id r) dek fs' s'"
proof -
  note j = share_jobs [OF op ok cl]
  let ?jobs = "zip (map f_ID fs) bodies"
  have "authed K (x_SessionID x) (x_Token x) (dr_id r) dek s" using op by (simp add: share_open_def)
  moreover have "have_all dek (\<lambda>_. []) (dr_id r) s" "paths_ok (dr_id r) (sv_st s)"
    using share_open_ready [OF op] cl by (simp_all add: client_ok_def)
  moreover have "map snd ?jobs = bodies" "map fst ?jobs = map f_ID fs" using j(3) by simp_all
  ultimately obtain s' where s': "send_all K (x_SessionID x) (x_Token x) ?jobs s = (Inr (), s')" "same_share s s'"
      "store_ok (sv_st s')" "have_all dek (contents ?jobs (\<lambda>_. [])) (dr_id r) s'"
    using send_all_ok [of K "x_SessionID x" "x_Token x" "dr_id r" dek s "\<lambda>_. []" ?jobs] ok j(2,4) rnd
    by (auto simp flip: map_map)
  have "contents ?jobs (\<lambda>_. []) (f_ID (fs ! i)) = body (bodies ! i)" if "i < length fs" for i
    using map_of_zip_nth [of "map f_ID fs" bodies i] j(2,3) that by (simp add: contents_def)
  then obtain fs' where "share_sent req bodies (dr_id r) dek fs' s'"
    using share_open_sent [OF op cl s'(2,4)] by blast
  with s'(1-3) j(1) show ?thesis using that by simp
qed

text \<open>A finished share: live under its key, unlocked by its password, every file complete.\<close>

definition share_live ::
  "kdf \<Rightarrow> string \<Rightarrow> string \<Rightarrow> StartRequest \<Rightarrow> bytes list list list \<Rightarrow> drop_row \<Rightarrow> bytes \<Rightarrow> File list \<Rightarrow> service \<Rightarrow> bool" where
  "share_live K key pw req bodies r dek fs s \<longleftrightarrow>
     store_ok (sv_st s) \<and> r \<in> set (drops (sv_st s)) \<and> claimable key (sv_now s) r \<and>
     UnwrapKey K (dr_wrapped_dek r) pw = Inr dek \<and> share_sent req bodies (dr_id r) dek fs s"

lemma finish_share:
  assumes op: "share_open K req x r dek fs s" and same: "same_share s s'" and ok: "store_ok (sv_st s')"
    and sent: "share_sent req bodies (dr_id r) dek fs' s'" and cl: "client_ok req bodies"
  obtains d s'' r' where "FinishUpload K (x_SessionID x) (x_Token x) s' = (Inr d, s'')" "d_Key d = x_Key x"
    "d_Status d = StatusReady" "sv_cfg s'' = sv_cfg s" "sv_now s'' = sv_now s"
    "share_live K (x_Key x) (x_Password x) req bodies r' dek fs' s''"
proof -
  have auth: "authed K (x_SessionID x) (x_Token x) (dr_id r) dek s'"
    using op same by (simp add: share_open_def same_share_def authed_def UploadSessionByID_def)
  have r: "r \<in> set (drops (sv_st s'))" using op same by (simp add: share_open_def same_share_def)
  have F: "Files (dr_id r) (sv_st s') = fs'" using sent by (simp add: share_sent_def)
  have full: "\<forall>f \<in> set (files (sv_st s')). f_DropID f = dr_id r \<longrightarrow> Complete f \<and> 0 \<le> f_Size f"
  proof (intro ballI impI)
    fix f assume "f \<in> set (files (sv_st s'))" "f_DropID f = dr_id r"
    then have "f \<in> set fs'" using F by (auto simp: Files_def)
    then obtain j where "j < length fs'" "f = fs' ! j" by (auto simp: in_set_conv_nth)
    then have "file_has dek (body (bodies ! j)) f s'" "int (length (body (bodies ! j))) = f_Size f"
      using sent by (auto simp: share_sent_def)
    then show "Complete f \<and> 0 \<le> f_Size f" using file_has_received [of dek] by (force simp: Complete_def)
  qed
  have "map f_Size fs' = map q_Size (sr_Files req)"
    by (rule nth_equalityI) (use sent in \<open>auto simp: share_sent_def\<close>)
  then have tot: "sum_list (map f_Size (Files (dr_id r) (sv_st s'))) < 2 ^ 63" using cl by (simp add: F client_ok_def)
  let ?r = "r\<lparr>dr_status := StatusReady, dr_total_bytes := sum_list (map f_Size (Files (dr_id r) (sv_st s')))\<rparr>"
  obtain st where st: "FinishUpload K (x_SessionID x) (x_Token x) s' = (Inr (toDrop ?r), s'\<lparr>sv_st := st\<rparr>)"
    "store_ok st" "?r \<in> set (drops st)" "files st = files (sv_st s')"
    by (rule FinishUpload_ok [OF auth ok r refl full tot])
  have "file_has dek c f (s'\<lparr>sv_st := st\<rparr>) = file_has dek c f s'" for c f
    by (simp add: file_has_def progress_def blob_def)
  then have "share_sent req bodies (dr_id r) dek fs' (s'\<lparr>sv_st := st\<rparr>)"
    using sent st(4) by (simp add: share_sent_def Files_def)
  then have "share_live K (x_Key x) (x_Password x) req bodies ?r dek fs' (s'\<lparr>sv_st := st\<rparr>)"
    using st(2,3) op same by (simp add: share_live_def claimable_def share_open_def same_share_def)
  then show ?thesis using op same by (intro that [OF st(1)]) (simp_all add: share_open_def same_share_def)
qed

text \<open>What a client that holds the key and the password gets from a live share.\<close>

lemma live_share_delivers:
  assumes live: "share_live K key pw req bodies r dek fs s" and ttl: "0 \<le> DownloadTTL (sv_cfg s)"
    and tk: "NewToken (sv_rand s) = (Inr tok, t)"
  obtains un s' where "Unlock K key pw s = (Inr un, s')" "un_Token un = tok"
    "map uf_Name (un_Files un) = map q_Name (sr_Files req)" "map uf_Size (un_Files un) = map q_Size (sr_Files req)"
    "\<And>j off. j < length (un_Files un) \<Longrightarrow> 0 \<le> off \<Longrightarrow> off \<le> uf_Size (un_Files un ! j) \<Longrightarrow>
       \<exists>rd s''. OpenFile tok (uf_ID (un_Files un ! j)) off s' = (Inr (rd, un_Files un ! j), s'') \<and>
         readAll rd = (drop (nat off) (body (bodies ! j)), None)"
proof -
  let ?i = "dr_id r"
  define nm where "nm f = (case Open dek (f_NameEnc f) of Inr n \<Rightarrow> n | Inl e \<Rightarrow> [])" for f :: File
  define uf where "uf f = \<lparr>uf_ID = f_ID f, uf_Name = string_of (nm f), uf_Size = f_Size f\<rparr>" for f :: File
  have l: "store_ok (sv_st s)" "r \<in> set (drops (sv_st s))" "claimable key (sv_now s) r"
      "UnwrapKey K (dr_wrapped_dek r) pw = Inr dek" and sent: "share_sent req bodies ?i dek fs s"
    using live by (simp_all add: share_live_def)
  have F: "Files ?i (sv_st s) = fs" "length fs = length (sr_Files req)" using sent by (simp_all add: share_sent_def)
  have fj: "fs ! j \<in> set (files (sv_st s))" "f_DropID (fs ! j) = ?i" "f_Size (fs ! j) = q_Size (sr_Files req ! j)"
      "nm (fs ! j) = bytes_of (q_Name (sr_Files req ! j))" "Open dek (f_NameEnc (fs ! j)) = Inr (nm (fs ! j))"
      "file_has dek (body (bodies ! j)) (fs ! j) s" "f_Size (fs ! j) = int (length (body (bodies ! j)))"
    if "j < length fs" for j
    using sent that by (simp_all add: share_sent_def nm_def)
  have "Open dek (f_NameEnc f) = Inr (nm f)" if "f \<in> set fs" for f
    using that fj(5) by (metis in_set_conv_nth)
  then have names: "openNames dek (Files ?i (sv_st s)) = Inr (map uf fs)"
    unfolding F(1) uf_def by (rule openNames_ok)
  let ?x = "\<lparr>ss_dropKey = dr_key r, ss_dropID = ?i, ss_dek = dek,
        ss_expiresAt = sv_now s + DownloadTTL (sv_cfg s), ss_claimed = False\<rparr>"
  let ?s = "s\<lparr>sv_rand := t, sv_down := put tok ?x (sv_down s)\<rparr>"
  have open_ok: "\<exists>rd s''. OpenFile tok (f_ID (fs ! j)) off ?s = (Inr (rd, uf (fs ! j)), s'') \<and>
         readAll rd = (drop (nat off) (body (bodies ! j)), None)"
    if j: "j < length fs" and off: "0 \<le> off" "off \<le> f_Size (fs ! j)" for j off
  proof -
    note f = fj [OF j]
    obtain b where b: "blob (f_BlobPath (fs ! j)) s = Some b" "sealed dek (body (bodies ! j)) b" "f_Size (fs ! j) < 2 ^ 61"
      using f(6,7) by (auto simp: file_has_def)
    show ?thesis
    proof (rule OpenFile_delivers [of ?s tok ?x "f_ID (fs ! j)" "fs ! j" "nm (fs ! j)" b "body (bodies ! j)" off])
      show "FileByID (ss_dropID ?x) (f_ID (fs ! j)) (sv_st ?s) = Inr (fs ! j)"
        using f(1,2) FileByID_iff [OF l(1)] by simp
      show "ss_claimed ?x \<or> (\<exists>r \<in> set (drops (sv_st ?s)). claimable (ss_dropKey ?x) (sv_now ?s) r)"
        using l(2,3) by (auto simp: claimable_def)
    qed (use l(1) f b off ttl in \<open>auto simp: put_def map_of_tab_put blob_def uf_def\<close>)
  qed
  have q: "map q_Name (sr_Files req) = map uf_Name (map uf fs)" "map q_Size (sr_Files req) = map uf_Size (map uf fs)"
    by (rule nth_equalityI; use F(2) fj in \<open>simp add: uf_def\<close>)+
  show ?thesis
    by (rule that [OF Unlock_ok [OF l names tk]]) (use q open_ok in \<open>simp_all add: uf_def\<close>)
qed

subsection \<open>A share on a fresh server\<close>

definition sample_service :: service where
  "sample_service = \<lparr>sv_st = empty_store, sv_cfg = DefaultConfig ''/srv/blobs'', sv_down = [], sv_tickets = [],
     sv_fs = \<lparr>fs_files = [], fs_dirs = [[]], fs_denied = []\<rparr>, sv_rand = replicate 500 0, sv_now = 0\<rparr>"

definition sample_request :: StartRequest where
  "sample_request = \<lparr>sr_Files = [\<lparr>q_Name = ''a.txt'', q_Size = 3\<rparr>], sr_Days = 1, sr_MaxDownloads = 1,
     sr_Password = ''pw'', sr_AllowDelete = False, sr_Kind = [], sr_Manage = False, sr_UploaderHash = [],
     sr_UploaderIP = []\<rparr>"

text \<open>The same with a file of another size.\<close>

definition sized_request :: "int \<Rightarrow> StartRequest" where
  "sized_request n = sample_request\<lparr>sr_Files := [\<lparr>q_Name = ''a.txt'', q_Size = n\<rparr>]\<rparr>"

lemma rand_Read_zeros: "k \<le> n \<Longrightarrow> rand_Read k (replicate n 0) = (Inr (replicate k 0), replicate (n - k) 0)"
  by (simp add: rand_Read_def)

lemma randomString_zeros:
  "k \<le> n \<Longrightarrow> a \<noteq> [] \<Longrightarrow> randomString a k (replicate n 0) = (Inr (replicate k (hd a)), replicate (n - k) 0)"
proof (induction k arbitrary: n)
  case (Suc k)
  then obtain m where m: "n = Suc m" by (cases n) auto
  have "rand_Int (length a) (0 # t) = (Inr 0, t)" for t using Suc.prems(2) by simp
  then show ?case using Suc by (simp add: m hd_conv_nth)
qed simp

lemma sample_service_reachable: "svc_reachable K ip sample_service"
  by (rule svc_reachable.init [where cfg = "DefaultConfig ''/srv/blobs''"
        and fs = "\<lparr>fs_files = [], fs_dirs = [[]], fs_denied = []\<rparr>" and rnd = "replicate 500 0" and now = 0])
     (simp_all add: New_def Validate_def DefaultConfig_def sample_service_def duration_defs ChunkSize_def st_ok_empty)

lemma sample_uniqueKey:
  assumes "sv_rand s = replicate 440 0" "drops (sv_st s) = []"
  shows "uniqueKey s = (Inr (replicate 14 (hd keyAlphabet)), s\<lparr>sv_rand := replicate 426 0\<rparr>)"
proof -
  have u: "uniqueKey = uniqueKey_loop (Suc 7)" by (simp add: uniqueKey_def eval_nat_numeral)
  have "NewDropKey (replicate 440 0) = (Inr (replicate 14 (hd keyAlphabet)), replicate 426 0)"
    unfolding NewDropKey_def by (subst randomString_zeros) (simp_all add: keyAlphabet_def keyLength_def)
  then show ?thesis
    unfolding u uniqueKey_loop.simps using assms by (simp add: andThen_def draw_def DropByKey_def ret_def)
qed

lemma sample_startFile:
  assumes "Seal dek (bytes_of nm) (sv_rand s) = (Inr ne, t)" "drops (sv_st s) = [r]" "dr_id r = i" "fs_denied (sv_fs s) = []"
    "14 \<le> length key" "n \<noteq> 0"
  shows "\<exists>sfs s'. startFiles key dek i 0 [\<lparr>q_Name = nm, q_Size = n\<rparr>] s = (Inr sfs, s') \<and> sv_rand s' = t \<and>
    drops (sv_st s') = [r] \<and> upload_sessions (sv_st s') = upload_sessions (sv_st s) \<and> sv_now s' = sv_now s"
  using assms
  by (simp add: startFile_def andThen_def draw_def db_def AddFile_def insert_row_def Let_def blobRel_def lift_res_def
    db_upd_def SetBlobPath_def MkdirAll_def ret_def)

lemma sample_session:
  assumes "sv_rand s = replicate (n + 76) 0" "drops (sv_st s) = [r]" "dr_id r = i" "upload_sessions (sv_st s) = []"
    "length dek = KeySize"
  shows "\<exists>x s'. andThen (draw NewToken) (\<lambda>token.
     andThen (draw (WrapKeyWithToken sample_kdf dek token ''upload'')) (\<lambda>sessionWrapped.
     andThen (draw NewToken) (\<lambda>sessionID.
     andThen (db_err (CreateUploadSession
        \<lparr>u_ID = sessionID, u_DropID = i, u_Wrapped = sessionWrapped, u_ExpiresAt = e\<rparr> now)) (\<lambda>_.
     ret (g token sessionID))))) s = (Inr x, s') \<and> sv_rand s' = replicate n 0"
proof -
  have tk: "NewToken (replicate (m + 32) 0) = (Inr (replicate 32 (hd passwordAlphabet)), replicate m 0)" for m
    unfolding NewToken_def by (subst randomString_zeros) (simp_all add: passwordAlphabet_def)
  define tok where "tok = replicate 32 (hd passwordAlphabet)"
  obtain w where "WrapKeyWithToken sample_kdf dek tok ''upload'' (replicate (n + 44) 0) = (Inr w, replicate (n + 32) 0)"
    using Seal_ok [of "hkdf_sha256 sample_kdf (bytes_of tok) (bytes_of ''upload'') KeySize" "replicate (n + 44) 0"] sample_kdf_good
    by (auto simp: WrapKeyWithToken_def DeriveFromToken_def good_kdf_def size_defs)
  moreover have "NewToken (replicate (n + 76) 0) = (Inr tok, replicate (n + 44) 0)"
    using tk [of "n + 44", folded tok_def] by (simp add: add.commute)
  ultimately show ?thesis
    using assms tk [of n, folded tok_def]
    by (simp add: andThen_def draw_def db_err_def CreateUploadSession_def ret_def)
qed

lemma sized_start:
  assumes n: "0 < n" "n \<le> 2 ^ 30"
  shows "\<exists>x s. StartUpload sample_kdf linear_interp (sized_request n) sample_service = (Inr x, s) \<and> sv_rand s = replicate 338 0"
proof -
  have v: "validateStart linear_interp (sized_request n) sample_service = (Inr (), sample_service)"
    using n by (simp add: validateStart_def sized_request_def sample_request_def andThen_def config_def lift_res_def ret_def
      MaxUploadBytes_def geomLimit_def DefaultConfig_def sample_service_def)
  let ?dek = "replicate 32 0 :: bytes" and ?S = "\<lambda>n. sample_service\<lparr>sv_rand := replicate n 0\<rparr>"
  obtain w where w: "WrapKey sample_kdf ?dek ''pw'' (replicate 468 0) = (Inr w, replicate 440 0)"
    using WrapKey_ok [OF sample_kdf_good, of ?dek "replicate 468 0" "''pw''"] by (auto simp: size_defs saltSize_def)
  obtain ne where ne: "Seal ?dek (bytes_of ''a.txt'') (replicate 426 0) = (Inr ne, replicate 414 0)"
    using Seal_ok [of ?dek "replicate 426 0" "bytes_of ''a.txt''"] by (auto simp: size_defs)
  define key where "key = replicate 14 (hd keyAlphabet)"
  have r1: "draw NewKey sample_service = (Inr ?dek, ?S 468)"
    by (simp add: draw_def NewKey_def KeySize_def rand_Read_zeros sample_service_def)
  have r2: "draw (WrapKey sample_kdf ?dek ''pw'') (?S 468) = (Inr w, ?S 440)" by (simp add: draw_def w)
  have r3: "uniqueKey (?S 440) = (Inr key, ?S 426)"
    unfolding key_def by (subst sample_uniqueKey) (simp_all add: sample_service_def empty_store_def)
  obtain d r st where cd: "db (CreateDrop (draft_drop (sized_request n) key w [] 0) [] []) (?S 426) =
      (Inr d, (?S 426)\<lparr>sv_st := st\<rparr>)" "drops st = [r]" "dr_id r = d_ID d" "upload_sessions st = []"
    by (simp add: db_def CreateDrop_def insert_row_def sample_service_def empty_store_def draft_drop_def new_drop_def Let_def)
  obtain sfs s7 where sf: "startFiles key ?dek (d_ID d) 0 [\<lparr>q_Name = ''a.txt'', q_Size = n\<rparr>] ((?S 426)\<lparr>sv_st := st\<rparr>) = (Inr sfs, s7)"
    "sv_rand s7 = replicate (338 + 76) 0" "drops (sv_st s7) = [r]" "upload_sessions (sv_st s7) = []"
    using sample_startFile [of ?dek "''a.txt''" "(?S 426)\<lparr>sv_st := st\<rparr>" ne _ r "d_ID d" key n] ne cd n
    by (auto simp: sample_service_def key_def)
  note steps = andThen_Inr [where m = "validateStart linear_interp (sized_request n)", OF v]
    andThen_Inr [where m = "draw NewKey", OF r1] andThen_Inr [where m = "draw (WrapKey sample_kdf ?dek ''pw'')", OF r2]
    andThen_Inr [where m = uniqueKey, OF r3] andThen_Inr [where m = "db _", OF cd(1)]
    andThen_Inr [where m = "startFiles _ _ _ _ _", OF sf(1)]
  have "sr_Password (sized_request n) = ''pw''" "sr_Manage (sized_request n) = False" "sr_UploaderHash (sized_request n) = []"
    "sr_UploaderIP (sized_request n) = []" "sr_Files (sized_request n) = [\<lparr>q_Name = ''a.txt'', q_Size = n\<rparr>]"
    "sv_now (?S m) = 0" for m
    by (simp_all add: sized_request_def sample_request_def sample_service_def)
  then show ?thesis
    unfolding StartUpload_def
    using sample_session [OF sf(2,3) cd(3) sf(4), of ?dek]
    by (simp add: steps manageSecret_def Let_def andThen_def [of clock] andThen_def [of config] clock_def config_def KeySize_def
      del: startFiles.simps)
qed

lemma sample_start:
  "\<exists>x s. StartUpload sample_kdf linear_interp sample_request sample_service = (Inr x, s) \<and> sv_rand s = replicate 338 0"
  using sized_start [of 3] by (simp add: sized_request_def) (simp add: sample_request_def)

subsection \<open>Properties\<close>

text \<open>
  C1: what is shared is what is downloaded.  In any reachable state, after a successful
  \<open>StartUpload\<close>, a client that sends each file in parts (all but the last a whole number
  of chunks) has every part accepted and the share finished; from then on the returned key
  and password unlock it (whenever a session token can be drawn), the listing has the
  original names and sizes in the original order, and opening any file at any offset up to
  its size delivers exactly the rest of the bytes that were sent, without error.
\<close>

theorem share_delivers:
  assumes "svc_reachable K ip s" "good_kdf K" "Second \<le> UploadTTL (sv_cfg s)" "0 \<le> DownloadTTL (sv_cfg s)"
    and "StartUpload K ip req s = (Inr x, s1)" "client_ok req bodies"
    and "noncePrefixSize * sum_list (map length bodies) \<le> length (sv_rand s1)"
  shows "\<exists>s2 d s3.
    send_all K (x_SessionID x) (x_Token x) (zip (map sf_ID (x_Files x)) bodies) s1 = (Inr (), s2) \<and>
    FinishUpload K (x_SessionID x) (x_Token x) s2 = (Inr d, s3) \<and> d_Key d = x_Key x \<and> d_Status d = StatusReady \<and>
    (\<forall>tok t. NewToken (sv_rand s3) = (Inr tok, t) \<longrightarrow>
      (\<exists>un s4. Unlock K (x_Key x) (x_Password x) s3 = (Inr un, s4) \<and> un_Token un = tok \<and>
        map uf_Name (un_Files un) = map q_Name (sr_Files req) \<and>
        map uf_Size (un_Files un) = map q_Size (sr_Files req) \<and>
        (\<forall>j < length (un_Files un). \<forall>off. 0 \<le> off \<and> off \<le> uf_Size (un_Files un ! j) \<longrightarrow>
          (\<exists>rd s5. OpenFile tok (uf_ID (un_Files un ! j)) off s4 = (Inr (rd, un_Files un ! j), s5) \<and>
            readAll rd = (drop (nat off) (body (bodies ! j)), None)))))"
proof -
  have ok: "svc_ok s" by (rule svc_ok_reachable [OF assms(1)])
  then have st: "store_ok (sv_st s)" by (simp add: svc_ok_def st_ok_store)
  have "svc_ok s1" using keeps_snd [OF keeps_StartUpload ok, of K ip req] assms(5) by simp
  then have st1: "store_ok (sv_st s1)" by (simp add: svc_ok_def st_ok_store)
  obtain r dek fs where op: "share_open K req x r dek fs s1" "sv_cfg s1 = sv_cfg s"
    by (rule StartUpload_Inr [OF assms(5) st assms(2,3)])
  obtain s2 fs2 where s2: "send_all K (x_SessionID x) (x_Token x) (zip (map sf_ID (x_Files x)) bodies) s1 = (Inr (), s2)"
    "same_share s1 s2" "store_ok (sv_st s2)" "share_sent req bodies (dr_id r) dek fs2 s2"
    by (rule send_share [OF op(1) st1 assms(6,7)])
  obtain d s3 r' where s3: "FinishUpload K (x_SessionID x) (x_Token x) s2 = (Inr d, s3)" "d_Key d = x_Key x"
    "d_Status d = StatusReady" "sv_cfg s3 = sv_cfg s1" "share_live K (x_Key x) (x_Password x) req bodies r' dek fs2 s3"
    by (rule finish_share [OF op(1) s2(2-4) assms(6)])
  have ttl: "0 \<le> DownloadTTL (sv_cfg s3)" using assms(4) op(2) s3(4) by simp
  have "\<exists>un s4. Unlock K (x_Key x) (x_Password x) s3 = (Inr un, s4) \<and> un_Token un = tok \<and>
        map uf_Name (un_Files un) = map q_Name (sr_Files req) \<and>
        map uf_Size (un_Files un) = map q_Size (sr_Files req) \<and>
        (\<forall>j < length (un_Files un). \<forall>off. 0 \<le> off \<and> off \<le> uf_Size (un_Files un ! j) \<longrightarrow>
          (\<exists>rd s5. OpenFile tok (uf_ID (un_Files un ! j)) off s4 = (Inr (rd, un_Files un ! j), s5) \<and>
            readAll rd = (drop (nat off) (body (bodies ! j)), None)))"
    if tk: "NewToken (sv_rand s3) = (Inr tok, t)" for tok t
  proof (rule live_share_delivers [OF s3(5) ttl tk])
    fix un s4
    assume "Unlock K (x_Key x) (x_Password x) s3 = (Inr un, s4)" "un_Token un = tok"
      "map uf_Name (un_Files un) = map q_Name (sr_Files req)" "map uf_Size (un_Files un) = map q_Size (sr_Files req)"
      "\<And>j off. j < length (un_Files un) \<Longrightarrow> 0 \<le> off \<Longrightarrow> off \<le> uf_Size (un_Files un ! j) \<Longrightarrow>
       \<exists>rd s''. OpenFile tok (uf_ID (un_Files un ! j)) off s4 = (Inr (rd, un_Files un ! j), s'') \<and>
         readAll rd = (drop (nat off) (body (bodies ! j)), None)"
    then show ?thesis by (intro exI [of _ un] exI [of _ s4]) blast
  qed
  with s2(1) s3(1-3) show ?thesis by (intro exI [of _ s2] exI [of _ d] exI [of _ s3]) simp
qed

theorem share_delivers_witness:
  "\<exists>x s1 s2 d s3. StartUpload sample_kdf linear_interp sample_request sample_service = (Inr x, s1) \<and>
    send_all sample_kdf (x_SessionID x) (x_Token x) (zip (map sf_ID (x_Files x)) [[[[1, 2, 3]]]]) s1 = (Inr (), s2) \<and>
    FinishUpload sample_kdf (x_SessionID x) (x_Token x) s2 = (Inr d, s3) \<and> d_Key d = x_Key x"
proof -
  obtain x s1 where x: "StartUpload sample_kdf linear_interp sample_request sample_service = (Inr x, s1)"
      "sv_rand s1 = replicate 338 0"
    using sample_start by blast
  have "client_ok sample_request [[[[1, 2, 3]]]]"
    by (simp add: client_ok_def sample_request_def body_def)
  moreover have "noncePrefixSize * sum_list (map length [[[[1, 2, 3 :: byte]]]]) \<le> length (sv_rand s1)"
    by (simp add: x(2) noncePrefixSize_def)
  moreover have "Second \<le> UploadTTL (sv_cfg sample_service)" "0 \<le> DownloadTTL (sv_cfg sample_service)"
    by (simp_all add: sample_service_def DefaultConfig_def duration_defs)
  ultimately show ?thesis
    using share_delivers [OF sample_service_reachable sample_kdf_good _ _ x(1), of "[[[[1, 2, 3]]]]"] x(1) by blast
qed

end
