(* ===== verification/Names_Correct.thy ===== *)
theory Names_Correct
  imports Delivery
begin

text \<open>
  The pure helpers of the service: file names made safe for a recipient's disk, share keys
  read from a pasted link, and the size limit of an upload.
\<close>

subsection \<open>Runes\<close>

definition high :: "char \<Rightarrow> bool" where "high c \<longleftrightarrow> 128 \<le> (of_char c :: nat)"

lemma rune_width_bytes:
  assumes "rune_width s = Some w" "w \<noteq> 1" "x \<in> set (take w s)"
  shows "high x"
proof -
  obtain c r where s: "s = c # r" using assms(1) by (cases s) (auto simp: rune_width_def)
  have c: "128 \<le> (of_char c :: nat)" using assms(1,2) by (auto simp: rune_width_def s split: if_splits)
  then obtain lo hi where lo: "second_range (of_char c) = Some (w, lo, hi)" "lo \<le> of_char (r ! 0)" "w \<le> length s"
      "\<forall>x \<in> set (drop 1 (take (w - 1) r)). 128 \<le> (of_char x :: nat)"
    using assms(1) by (auto simp: rune_width_def s split: option.splits prod.splits if_splits)
  have "128 \<le> lo" "2 \<le> w" using lo(1) by (auto simp: second_range_def split: if_splits)
  then obtain d r' where r: "r = d # r'" and d: "128 \<le> (of_char d :: nat)" using lo(2,3) by (cases r) (auto simp: s)
  have "take w s = c # d # drop 1 (take (w - 1) r)"
    using \<open>2 \<le> w\<close> by (cases w; cases "w - 1") (auto simp: s r)
  then show ?thesis using assms(3) c d lo(4) by (auto simp: high_def)
qed

lemma runes_bytes: "Some cs \<in> set (runes s) \<Longrightarrow> set cs \<subseteq> set s \<and> (length cs = 1 \<or> (\<forall>c \<in> set cs. high c))"
proof (induction s rule: runes.induct)
  case (1 s)
  show ?case
  proof (cases "rune_width s")
    case None
    then show ?thesis using 1 by (subst (asm) runes.simps) (auto split: if_splits dest: in_set_dropD)
  next
    case (Some w)
    show ?thesis
    proof (cases "cs = take w s \<and> s \<noteq> []")
      case True
      then show ?thesis
        using rune_width_bytes [OF Some] rune_width_pos [OF Some] by (auto dest: in_set_takeD)
    next
      case False
      then have "s \<noteq> []" "Some cs \<in> set (runes (drop w s))"
        using 1(3) Some by (subst (asm) runes.simps; auto split: if_splits)+
      then show ?thesis using 1(2) [OF _ Some] by (auto dest: in_set_dropD)
    qed
  qed
qed

lemma rune_error_high: "c \<in> set rune_error \<Longrightarrow> high c"
  by (auto simp: rune_error_def str_def high_def)

lemma set_MapASCII:
  assumes "d \<in> set (MapASCII f s)"
  shows "high d \<or> (\<exists>c \<in> set s. f c = Some d)"
proof -
  obtain r where r: "r \<in> set (runes s)" "d \<in> set (map_rune f r)" using assms by (auto simp: MapASCII_def)
  show ?thesis
  proof (cases r)
    case None
    then show ?thesis using r(2) rune_error_high by (simp add: map_rune_def)
  next
    case (Some cs)
    have cs: "set cs \<subseteq> set s" "length cs = 1 \<or> (\<forall>c \<in> set cs. high c)" using runes_bytes r(1) Some by blast+
    show ?thesis
    proof (cases "length cs = 1")
      case True
      then obtain c where "cs = [c]" by (cases cs) auto
      then show ?thesis using r(2) Some cs(1) by (auto simp: map_rune_def split: option.splits)
    next
      case False
      then show ?thesis using r(2) Some cs(2) by (simp add: map_rune_def)
    qed
  qed
qed

subsection \<open>Safe file names\<close>

lemma set_after_last: "set (after_last c s) \<subseteq> set s" "c \<notin> set (after_last c s)"
  unfolding after_last_def by (auto dest: set_takeWhileD)

lemma set_TrimRight: "set (TrimRight s cs) \<subseteq> set s"
  unfolding TrimRight_def by (auto dest: set_dropWhileD)

lemma set_Trim: "set (Trim s cs) \<subseteq> set s"
  unfolding Trim_def using set_TrimRight by (fastforce dest: set_dropWhileD)

lemma set_path_Ext: "set (path_Ext s) \<subseteq> set s"
  by (auto simp: path_Ext_def Let_def dest: subsetD [OF set_after_last(1)])

lemma path_Base_slash:
  "CHR ''/'' \<in> set (path_Base s) \<longleftrightarrow> s \<noteq> [] \<and> set s \<subseteq> {CHR ''/''}"
  "s \<noteq> [] \<Longrightarrow> set s \<subseteq> {CHR ''/''} \<Longrightarrow> path_Base s = ''/''"
proof -
  have e: "after_last (CHR ''/'') (TrimRight s ''/'') = [] \<longleftrightarrow> set s \<subseteq> {CHR ''/''}"
  proof -
    have "dropWhile (\<lambda>x. x = CHR ''/'') (rev s) = [] \<or> hd (dropWhile (\<lambda>x. x = CHR ''/'') (rev s)) \<noteq> CHR ''/''"
      using hd_dropWhile by blast
    then show ?thesis
      by (auto simp: after_last_def TrimRight_def takeWhile_eq_Nil_iff dropWhile_eq_Nil_conv)
  qed
  show "CHR ''/'' \<in> set (path_Base s) \<longleftrightarrow> s \<noteq> [] \<and> set s \<subseteq> {CHR ''/''}"
    unfolding path_Base_def Let_def e using set_after_last(2) [of "CHR ''/''"] by auto
  show "s \<noteq> [] \<Longrightarrow> set s \<subseteq> {CHR ''/''} \<Longrightarrow> path_Base s = ''/''"
    unfolding path_Base_def Let_def e by simp
qed

text \<open>The bytes a cleaned name may contain.\<close>

definition name_char :: "char \<Rightarrow> bool" where
  "name_char c \<longleftrightarrow> 32 \<le> (of_char c :: nat) \<and> (of_char c :: nat) \<noteq> 127 \<and> c \<notin> set ''<>:\"|?*'' \<and> c \<noteq> CHR 0x5C"

definition cleaned :: "string \<Rightarrow> string" where
  "cleaned n = Trim (MapASCII safe_char (path_Base (ReplaceByte (CHR 0x5C) (CHR ''/'') n))) '' .''"

definition only_separators :: "string \<Rightarrow> bool" where
  "only_separators n \<longleftrightarrow> n \<noteq> [] \<and> set n \<subseteq> {CHR ''/'', CHR 0x5C}"

lemma ReplaceByte_slash:
  "CHR 0x5C \<notin> set (ReplaceByte (CHR 0x5C) (CHR ''/'') n)"
  "ReplaceByte (CHR 0x5C) (CHR ''/'') n \<noteq> [] \<and> set (ReplaceByte (CHR 0x5C) (CHR ''/'') n) \<subseteq> {CHR ''/''} \<longleftrightarrow> only_separators n"
  by (auto simp: ReplaceByte_def only_separators_def)

lemma set_path_Base: "set (path_Base s) \<subseteq> set s \<union> {CHR ''/'', CHR ''.''}"
  using set_after_last(1) [of "CHR ''/''" "TrimRight s ''/''"] set_TrimRight [of s "''/''"]
  by (auto simp: path_Base_def Let_def)

lemma high_name_char: "high c \<Longrightarrow> name_char c"
  by (auto simp: high_def name_char_def)

lemma cleaned_chars:
  assumes "d \<in> set (cleaned n)"
  shows "name_char d" "d = CHR ''/'' \<Longrightarrow> only_separators n"
proof -
  let ?b = "path_Base (ReplaceByte (CHR 0x5C) (CHR ''/'') n)"
  have d: "high d \<or> (\<exists>c \<in> set ?b. safe_char c = Some d)"
    using assms set_Trim set_MapASCII unfolding cleaned_def by blast
  have b: "CHR 0x5C \<notin> set ?b"
    using set_path_Base [of "ReplaceByte (CHR 0x5C) (CHR ''/'') n"] ReplaceByte_slash(1) [of n] by auto
  show "name_char d"
    using d b high_name_char by (auto simp: safe_char_def name_char_def split: if_splits)
  assume "d = CHR ''/''"
  then have "CHR ''/'' \<in> set ?b" using d by (auto simp: high_def safe_char_def split: if_splits)
  then show "only_separators n" using path_Base_slash(1) ReplaceByte_slash(2) by blast
qed

lemma cleaned_separators: "only_separators n \<Longrightarrow> cleaned n = ''/''"
proof -
  assume "only_separators n"
  then have "path_Base (ReplaceByte (CHR 0x5C) (CHR ''/'') n) = ''/''"
    using ReplaceByte_slash(2) path_Base_slash(2) by blast
  moreover have "runes ''/'' = [Some ''/'']" by (simp add: runes.simps rune_width_def)
  ultimately show ?thesis by (simp add: cleaned_def MapASCII_def map_rune_def safe_char_def Trim_def TrimRight_def)
qed

definition cut_name :: "string \<Rightarrow> string" where
  "cut_name name =
     (if length name > 200 then
        (let ext = (if length (path_Ext name) > 20 then [] else path_Ext name)
         in take (200 - length ext) name @ ext)
      else name)"

lemma SafeFileName_cleaned:
  "SafeFileName n = (if cleaned n = [] \<or> cleaned n = ''.'' \<or> cleaned n = ''..'' then ''file'' else cut_name (cleaned n))"
  by (simp add: SafeFileName_def cleaned_def cut_name_def Let_def)

lemma cut_name:
  "set (cut_name s) \<subseteq> set s" "length (cut_name s) = min 200 (length s)"
  "cut_name s = s \<or> length (cut_name s) = 200"
  using set_path_Ext [of s] by (auto simp: cut_name_def Let_def dest: in_set_takeD)

text \<open>
  C39: a cleaned name is safe to write.  Whatever name the uploader's browser sent, the name
  offered to the recipient is between 1 and 200 bytes, is neither \<open>.\<close> nor \<open>..\<close>, and has no
  control character, no character reserved on Windows and no backslash.  It has a slash only
  if the sent name consists of path separators alone, and then it is exactly \<open>/\<close>: the one
  case in which the result is not the name of a file.
\<close>

theorem safe_file_name:
  "(let r = SafeFileName n in
    1 \<le> length r \<and> length r \<le> 200 \<and> r \<noteq> ''.'' \<and> r \<noteq> ''..'' \<and> list_all name_char r \<and>
    (CHR ''/'' \<in> set r \<longleftrightarrow> only_separators n) \<and> (CHR ''/'' \<in> set r \<longleftrightarrow> r = ''/''))"
proof (cases "cleaned n = [] \<or> cleaned n = ''.'' \<or> cleaned n = ''..''")
  case True
  moreover have "\<not> only_separators n" using True cleaned_separators by fastforce
  moreover have "list_all name_char ''file''" by (simp add: name_char_def)
  ultimately show ?thesis by (simp add: SafeFileName_cleaned)
next
  case False
  let ?r = "cut_name (cleaned n)"
  have c: "list_all name_char ?r" "CHR ''/'' \<in> set ?r \<Longrightarrow> only_separators n"
    using cut_name(1) [of "cleaned n"] cleaned_chars [of _ n] by (auto simp: list_all_iff)
  have s: "only_separators n \<Longrightarrow> ?r = ''/''" by (simp add: cleaned_separators cut_name_def)
  have "1 \<le> length ?r" "length ?r \<le> 200" using cut_name(2) [of "cleaned n"] False by (auto simp: Suc_le_eq)
  moreover have "?r \<noteq> ''.''" "?r \<noteq> ''..''" using cut_name(3) [of "cleaned n"] False by auto
  ultimately show ?thesis using False c s by (auto simp: SafeFileName_cleaned Let_def)
qed

subsection \<open>Keys from pasted links\<close>

lemma key_char_no [simp]: "\<not> key_char (CHR ''#'')" "\<not> key_char (CHR ''?'')" "\<not> key_char (CHR ''/'')"
  by (simp_all add: key_char_def)

lemma key_char_neq: "key_char c \<Longrightarrow> c \<noteq> CHR ''#'' \<and> c \<noteq> CHR ''?'' \<and> c \<noteq> CHR ''/''"
  using key_char_no by blast

lemma key_char_range: "key_char c \<Longrightarrow> 48 \<le> (of_char c :: nat) \<and> (of_char c :: nat) \<le> 122"
proof -
  have "list_all (\<lambda>c. 48 \<le> (of_char c :: nat) \<and> (of_char c :: nat) \<le> 122)
      ''abcdefghijklmnopqrstuvwxyzABCDEFGHIJKLMNOPQRSTUVWXYZ0123456789''" by simp
  then show "key_char c \<Longrightarrow> 48 \<le> (of_char c :: nat) \<and> (of_char c :: nat) \<le> 122"
    unfolding key_char_def list_all_iff by blast
qed

text \<open>No space begins or ends with a visible ASCII character.\<close>

definition visible :: "char \<Rightarrow> bool" where
  "visible c \<longleftrightarrow> 33 \<le> (of_char c :: nat) \<and> (of_char c :: nat) \<le> 126"

lemma key_char_visible: "key_char c \<Longrightarrow> visible c"
  using key_char_range [of c] by (simp add: visible_def)

lemma spaces_ends:
  assumes "p \<in> set spaces"
  shows "\<not> visible (hd p)" "\<not> visible (last p)"
proof -
  have "list_all (\<lambda>p. (of_char (hd p) < (33 :: nat) \<or> 126 < (of_char (hd p) :: nat)) \<and>
      (of_char (last p) < (33 :: nat) \<or> 126 < (of_char (last p) :: nat))) spaces"
    by (simp add: spaces_def str_def)
  then show "\<not> visible (hd p)" "\<not> visible (last p)"
    using assms by (auto simp: list_all_iff visible_def)
qed

lemma visible_not_space:
  assumes "visible c"
  shows "space_prefix (c # s) = None" "space_suffix (s @ [c]) = None"
proof -
  have k: "hd p \<noteq> c \<and> last p \<noteq> c" if "p \<in> set spaces" for p
    using spaces_ends [OF that] assms by auto
  show "space_prefix (c # s) = None"
    unfolding space_prefix_def find_None
  proof
    fix p assume p: "p \<in> set spaces"
    then obtain x r where "p = x # r" using spaces_nonempty [OF p] by (meson neq_Nil_conv)
    then show "\<not> HasPrefix (c # s) p" using k [OF p] by (auto simp: HasPrefix_def)
  qed
  show "space_suffix (s @ [c]) = None"
    unfolding space_suffix_def find_None
  proof
    fix p assume p: "p \<in> set spaces"
    have "last p = c" if "HasSuffix (s @ [c]) p"
      using that spaces_nonempty [OF p] unfolding HasSuffix_def
      by (metis last_drop last_snoc length_drop length_greater_0_conv zero_less_diff)
    then show "\<not> HasSuffix (s @ [c]) p" using k [OF p] by blast
  qed
qed

lemma TrimSpace_empty [simp]: "TrimSpace [] = []"
proof -
  have "space_prefix [] = None" "space_suffix [] = None"
    using spaces_nonempty by (auto simp: space_prefix_def space_suffix_def find_None HasPrefix_def HasSuffix_def)
  then show ?thesis by (simp add: TrimSpace_def trim_left_space.simps trim_right_space.simps)
qed

lemma TrimSpace_visible:
  assumes "visible (hd s)" "visible (last s)"
  shows "TrimSpace s = s"
proof (cases "s = []")
  case False
  then have "space_prefix s = None" using assms(1) by (cases s) (simp_all add: visible_not_space(1))
  moreover have "space_suffix s = None"
    using False assms(2) by (cases s rule: rev_cases) (simp_all add: visible_not_space(2))
  ultimately show ?thesis by (simp add: TrimSpace_def trim_left_space.simps trim_right_space.simps)
qed simp

lemma TrimSpace_key: "list_all key_char s \<Longrightarrow> TrimSpace s = s"
  by (cases "s = []") (auto simp: list_all_iff intro!: TrimSpace_visible key_char_visible)

lemma key_of_path:
  assumes "base = [] \<or> last base = CHR ''/''" "key \<noteq> []" "list_all key_char key"
  shows "after_last (CHR ''/'') (TrimRight (base @ key @ replicate n (CHR ''/'')) ''/'') = key"
proof -
  have ns: "\<forall>x \<in> set key. x \<noteq> CHR ''/''" using assms(3) key_char_neq by (simp add: list_all_iff)
  obtain c r where k: "rev key = c # r" using assms(2) by (cases "rev key") auto
  then have "c \<in> set key" by (metis list.set_intros(1) set_rev)
  then have "c \<noteq> CHR ''/''" using ns by blast
  then have "dropWhile (\<lambda>x. x \<in> set ''/'') (replicate n (CHR ''/'') @ rev key @ rev base) = rev key @ rev base"
    by (subst dropWhile_append2) (auto simp: k)
  then have t: "TrimRight (base @ key @ replicate n (CHR ''/'')) ''/'' = base @ key"
    unfolding TrimRight_def by (metis append_assoc rev_append rev_replicate rev_rev_ident)
  have "takeWhile (\<lambda>x. x \<noteq> CHR ''/'') (rev base) = []"
    using assms(1) by (cases base rule: rev_cases) simp_all
  then have "takeWhile (\<lambda>x. x \<noteq> CHR ''/'') (rev key @ rev base) = rev key"
    by (subst takeWhile_append2) (use ns in simp_all)
  then show ?thesis unfolding t after_last_def by simp
qed

lemma keyFromInput_link:
  assumes "TrimSpace i = base @ key @ replicate n (CHR ''/'') @ q" "base = [] \<or> last base = CHR ''/''"
    and "\<forall>c \<in> set base. c \<noteq> CHR ''#'' \<and> c \<noteq> CHR ''?''" "key \<noteq> []" "list_all key_char key" "length key \<le> 64"
    and "q = [] \<or> hd q = CHR ''#'' \<or> hd q = CHR ''?''"
  shows "keyFromInput i = key"
proof -
  let ?p = "base @ key @ replicate n (CHR ''/'')"
  have "\<forall>c \<in> set ?p. c \<noteq> CHR ''#'' \<and> c \<noteq> CHR ''?''"
    unfolding set_append ball_Un using assms(3,5) key_char_neq by (simp add: list_all_iff)
  moreover have "takeWhile (\<lambda>c. c \<noteq> CHR ''#'' \<and> c \<noteq> CHR ''?'') q = []" using assms(7) by (cases q) auto
  ultimately have "takeWhile (\<lambda>c. c \<noteq> CHR ''#'' \<and> c \<noteq> CHR ''?'') (?p @ q) = ?p"
    by (subst takeWhile_append2) auto
  then have "takeWhile (\<lambda>c. c \<noteq> CHR ''#'' \<and> c \<noteq> CHR ''?'') (TrimSpace i) = ?p" unfolding assms(1) by simp
  then show ?thesis
    using key_of_path [OF assms(2,4,5)] assms(5,6) by (simp add: keyFromInput_def Let_def list_all_iff)
qed

lemma keyFromInput_key:
  assumes "list_all key_char k" "length k \<le> 64"
  shows "keyFromInput k = k"
proof (cases "k = []")
  case True
  then show ?thesis using TrimSpace_key [of "[]"] by (simp add: keyFromInput_def TrimRight_def after_last_def)
next
  case False
  then show ?thesis using keyFromInput_link [of k "[]" k 0 "[]"] TrimSpace_key [OF assms(1)] assms by simp
qed

text \<open>
  The report form finds the share.  Of a pasted link (anything up to a slash, the key,
  trailing slashes, a query or a fragment, white space around it) or of a bare key, exactly
  the key is extracted; and whatever is pasted, at most 64 letters and digits come out, and
  a second pass changes nothing.
\<close>

theorem key_from_input:
  "list_all key_char (keyFromInput inp) \<and> length (keyFromInput inp) \<le> 64 \<and>
   keyFromInput (keyFromInput inp) = keyFromInput inp \<and>
   (\<forall>base key n q. TrimSpace inp = base @ key @ replicate n (CHR ''/'') @ q \<and>
      (base = [] \<or> last base = CHR ''/'') \<and> (\<forall>c \<in> set base. c \<noteq> CHR ''#'' \<and> c \<noteq> CHR ''?'') \<and>
      key \<noteq> [] \<and> list_all key_char key \<and> length key \<le> 64 \<and>
      (q = [] \<or> hd q = CHR ''#'' \<or> hd q = CHR ''?'') \<longrightarrow> keyFromInput inp = key)"
proof (intro conjI allI impI)
  show kc: "list_all key_char (keyFromInput inp)" and len: "length (keyFromInput inp) \<le> 64"
    by (auto simp: keyFromInput_def Let_def list_all_iff dest!: in_set_takeD)
  show "keyFromInput (keyFromInput inp) = keyFromInput inp" by (rule keyFromInput_key [OF kc len])
qed (elim conjE, rule keyFromInput_link)

theorem key_from_input_witness:
  "keyFromInput ''https://x/abc23#pw'' = ''abc23''"
proof -
  have "space_prefix ''https://x/abc23#pw'' = None"
    by (rule visible_not_space(1)) (simp add: visible_def)
  moreover have "space_suffix (''https://x/abc23#p'' @ ''w'') = None"
    by (rule visible_not_space(2)) (simp add: visible_def)
  ultimately have "TrimSpace ''https://x/abc23#pw'' = ''https://x/'' @ ''abc23'' @ replicate 0 (CHR ''/'') @ ''#pw''"
    by (simp add: TrimSpace_def trim_left_space.simps [of "''https://x/abc23#pw''"] trim_right_space.simps [of "''https://x/abc23#pw''"])
  moreover have "list_all key_char ''abc23''" by (simp add: key_char_def)
  ultimately show ?thesis
    using conjunct2 [OF conjunct2 [OF conjunct2 [OF key_from_input [of "''https://x/abc23#pw''"]]],
      rule_format, of "''https://x/''" "''abc23''" 0 "''#pw''"]
    by simp
qed

subsection \<open>Names in an archive\<close>

text \<open>The names \<open>WriteArchive\<close> gives to files of the given names.\<close>

fun entry_names :: "nat table \<Rightarrow> string list \<Rightarrow> string list" where
  "entry_names used [] = []"
| "entry_names used (n # ns) =
     (case uniqueEntryName used n of (e, used') \<Rightarrow> e # entry_names used' ns)"

lemma uniqueEntryName_fresh: "n \<notin> fst ` set used \<Longrightarrow> uniqueEntryName used n = (n, tab_put n 1 used)"
  by (simp add: uniqueEntryName_def map_of_eq_None_iff [THEN iffD2])

lemma entry_names_fresh:
  "distinct ns \<Longrightarrow> fst ` set used \<inter> set ns = {} \<Longrightarrow> entry_names used ns = ns"
proof (induction ns arbitrary: used)
  case (Cons n ns)
  have "uniqueEntryName used n = (n, tab_put n 1 used)" by (rule uniqueEntryName_fresh) (use Cons.prems in auto)
  moreover have "fst ` set (tab_put n 1 used) \<inter> set ns = {}" using Cons.prems by (auto simp: tab_put_def)
  ultimately show ?case using Cons by simp
qed simp

text \<open>
  The entries of an archive have the names of its files when those are all different.
  They need not be different from each other otherwise: after two files of the same name, a
  third whose own name is the numbered form of the first gets the second one's name.
\<close>

theorem archive_entry_names:
  "(distinct ns \<longrightarrow> entry_names [] ns = ns) \<and>
   entry_names [] [''a.txt'', ''a.txt'', ''a (2).txt''] = [''a.txt'', ''a (2).txt'', ''a (2).txt'']"
proof -
  have "entry_names [] [''a.txt'', ''a.txt'', ''a (2).txt''] = [''a.txt'', ''a (2).txt'', ''a (2).txt'']"
    by code_simp
  then show ?thesis using entry_names_fresh [of ns "[]"] by simp
qed

theorem archive_entry_names_witness: "entry_names [] [''a'', ''b''] = [''a'', ''b'']"
  using archive_entry_names [of "[''a'', ''b'']"] by simp

subsection \<open>Limits of an upload\<close>

lemma geomLimit_bounds:
  assumes "good_interp ip" "0 < y1" "y1 \<le> y0"
  shows "y1 \<le> geomLimit ip x x0 y0 x1 y1" "geomLimit ip x x0 y0 x1 y1 \<le> y0"
  using assms by (auto simp: geomLimit_def good_interp_def)

text \<open>
  The size limit of an upload stays between its anchors.  With anchors that shrink as the
  share lives longer, the limit is never more than the total cap or the smallest lenient
  anchor, never less than the strict anchors and the cap allow, takes the upper value
  for the shortest and most restricted share and the lower one for the longest, most open one.
\<close>

theorem upload_limit_bounds:
  assumes "good_interp ip" "0 < SizeAtMaxDays c" "SizeAtMaxDays c \<le> SizeAtMinDays c"
    and "0 < SizeAtMaxDownloads c" "SizeAtMaxDownloads c \<le> SizeAtMinDownloads c"
  shows "let lo = min (min (SizeAtMaxDays c) (SizeAtMaxDownloads c)) (MaxTotalBytes c);
             hi = min (min (SizeAtMinDays c) (SizeAtMinDownloads c)) (MaxTotalBytes c)
    in lo \<le> MaxUploadBytes ip c days n \<and> MaxUploadBytes ip c days n \<le> hi \<and>
       MaxUploadBytes ip c 1 1 = hi \<and>
       (1 < MaxDays c \<and> 1 < MaxDownloads c \<longrightarrow> MaxUploadBytes ip c (MaxDays c) (MaxDownloads c) = lo)"
proof -
  note d = geomLimit_bounds [OF assms(1-3), of days 1 "MaxDays c"]
  note n = geomLimit_bounds [OF assms(1,4,5), of n 1 "MaxDownloads c"]
  have "min (min (SizeAtMaxDays c) (SizeAtMaxDownloads c)) (MaxTotalBytes c) \<le> MaxUploadBytes ip c days n"
    unfolding MaxUploadBytes_def Let_def by (intro min.mono d n order_refl)
  moreover have "MaxUploadBytes ip c days n \<le> min (min (SizeAtMinDays c) (SizeAtMinDownloads c)) (MaxTotalBytes c)"
    unfolding MaxUploadBytes_def Let_def by (intro min.mono d n order_refl)
  moreover have "geomLimit ip 1 1 y x z = y" "1 < x \<Longrightarrow> geomLimit ip x 1 y x z = z" for x y z
    by (simp_all add: geomLimit_def)
  ultimately show ?thesis by (simp add: MaxUploadBytes_def Let_def)
qed

lemma linear_interp_good: "good_interp linear_interp"
  unfolding good_interp_def linear_interp_def
proof (intro allI impI)
  fix x x0 y0 x1 y1 :: int
  assume a: "x0 < x \<and> x < x1 \<and> 0 < y1 \<and> y1 \<le> y0"
  let ?q = "(y0 - y1) * (x - x0) div (x1 - x0)"
  have "0 \<le> ?q" using a by (intro pos_imp_zdiv_nonneg_iff [THEN iffD2]) auto
  moreover have "?q \<le> y0 - y1"
  proof -
    have "(y0 - y1) * (x - x0) \<le> (y0 - y1) * (x1 - x0)" using a by (intro mult_left_mono) auto
    then have "?q \<le> (y0 - y1) * (x1 - x0) div (x1 - x0)" using a by (intro zdiv_mono1) auto
    then show ?thesis using a by simp
  qed
  ultimately show "y1 \<le> y0 - ?q \<and> y0 - ?q \<le> y0" by simp
qed

theorem upload_limit_bounds_witness:
  "500 * 2 ^ 20 \<le> MaxUploadBytes linear_interp (DefaultConfig ''/b'') 7 10 \<and>
   MaxUploadBytes linear_interp (DefaultConfig ''/b'') 100 500 = 500 * 2 ^ 20"
  using upload_limit_bounds [OF linear_interp_good, of "DefaultConfig ''/b''" 7 10]
  by (simp add: DefaultConfig_def Let_def)

lemma total_size_sum:
  "0 \<le> acc \<Longrightarrow> acc + sum_list (map (\<lambda>f. max 0 (q_Size f)) fs) < 2 ^ 63 \<Longrightarrow>
    total_size acc fs =
      (if \<forall>f \<in> set fs. q_Name f \<noteq> [] \<and> 0 \<le> q_Size f then Inr (acc + sum_list (map q_Size fs)) else Inl ErrInvalid)"
proof (induction acc fs rule: total_size.induct)
  case (2 acc f fs)
  have nn: "0 \<le> sum_list (map (\<lambda>f. max 0 (q_Size f)) fs)" by (rule sum_list_nonneg) auto
  show ?case
  proof (cases "q_Name f = [] \<or> q_Size f < 0")
    case False
    then have "i64 (acc + q_Size f) = acc + q_Size f" using 2 nn by (intro i64_id) auto
    then show ?thesis using 2 False by (auto simp: max_def)
  qed auto
qed simp

text \<open>
  C40: an upload request is accepted exactly when it is within the limits, as long as the
  declared sizes add up without overflowing 64 bits: between one and \<open>MaxFiles\<close> named files
  of non-negative size (one file for a text), days and downloads in range, their sum within
  the size limit and, if there is a quota, within the space left.  A sum that does overflow
  escapes the limit: three files of together more than sixteen exabytes are accepted.
\<close>

theorem validate_start_exact:
  "(sum_list (map (\<lambda>f. max 0 (q_Size f)) (sr_Files req)) < 2 ^ 63 \<longrightarrow>
     (validateStart ip req s = (Inr (), s) \<longleftrightarrow>
       sr_Files req \<noteq> [] \<and> int (length (sr_Files req)) \<le> MaxFiles (sv_cfg s) \<and>
       (sr_Kind req = ''text'' \<longrightarrow> length (sr_Files req) = 1) \<and>
       1 \<le> sr_Days req \<and> sr_Days req \<le> MaxDays (sv_cfg s) \<and>
       1 \<le> sr_MaxDownloads req \<and> sr_MaxDownloads req \<le> MaxDownloads (sv_cfg s) \<and>
       (\<forall>f \<in> set (sr_Files req). q_Name f \<noteq> [] \<and> 0 \<le> q_Size f) \<and>
       sum_list (map q_Size (sr_Files req)) \<le> MaxUploadBytes ip (sv_cfg s) (sr_Days req) (sr_MaxDownloads req) \<and>
       (0 < DiskQuotaBytes (sv_cfg s) \<longrightarrow>
          (\<exists>st. Stats (sv_now s) (sv_st s) = Inr st \<and>
             i64 (st_Bytes st + sum_list (map q_Size (sr_Files req))) \<le> DiskQuotaBytes (sv_cfg s))))) \<and>
   validateStart linear_interp
     (sample_request\<lparr>sr_Files := [\<lparr>q_Name = ''a'', q_Size = 2 ^ 63 - 1\<rparr>, \<lparr>q_Name = ''b'', q_Size = 2 ^ 63 - 1\<rparr>,
        \<lparr>q_Name = ''c'', q_Size = 2\<rparr>]\<rparr>) sample_service = (Inr (), sample_service)"
proof (intro conjI impI)
  assume "sum_list (map (\<lambda>f. max 0 (q_Size f)) (sr_Files req)) < 2 ^ 63"
  then have t: "total_size 0 (sr_Files req) =
      (if \<forall>f \<in> set (sr_Files req). q_Name f \<noteq> [] \<and> 0 \<le> q_Size f then Inr (sum_list (map q_Size (sr_Files req))) else Inl ErrInvalid)"
    using total_size_sum [of 0 "sr_Files req"] by simp
  show "validateStart ip req s = (Inr (), s) \<longleftrightarrow>
       sr_Files req \<noteq> [] \<and> int (length (sr_Files req)) \<le> MaxFiles (sv_cfg s) \<and>
       (sr_Kind req = ''text'' \<longrightarrow> length (sr_Files req) = 1) \<and>
       1 \<le> sr_Days req \<and> sr_Days req \<le> MaxDays (sv_cfg s) \<and>
       1 \<le> sr_MaxDownloads req \<and> sr_MaxDownloads req \<le> MaxDownloads (sv_cfg s) \<and>
       (\<forall>f \<in> set (sr_Files req). q_Name f \<noteq> [] \<and> 0 \<le> q_Size f) \<and>
       sum_list (map q_Size (sr_Files req)) \<le> MaxUploadBytes ip (sv_cfg s) (sr_Days req) (sr_MaxDownloads req) \<and>
       (0 < DiskQuotaBytes (sv_cfg s) \<longrightarrow>
          (\<exists>st. Stats (sv_now s) (sv_st s) = Inr st \<and>
             i64 (st_Bytes st + sum_list (map q_Size (sr_Files req))) \<le> DiskQuotaBytes (sv_cfg s)))"
    unfolding validateStart_def andThen_def t
    by (auto simp: config_def fail_def lift_res_def clock_def query_def ret_def split: if_splits sum.splits)
next
  show "validateStart linear_interp
     (sample_request\<lparr>sr_Files := [\<lparr>q_Name = ''a'', q_Size = 2 ^ 63 - 1\<rparr>, \<lparr>q_Name = ''b'', q_Size = 2 ^ 63 - 1\<rparr>,
        \<lparr>q_Name = ''c'', q_Size = 2\<rparr>]\<rparr>) sample_service = (Inr (), sample_service)"
    by (simp add: validateStart_def sample_request_def sample_service_def andThen_def config_def lift_res_def
      ret_def i64_def MaxUploadBytes_def geomLimit_def DefaultConfig_def)
qed

theorem validate_start_exact_witness:
  "validateStart linear_interp sample_request sample_service = (Inr (), sample_service)"
  using conjunct1 [OF validate_start_exact [of sample_request linear_interp sample_service]]
  by (simp add: sample_request_def sample_service_def DefaultConfig_def MaxUploadBytes_def geomLimit_def)

end
