(* ===== verification/Upload_Props.thy ===== *)
theory Upload_Props
  imports Delivery
begin

text \<open>
  Properties of the upload side: the invariant of the service, what one upload part does
  (success, refusals, errors), and what an interrupted part leaves behind.
\<close>

subsection \<open>The invariant\<close>

lemma sample_started:
  assumes "0 < n" "n \<le> 2 ^ 30"
  obtains x s where "StartUpload sample_kdf linear_interp (sized_request n) sample_service = (Inr x, s)"
    "svc_reachable sample_kdf linear_interp s" "sv_rand s = replicate 338 0"
proof -
  obtain x s where x: "StartUpload sample_kdf linear_interp (sized_request n) sample_service = (Inr x, s)"
      "sv_rand s = replicate 338 0"
    using sized_start [OF assms] by blast
  have "svc_step sample_kdf linear_interp sample_service s"
    using svc_step.op [OF svc_op.start [of sample_kdf linear_interp sample_service "sized_request n"]] x(1) by simp
  then show ?thesis using x svc_reachable.step [OF sample_service_reachable] that by blast
qed

lemma svc_ok_facts:
  assumes ok: "svc_ok s"
  shows "store_ok (sv_st s) \<and>
    (\<forall>f \<in> set (files (sv_st s)). \<forall>r \<in> set (drops (sv_st s)).
       dr_id r = f_DropID f \<and> dr_status r = StatusReady \<longrightarrow> Complete f) \<and>
    (\<forall>u \<in> set (upload_sessions (sv_st s)). \<forall>r \<in> set (drops (sv_st s)).
       dr_id r = s_drop_id u \<longrightarrow> dr_status r = StatusPending) \<and>
    (\<forall>(tok, x) \<in> set (sv_down s). \<exists>r \<in> set (drops (sv_st s)). dr_id r = ss_dropID x \<and> dr_key r = ss_dropKey x) \<and>
    distinct (map fst (sv_down s)) \<and> distinct (map fst (sv_tickets s))"
proof -
  have "\<exists>r \<in> set (drops (sv_st s)). dr_id r = ss_dropID x \<and> dr_key r = ss_dropKey x" if "(tok, x) \<in> set (sv_down s)" for tok x
  proof -
    have "(ss_dropID x, ss_dropKey x) \<in> drop_refs (sv_st s)" using ok that by (auto simp: svc_ok_def sessions_ok_def)
    then show ?thesis by (auto simp: drop_refs_def)
  qed
  then show ?thesis
    using ok by (auto simp: svc_ok_def st_ok_def ready_complete_def uploads_pending_def sessions_ok_def)
qed



subsection \<open>One part\<close>

text \<open>The state a file is in right after its upload was started.\<close>

lemma sample_uploading:
  assumes n: "0 < n" "n \<le> 2 ^ 30"
  obtains x :: StartResult and s i dek f where "authed sample_kdf (x_SessionID x) (x_Token x) i dek s" "FileByID i (f_ID f) (sv_st s) = Inr f"
    "file_has dek [] f s" "f_Size f = n" "f_Received f = 0" "sv_rand s = replicate 338 0"
    "svc_reachable sample_kdf linear_interp s"
proof (rule sample_started [OF n])
  fix x s
  assume x: "StartUpload sample_kdf linear_interp (sized_request n) sample_service = (Inr x, s)"
    and re: "svc_reachable sample_kdf linear_interp s" and rnd: "sv_rand s = replicate 338 0"
  have ok0: "store_ok (sv_st sample_service)"
    using svc_ok_reachable [OF sample_service_reachable] by (simp add: svc_ok_def st_ok_store)
  have ok: "store_ok (sv_st s)" using svc_ok_reachable [OF re] by (simp add: svc_ok_def st_ok_store)
  have "Second \<le> UploadTTL (sv_cfg sample_service)" by (simp add: sample_service_def DefaultConfig_def duration_defs)
  then obtain r dek fs where op: "share_open sample_kdf (sized_request n) x r dek fs s"
    using StartUpload_Inr [OF x ok0 sample_kdf_good] by blast
  then have fs: "filter (\<lambda>f. f_DropID f = dr_id r) (files (sv_st s)) = fs" "length fs = 1"
    and new: "\<forall>j < length fs. new_file_of (x_Key x) dek (dr_id r) (sr_Files (sized_request n) ! j) (x_Files x ! j) (fs ! j)"
    by (simp add: share_open_def, simp add: share_open_def sized_request_def, simp add: share_open_def)
  have new: "new_file_of (x_Key x) dek (dr_id r) (sr_Files (sized_request n) ! 0) (x_Files x ! 0) (fs ! 0)"
    using new fs(2) by simp
  have "fs ! 0 \<in> set fs" using fs(2) by simp
  then have f: "fs ! 0 \<in> set (files (sv_st s))" "f_DropID (fs ! 0) = dr_id r" unfolding fs(1) [symmetric] by simp_all
  have "have_all dek (\<lambda>_. []) (dr_id r) s"
    using share_open_ready(1) [OF op] n by (simp add: sized_request_def)
  then have "file_has dek [] (fs ! 0) s" using f by (simp add: have_all_def)
  then show thesis
    using that [of x "dr_id r" dek s "fs ! 0"] op re rnd f new FileByID_iff [OF ok]
    by (simp add: share_open_def new_file_of_def sized_request_def)
qed

text \<open>
  C5: an upload part appends to the file.  For a session that the token opens, a file whose
  blob holds the plaintext \<open>p\<close> received so far and the right offset, the call returns and does
  what appending does: a part that completes the file or is a whole number of chunks is added
  (never beyond the declared size) and the new length recorded, and the blob holds the longer
  plaintext; any other part is refused and the file still holds \<open>p\<close>.  Nothing else changes.
\<close>

theorem upload_part_appends:
  assumes "authed K sid tok i dek s" "FileByID i k (sv_st s) = Inr f" "file_has dek p f s"
    and "int (length p) < f_Size f" "noncePrefixSize \<le> length (sv_rand s)"
  shows "\<exists>s'. WriteParts K sid tok k (int (length p)) pieces False None s =
      (map_sum id (\<lambda>c. int (length c)) (append_part (nat (f_Size f)) p (concat pieces)), s') \<and>
    (case append_part (nat (f_Size f)) p (concat pieces) of
       Inl e \<Rightarrow> only_blob (f_BlobPath f) s s' \<and> file_has dek p f s'
     | Inr c \<Rightarrow> only_blob (f_BlobPath f) (s\<lparr>sv_st := SetReceived k (int (length c)) (sv_st s)\<rparr>) s' \<and>
         file_has dek c (f\<lparr>f_Received := int (length c)\<rparr>) s')"
  using WriteParts_refines [OF assms, of pieces] by blast

theorem upload_part_appends_witness:
  "\<exists>(x :: StartResult) k s s'. svc_reachable sample_kdf linear_interp s \<and>
     WriteParts sample_kdf (x_SessionID x) (x_Token x) k 0 [[1, 2], [3]] False None s = (Inr 3, s')"
proof (rule sample_uploading [of 3])
  fix x :: StartResult and s i dek f
  assume a: "authed sample_kdf (x_SessionID x) (x_Token x) i dek s" "FileByID i (f_ID f) (sv_st s) = Inr f"
    "file_has dek [] f s" "f_Size f = 3" "sv_rand s = replicate 338 0" "svc_reachable sample_kdf linear_interp s"
  have "\<exists>s'. WriteParts sample_kdf (x_SessionID x) (x_Token x) (f_ID f) 0 [[1, 2], [3]] False None s = (Inr 3, s')"
    using upload_part_appends [OF a(1-3), of "[[1, 2], [3]]"] a(4,5)
    by (auto simp: append_part_def noncePrefixSize_def)
  with a(6) show ?thesis by blast
qed simp_all

text \<open>
  What an upload part is refused for.  Without a live session that the token opens, or for
  a file that is not of that session's share, the answer is "not found"; with another offset
  than the length already received it is an offset mismatch that names the expected one; a
  file that is already complete accepts any part as done.  None of these changes anything.
\<close>

theorem upload_part_refused:
  "((\<forall>i dek. \<not> authed K sid tok i dek s) \<longrightarrow>
      WriteParts K sid tok k off pieces bf room s = (Inl ErrNotFound, s)) \<and>
   (\<forall>i dek. authed K sid tok i dek s \<longrightarrow>
      (FileByID i k (sv_st s) = Inl StoreNotFound \<longrightarrow>
         WriteParts K sid tok k off pieces bf room s = (Inl ErrNotFound, s)) \<and>
      (\<forall>f. FileByID i k (sv_st s) = Inr f \<longrightarrow>
         (f_Size f \<le> f_Received f \<longrightarrow>
            WriteParts K sid tok k off pieces bf room s = (Inr (f_Received f), s)) \<and>
         (f_Received f < f_Size f \<and> off \<noteq> f_Received f \<longrightarrow>
            WriteParts K sid tok k off pieces bf room s = (Inl (OffsetMismatch k (f_Received f) off), s))))"
proof (intro conjI impI allI)
  assume no: "\<forall>i dek. \<not> authed K sid tok i dek s"
  have "resolveSession K sid tok s = (Inl ErrNotFound, s)"
  proof (cases "UploadSessionByID sid (sv_now s) (sv_st s)")
    case (Inl e)
    moreover have "e = StoreNotFound" using Inl by (auto simp: UploadSessionByID_def split: option.splits)
    ultimately show ?thesis by (simp add: resolveSession_def andThen_def clock_def notFound_def query_def)
  next
    case (Inr u)
    then have "\<nexists>dek. UnwrapKeyWithToken K (u_Wrapped u) tok ''upload'' = Inr dek" using no by (auto simp: authed_def)
    then show ?thesis
      using Inr by (cases "UnwrapKeyWithToken K (u_Wrapped u) tok ''upload''")
        (auto simp: resolveSession_def andThen_def clock_def notFound_def query_def fail_def)
  qed
  then show "WriteParts K sid tok k off pieces bf room s = (Inl ErrNotFound, s)"
    by (simp add: WriteParts_def andThen_def)
next
  fix i dek assume a: "authed K sid tok i dek s"
  then obtain u where u: "resolveSession K sid tok s = (Inr (u, dek), s)" "u_DropID u = i"
    using authed_resolve by blast
  note W = WriteParts_def andThen_def notFound_def query_def fail_def
  show "WriteParts K sid tok k off pieces bf room s = (Inl ErrNotFound, s)"
    if "FileByID i k (sv_st s) = Inl StoreNotFound" using u that by (simp add: W)
  show "WriteParts K sid tok k off pieces bf room s = (Inr (f_Received f), s)"
    if "FileByID i k (sv_st s) = Inr f" "f_Size f \<le> f_Received f" for f
    by (rule WriteParts_complete [OF a that])
  show "WriteParts K sid tok k off pieces bf room s = (Inl (OffsetMismatch k (f_Received f) off), s)"
    if "FileByID i k (sv_st s) = Inr f" "f_Received f < f_Size f \<and> off \<noteq> f_Received f" for f
    using u that by (simp add: W)
qed

theorem upload_part_refused_witness:
  "WriteParts sample_kdf ''sid'' ''tok'' 1 0 [] False None sample_service = (Inl ErrNotFound, sample_service)"
  using conjunct1 [OF upload_part_refused [of sample_kdf "''sid''" "''tok''" sample_service 1 0 "[]" False None]]
  by (simp add: authed_def UploadSessionByID_def sample_service_def empty_store_def)

subsection \<open>An interrupted part\<close>

text \<open>The blob holds more than the database says was received.\<close>

definition ahead :: "bytes \<Rightarrow> bytes \<Rightarrow> File \<Rightarrow> service \<Rightarrow> bool" where
  "ahead dek p f s \<longleftrightarrow>
     p \<noteq> [] \<and> f_Received f = int (length p) \<and>
     (\<exists>q b. q \<noteq> [] \<and> blob (f_BlobPath f) s = Some b \<and> holds dek (p @ q) b)"

lemma WriteParts_interrupted:
  assumes "authed K sid tok i dek s" "FileByID i k (sv_st s) = Inr f" "progress dek p f s" "p \<noteq> []"
    and "f_Received f < f_Size f" "f_Size f < 2 ^ 62" "noncePrefixSize \<le> length (sv_rand s)"
    and "ChunkSize < length (concat pieces)" "int (length p + length (concat pieces)) < f_Size f"
  shows "\<exists>e s'. WriteParts K sid tok k (int (length p)) pieces True None s = (Inl e, s') \<and>
    only_blob (f_BlobPath f) s s' \<and> ahead dek p f s'"
proof -
  obtain u where u: "resolveSession K sid tok s = (Inr (u, dek), s)" "u_DropID u = i"
    using assms(1) authed_resolve by blast
  have rec: "f_Received f = int (length p)" using assms(3) by (simp add: progress_def)
  obtain b s1 w0 s2 pfx cs where o: "openCreate (f_BlobPath f) s = (Inr b, s1)"
    "writerAt (f_BlobPath f) b dek (f_Received f) None s1 = (Inr w0, s2)"
    "only_blob (f_BlobPath f) s s2" "writer_at w0 dek pfx cs []" "good_key dek pfx" "concat cs = p"
    by (rule positioned [OF assms(3) authed_key [OF assms(1)] assms(7)])
  let ?lim = "nat (f_Size f) - length p"
  have lim: "nat (i64 (f_Size f - int (length p))) = ?lim" using assms(5,6) rec by (simp add: nat_diff_distrib)
  have lim2: "length (concat pieces) < ?lim" using assms(9) by linarith
  obtain w ds buf n where c: "CopyBody w0 pieces True ?lim 0 = (w, n, Some (Other ''read body''))"
    "writer_at w dek pfx (cs @ ds) buf" "concat pieces = concat ds @ buf"
  proof -
    have tk: "take ?lim (concat pieces) = concat pieces" using lim2 by simp
    show ?thesis using CopyBody_at [OF o(4), of pieces True ?lim 0] that lim2 unfolding tk append_Nil by auto
  qed
  have "length buf \<le> ChunkSize" using c(2) by (simp add: writer_at_def)
  have ds: "concat ds \<noteq> []"
  proof
    assume "concat ds = []"
    then have "concat pieces = buf" using c(3) by (simp only: append_Nil)
    then show False using \<open>length buf \<le> ChunkSize\<close> assms(8) by simp
  qed
  then have "w_wroteHeader w" using c(2) o(6) assms(4) by (auto simp: writer_at_def split: if_splits)
  then have d: "sink_data (w_dst w) = partial_of dek pfx (cs @ ds)" "full_chunks (cs @ ds)"
    using c(2) by (simp_all add: writer_at_def)
  let ?s = "snd (setBlob (f_BlobPath f) (sink_data (w_dst w)) s2)"
  have "WriteParts K sid tok k (int (length p)) pieces True None s = (Inl (Other ''read body''), ?s)"
    using u assms(2,5) rec o(1,2) c(1) lim
    by (simp add: WriteParts_def andThen_def notFound_def query_def Let_def setBlob_def fail_def)
  moreover have "only_blob (f_BlobPath f) s ?s" by (rule only_blob_trans [OF o(3) only_blob_setBlob])
  moreover have "holds dek (p @ concat ds) (sink_data (w_dst w))"
    unfolding holds_def using o(5,6) d by (intro exI [of _ pfx] exI [of _ "cs @ ds"]) simp
  then have "ahead dek p f ?s"
    unfolding ahead_def using rec ds assms(4) by (intro conjI exI [of _ "concat ds"] exI [of _ "sink_data (w_dst w)"]) simp_all
  ultimately show ?thesis by blast
qed

lemma WriteParts_ahead:
  assumes "authed K sid tok i dek s" "FileByID i k (sv_st s) = Inr f" "ahead dek p f s" "f_Received f < f_Size f"
  shows "\<exists>e s'. WriteParts K sid tok k off pieces bf room s = (Inl e, s') \<and> only_blob (f_BlobPath f) s s' \<and> ahead dek p f s'"
proof (cases "off = f_Received f")
  case False
  then show ?thesis
    using assms authed_resolve [of K sid tok i dek s]
    by (auto simp: WriteParts_def andThen_def notFound_def query_def fail_def)
next
  case True
  obtain u where u: "resolveSession K sid tok s = (Inr (u, dek), s)" "u_DropID u = i"
    using assms(1) authed_resolve by blast
  obtain q b where q: "p \<noteq> []" "f_Received f = int (length p)" "q \<noteq> []" "blob (f_BlobPath f) s = Some b" "holds dek (p @ q) b"
    using assms(3) by (auto simp: ahead_def)
  then obtain pfx cs where h: "good_key dek pfx" "full_chunks cs" "concat cs = p @ q" "b = partial_of dek pfx cs"
    by (auto simp: holds_def)
  have al: "AlignDown (int (length b)) = int (length b)"
    using AlignDown_nat [of "length cs" 0] length_partial_of [OF h(1,2)] h(4) by simp
  have "writerAt (f_BlobPath f) b dek off room s =
      (Inl (OffsetMismatch 0 (int (length (p @ q))) off), snd (setBlob (f_BlobPath f) b s))"
    using InspectPartial_partial [OF h(1,2)] q(1-3) True
    by (simp add: writerAt_def Let_def al andThen_def setBlob_def fail_def h(3) h(4) [symmetric])
  moreover have "openCreate (f_BlobPath f) s = (Inr b, s)" using q(4) by (simp add: openCreate_def blob_def)
  ultimately have "WriteParts K sid tok k off pieces bf room s =
      (Inl (OffsetMismatch 0 (int (length (p @ q))) off), snd (setBlob (f_BlobPath f) b s))"
    using u assms(2,4) True by (simp add: WriteParts_def andThen_def notFound_def query_def Let_def)
  moreover have "ahead dek p f (snd (setBlob (f_BlobPath f) b s))" using q by (auto simp: ahead_def)
  ultimately show ?thesis using only_blob_setBlob by blast
qed



end
