(* ===== verification/Download_Props.thy ===== *)
theory Download_Props
  imports Names_Correct Upload_Props
begin

text \<open>
  Properties of the download side: who may unlock a share, how downloads are counted, what
  tickets and archives deliver, and how reports and the sweep take shares out of service.
\<close>

subsection \<open>A published share\<close>

lemma reachable_send_file: "svc_reachable K ip s \<Longrightarrow> svc_reachable K ip (snd (send_file K sid tok k off parts s))"
proof (induction parts arbitrary: off s)
  case (Cons part parts)
  obtain r s1 where r: "WriteParts K sid tok k off part False None s = (r, s1)"
    by (cases "WriteParts K sid tok k off part False None s")
  have "svc_reachable K ip s1"
    using svc_reachable.step [OF Cons.prems svc_step.op [OF svc_op.write_parts], of sid tok k off part False None] r by simp
  then show ?case using Cons.IH r by (cases r) (simp_all add: andThen_def)
qed (simp add: ret_def)

lemma reachable_send_all: "svc_reachable K ip s \<Longrightarrow> svc_reachable K ip (snd (send_all K sid tok jobs s))"
proof (induction jobs arbitrary: s)
  case (Cons job jobs)
  obtain k parts where job: "job = (k, parts)" by (cases job)
  obtain r s1 where r: "send_file K sid tok k 0 parts s = (r, s1)" by (cases "send_file K sid tok k 0 parts s")
  have "svc_reachable K ip s1" using reachable_send_file [OF Cons.prems, of sid tok k 0 parts] r by simp
  then show ?case using Cons.IH r job by (cases r) (simp_all add: andThen_def)
qed (simp add: ret_def)

lemma sample_live:
  obtains s key pw r dek fs tok t where "svc_reachable sample_kdf linear_interp s"
    "share_live sample_kdf key pw (sized_request 3) [[[[1, 2, 3]]]] r dek fs s"
    "NewToken (sv_rand s) = (Inr tok, t)" "sv_cfg s = DefaultConfig ''/srv/blobs''"
proof (rule sample_started [of 3])
  fix x s1
  assume x: "StartUpload sample_kdf linear_interp (sized_request 3) sample_service = (Inr x, s1)"
    and re: "svc_reachable sample_kdf linear_interp s1" and rnd: "sv_rand s1 = replicate 338 0"
  let ?req = "sized_request 3" and ?bodies = "[[[[1, 2, 3]]]] :: bytes list list list"
  have ok0: "store_ok (sv_st sample_service)"
    using svc_ok_reachable [OF sample_service_reachable] by (simp add: svc_ok_def st_ok_store)
  have ok1: "store_ok (sv_st s1)" using svc_ok_reachable [OF re] by (simp add: svc_ok_def st_ok_store)
  have cl: "client_ok ?req ?bodies" by (simp add: client_ok_def sized_request_def body_def)
  have ttl: "Second \<le> UploadTTL (sv_cfg sample_service)" by (simp add: sample_service_def DefaultConfig_def duration_defs)
  obtain r dek fs where op: "share_open sample_kdf ?req x r dek fs s1" "sv_cfg s1 = sv_cfg sample_service"
    by (rule StartUpload_Inr [OF x ok0 sample_kdf_good ttl])
  obtain s2 fs2 where s2: "send_all sample_kdf (x_SessionID x) (x_Token x) (zip (map sf_ID (x_Files x)) ?bodies) s1 = (Inr (), s2)"
    "same_share s1 s2" "store_ok (sv_st s2)" "share_sent ?req ?bodies (dr_id r) dek fs2 s2"
    by (rule send_share [OF op(1) ok1 cl]) (use rnd in \<open>simp_all add: noncePrefixSize_def\<close>)
  obtain d s3 r' where s3: "FinishUpload sample_kdf (x_SessionID x) (x_Token x) s2 = (Inr d, s3)" "sv_cfg s3 = sv_cfg s1"
    "share_live sample_kdf (x_Key x) (x_Password x) ?req ?bodies r' dek fs2 s3"
    by (rule finish_share [OF op(1) s2(2-4) cl])
  have r2: "svc_reachable sample_kdf linear_interp s2" using reachable_send_all [OF re] s2(1) by (metis snd_conv)
  have r3: "svc_reachable sample_kdf linear_interp s3"
    using svc_reachable.step [OF r2 svc_step.op [OF svc_op.finish], of "x_SessionID x" "x_Token x"] s3(1) by simp
  let ?s = "s3\<lparr>sv_rand := replicate 32 0\<rparr>"
  have "svc_reachable sample_kdf linear_interp ?s"
    using svc_reachable.step [OF r3 svc_step.host [where fs = "sv_fs s3" and rnd = "replicate 32 0"]] by simp
  moreover have "file_has dek c f ?s = file_has dek c f s3" for c f
    by (simp add: file_has_def progress_def blob_def)
  then have "share_live sample_kdf (x_Key x) (x_Password x) ?req ?bodies r' dek fs2 ?s"
    using s3(3) by (simp add: share_live_def share_sent_def)
  moreover have "NewToken (sv_rand ?s) = (Inr (replicate 32 (hd passwordAlphabet)), replicate 0 0)"
    unfolding NewToken_def by (simp add: randomString_zeros passwordAlphabet_def)
  ultimately show thesis using that s3(2) op(2) by (simp add: sample_service_def)
qed simp_all

lemma Unlock_cases:
  assumes "store_ok (sv_st s)"
  shows "case drop_by_key key (sv_st s) of
      None \<Rightarrow> Unlock K key pw s = (Inl ErrNotFound, s)
    | Some r \<Rightarrow>
        if \<not> claimable key (sv_now s) r then Unlock K key pw s = (Inl ErrNotFound, s)
        else case UnwrapKey K (dr_wrapped_dek r) pw of
          Inl e \<Rightarrow> Unlock K key pw s = (Inl (if e = CryptoWrongPassword then ErrWrongPassword else e), s)
        | Inr dek \<Rightarrow> (\<forall>un s'. Unlock K key pw s = (Inr un, s') \<longrightarrow>
            sv_st s' = sv_st s \<and> sv_fs s' = sv_fs s \<and>
            map_of (sv_down s') (un_Token un) = Some \<lparr>ss_dropKey = key, ss_dropID = dr_id r, ss_dek = dek,
              ss_expiresAt = sv_now s + DownloadTTL (sv_cfg s), ss_claimed = False\<rparr> \<and>
            (\<forall>t. t \<noteq> un_Token un \<longrightarrow> map_of (sv_down s') t = map_of (sv_down s) t))"
proof -
  have live: "LiveDropByKey key (sv_now s) (sv_st s) =
      scanDrop (case drop_by_key key (sv_st s) of None \<Rightarrow> None | Some r \<Rightarrow> if claimable key (sv_now s) r then Some r else None)"
    by (simp add: LiveDropByKey_def find_claimable [OF assms])
  note U = Unlock_def andThen_def clock_def notFound_def query_def live fail_def
  show ?thesis
  proof (cases "drop_by_key key (sv_st s)")
    case (Some r)
    have key: "dr_key r = key" using Some drop_by_key_Some [OF assms] by simp
    show ?thesis
    proof (cases "claimable key (sv_now s) r")
      case True
      then show ?thesis
        using Some key
        by (cases "UnwrapKey K (dr_wrapped_dek r) pw")
           (auto simp: U draw_def config_def ret_def Let_def put_def map_of_tab_put split: sum.splits prod.splits)
    qed (use Some in \<open>simp add: U\<close>)
  qed (simp add: U)
qed

text \<open>The file can be read to its end: its name decrypts and its blob is the sealed content.\<close>

definition readable :: "bytes \<Rightarrow> (int \<Rightarrow> string) \<Rightarrow> (int \<Rightarrow> bytes) \<Rightarrow> File \<Rightarrow> blobfs \<Rightarrow> bool" where
  "readable dek nm cont f fs \<longleftrightarrow>
     Open dek (f_NameEnc f) = Inr (bytes_of (nm (f_ID f))) \<and> f_Size f = int (length (cont (f_ID f))) \<and> f_Size f < 2 ^ 61 \<and>
     (\<exists>b. map_of (fs_files fs) (f_BlobPath f) = Some b \<and> sealed dek (cont (f_ID f)) b)"

lemma share_live_readable:
  assumes "share_live K key pw req bodies r dek fs s" "f \<in> set (files (sv_st s))" "f_DropID f = dr_id r"
    and "\<And>j. j < length (sr_Files req) \<Longrightarrow> q_Name (sr_Files req ! j) = nm \<and> body (bodies ! j) = c"
  shows "readable dek (\<lambda>_. nm) (\<lambda>_. c) f (sv_fs s)"
proof -
  have "share_sent req bodies (dr_id r) dek fs s" using assms(1) by (simp add: share_live_def)
  moreover from this have "f \<in> set fs" using assms(2,3) by (auto simp: share_sent_def Files_def)
  then obtain j where "j < length fs" "f = fs ! j" by (auto simp: in_set_conv_nth)
  ultimately show ?thesis
    using assms(4) [of j] by (auto simp: share_sent_def readable_def file_has_def blob_def)
qed

lemma sample_unlocked:
  obtains s r x tok where "svc_reachable sample_kdf linear_interp s" "map_of (sv_down s) tok = Some x"
    "sv_now s \<le> ss_expiresAt x" "\<not> ss_claimed x" "drop_by_key (ss_dropKey x) (sv_st s) = Some r"
    "claimable (ss_dropKey x) (sv_now s) r" "NewToken (sv_rand s) = (Inr (replicate 32 (hd passwordAlphabet)), [])"
    "\<forall>f \<in> set (files (sv_st s)). f_DropID f = ss_dropID x \<longrightarrow> readable (ss_dek x) (\<lambda>_. ''a.txt'') (\<lambda>_. [1, 2, 3]) f (sv_fs s)"
    "\<exists>f \<in> set (files (sv_st s)). f_DropID f = ss_dropID x"
proof (rule sample_live)
  fix s key pw r dek fs tok t
  assume re: "svc_reachable sample_kdf linear_interp s"
    and live: "share_live sample_kdf key pw (sized_request 3) [[[[1, 2, 3]]]] r dek fs s"
    and tk: "NewToken (sv_rand s) = (Inr tok, t)" and cfg: "sv_cfg s = DefaultConfig ''/srv/blobs''"
  have ttl: "0 \<le> DownloadTTL (sv_cfg s)" by (simp add: cfg DefaultConfig_def duration_defs)
  obtain un s' where u: "Unlock sample_kdf key pw s = (Inr un, s')"
    by (rule live_share_delivers [OF live ttl tk])
  have l: "store_ok (sv_st s)" "drop_by_key key (sv_st s) = Some r" "claimable key (sv_now s) r"
      "UnwrapKey sample_kdf (dr_wrapped_dek r) pw = Inr dek"
    using live by (auto simp: share_live_def drop_by_key_Some claimable_def)
  let ?x = "\<lparr>ss_dropKey = key, ss_dropID = dr_id r, ss_dek = dek,
      ss_expiresAt = sv_now s + DownloadTTL (sv_cfg s), ss_claimed = False\<rparr>"
  have s': "sv_st s' = sv_st s" "sv_fs s' = sv_fs s" "map_of (sv_down s') (un_Token un) = Some ?x"
    using Unlock_cases [OF l(1), where key = key and K = sample_kdf and pw = pw] l u by simp_all
  have now: "sv_now s' = sv_now s"
    using u by (auto simp: Unlock_def andThen_def clock_def notFound_def query_def draw_def config_def ret_def fail_def Let_def
      split: sum.splits prod.splits if_splits)
  have "svc_reachable sample_kdf linear_interp s'"
    using svc_reachable.step [OF re svc_step.op [OF svc_op.unlock], of key pw] u by simp
  from svc_reachable.step [OF this svc_step.host [where fs = "sv_fs s'" and rnd = "replicate 32 0"]]
  have "svc_reachable sample_kdf linear_interp (s'\<lparr>sv_rand := replicate 32 0\<rparr>)" by simp
  moreover have "NewToken (replicate 32 0) = (Inr (replicate 32 (hd passwordAlphabet)), [])"
    unfolding NewToken_def by (simp add: randomString_zeros passwordAlphabet_def)
  moreover have "\<forall>f \<in> set (files (sv_st s)). f_DropID f = dr_id r \<longrightarrow>
      readable dek (\<lambda>_. ''a.txt'') (\<lambda>_. [1, 2, 3]) f (sv_fs s)"
    using share_live_readable [OF live] by (simp add: sized_request_def body_def)
  moreover have "fs ! 0 \<in> set (files (sv_st s)) \<and> f_DropID (fs ! 0) = dr_id r"
    using live by (simp add: share_live_def share_sent_def sized_request_def)
  ultimately show thesis
    using that [of "s'\<lparr>sv_rand := replicate 32 0\<rparr>" "un_Token un" ?x r] s' now l ttl by auto
qed

subsection \<open>Counting downloads\<close>

text \<open>All that opening a file changes is the claim its session makes.\<close>

lemma OpenFile_state: "snd (OpenFile tok k off s) = snd (andThen (getSession tok) (claimSession tok) s)"
proof (cases "getSession tok s")
  case (Pair r s1)
  show ?thesis
  proof (cases r)
    case (Inl e)
    then show ?thesis using Pair by (simp add: OpenFile_def andThen_def)
  next
    case (Inr x)
    obtain r2 s2 where c: "claimSession tok x s1 = (r2, s2)" by (cases "claimSession tok x s1")
    have "\<exists>r. andThen (notFound (query (FileByID (ss_dropID x) k))) (\<lambda>file.
       if off < 0 \<or> off > f_Size file then fail ErrInvalid
       else
         andThen (lift_res (Open (ss_dek x) (f_NameEnc file))) (\<lambda>name.
         andThen (openBlob (f_BlobPath file)) (\<lambda>content.
         let uf = \<lparr>uf_ID = f_ID file, uf_Name = string_of name, uf_Size = f_Size file\<rparr> in
         if off = f_Size file then ret (EmptyReader, uf)
         else
           andThen (lift_res (OpenAt (file_source content) (ss_dek x) off)) (\<lambda>r.
           ret (FileReader r, uf))))) s2 = (r, s2)"
      by (auto simp: andThen_def notFound_def query_def fail_def lift_res_def openBlob_def ret_def Let_def
          split: sum.splits prod.splits option.splits)
    then show ?thesis using Pair Inr c by (cases r2) (auto simp: OpenFile_def andThen_def)
  qed
qed

fun run_opens :: "string \<Rightarrow> (int \<times> int) list \<Rightarrow> service \<Rightarrow> service" where
  "run_opens tok [] s = s"
| "run_opens tok ((k, off) # reqs) s = run_opens tok reqs (snd (OpenFile tok k off s))"

lemma claimSession_claimed: "ss_claimed x \<Longrightarrow> claimSession tok x s = (Inr (), s)"
  by (simp add: claimSession_def claimOnce_def)

lemma claimSession_refused:
  assumes "store_ok (sv_st s)" "\<not> ss_claimed x"
    and "case drop_by_key (ss_dropKey x) (sv_st s) of None \<Rightarrow> True | Some r \<Rightarrow> \<not> claimable (ss_dropKey x) (sv_now s) r"
  shows "claimSession tok x s = (Inl ErrNotFound, s)"
  using assms(2,3)
  by (auto simp: claimSession_def claimOnce_def claimDownload_def ClaimDownload_cases [OF assms(1)] split: option.splits)

lemma claimSession_counted:
  assumes "store_ok (sv_st s)" "\<not> ss_claimed x" "drop_by_key (ss_dropKey x) (sv_st s) = Some r"
    and "claimable (ss_dropKey x) (sv_now s) r"
  obtains st where "claimSession tok x s =
      (Inr (), s\<lparr>sv_down := tab_put tok (x\<lparr>ss_claimed := True\<rparr>) (sv_down s), sv_st := st\<rparr>)"
    "drop_by_key (ss_dropKey x) st = Some (r\<lparr>dr_downloads := dr_downloads r + 1\<rparr>)"
    "files st = files (sv_st s)" "store_ok st"
proof -
  let ?key = "ss_dropKey x"
  let ?st = "(sv_st s)\<lparr>drops := update_where (\<lambda>x. dr_key x = ?key) (\<lambda>x. x\<lparr>dr_downloads := dr_downloads x + 1\<rparr>) (drops (sv_st s))\<rparr>"
  have c: "ClaimDownload ?key (sv_now s) (sv_st s) = (Inr (toDrop (r\<lparr>dr_downloads := dr_downloads r + 1\<rparr>)), ?st)"
    using assms(3,4) by (simp add: ClaimDownload_cases [OF assms(1)])
  let ?st' = "BumpUsage (DayKey (sv_now s)) 0 1 0 ?st"
  have "drop_by_key ?key ?st' = drop_by_key ?key ?st" by (simp add: drop_by_key_def BumpUsage_def)
  then have "drop_by_key ?key ?st' = Some (r\<lparr>dr_downloads := dr_downloads r + 1\<rparr>)"
    by (simp only: drop_by_key_claimed assms(3) option.map)
  moreover have "store_ok ?st'" using store_ok_BumpUsage store_ok_ClaimDownload [OF assms(1), of ?key "sv_now s"] c by simp
  ultimately show ?thesis
    using that [of ?st'] c assms(2) by (simp add: claimSession_def claimOnce_def claimDownload_def BumpUsage_def)
qed

lemma run_opens_count:
  assumes "store_ok (sv_st s)" "map_of (sv_down s) tok = Some x" "sv_now s \<le> ss_expiresAt x" "reqs \<noteq> []"
  shows "map_option dr_downloads (drop_by_key (ss_dropKey x) (sv_st (run_opens tok reqs s))) =
    map_option (\<lambda>r. dr_downloads r + (if \<not> ss_claimed x \<and> claimable (ss_dropKey x) (sv_now s) r then 1 else 0))
      (drop_by_key (ss_dropKey x) (sv_st s))"
proof -
  have claimed: "run_opens tok reqs s = s" if "map_of (sv_down s) tok = Some x" "sv_now s \<le> ss_expiresAt x" "ss_claimed x" for s x reqs
  proof (induction reqs)
    case (Cons a reqs)
    have "snd (OpenFile tok k off s) = s" for k off
      using that by (simp add: OpenFile_state andThen_def getSession_Inr [THEN iffD2] claimSession_claimed)
    then show ?case using Cons by (cases a) simp
  qed simp
  have g: "getSession tok s = (Inr x, s)" using assms(2,3) by (simp add: getSession_Inr)
  obtain k off rest where reqs: "reqs = (k, off) # rest" using assms(4) by (cases reqs) auto
  show ?thesis
  proof (cases "ss_claimed x")
    case True
    then show ?thesis using claimed [OF assms(2,3)] by (cases "drop_by_key (ss_dropKey x) (sv_st s)") simp_all
  next
    case unclaimed: False
    show ?thesis
    proof (cases "case drop_by_key (ss_dropKey x) (sv_st s) of None \<Rightarrow> True | Some r \<Rightarrow> \<not> claimable (ss_dropKey x) (sv_now s) r")
      case True
      have "snd (OpenFile tok k off s) = s" for k off
        using g claimSession_refused [OF assms(1) unclaimed True] by (simp add: OpenFile_state andThen_def)
      then have "run_opens tok reqs s = s" for reqs by (induction reqs) auto
      then show ?thesis using True by (auto split: option.splits)
    next
      case False
      then obtain r where r: "drop_by_key (ss_dropKey x) (sv_st s) = Some r" "claimable (ss_dropKey x) (sv_now s) r"
        by (auto split: option.splits)
      obtain st where c: "claimSession tok x s =
          (Inr (), s\<lparr>sv_down := tab_put tok (x\<lparr>ss_claimed := True\<rparr>) (sv_down s), sv_st := st\<rparr>)"
        "drop_by_key (ss_dropKey x) st = Some (r\<lparr>dr_downloads := dr_downloads r + 1\<rparr>)"
        by (rule claimSession_counted [OF assms(1) unclaimed r])
      let ?s = "s\<lparr>sv_down := tab_put tok (x\<lparr>ss_claimed := True\<rparr>) (sv_down s), sv_st := st\<rparr>"
      have "snd (OpenFile tok k off s) = ?s" using g c(1) by (simp add: OpenFile_state andThen_def)
      moreover have "run_opens tok rest ?s = ?s"
        by (rule claimed [of _ "x\<lparr>ss_claimed := True\<rparr>"]) (use assms(3) in \<open>simp_all add: map_of_tab_put\<close>)
      ultimately show ?thesis using c(2) r unclaimed by (simp add: reqs)
    qed
  qed
qed

text \<open>
  C17: a session uses up one download.  However many files are opened with one session, and
  wherever in them, the share's download count rises by exactly one in all if the session had
  not claimed yet and the share is live, and does not change otherwise.
\<close>

theorem session_claims_once:
  assumes "svc_reachable K ip s" "map_of (sv_down s) tok = Some x" "sv_now s \<le> ss_expiresAt x" "reqs \<noteq> []"
  shows "map_option dr_downloads (drop_by_key (ss_dropKey x) (sv_st (run_opens tok reqs s))) =
    map_option (\<lambda>r. dr_downloads r + (if \<not> ss_claimed x \<and> claimable (ss_dropKey x) (sv_now s) r then 1 else 0))
      (drop_by_key (ss_dropKey x) (sv_st s))"
  using svc_ok_reachable [OF assms(1)] by (intro run_opens_count assms(2-4)) (simp add: svc_ok_def st_ok_store)

theorem session_claims_once_witness:
  "\<exists>s tok (x :: downloadSession) r. svc_reachable sample_kdf linear_interp s \<and> drop_by_key (ss_dropKey x) (sv_st s) = Some r \<and>
    map_option dr_downloads (drop_by_key (ss_dropKey x) (sv_st (run_opens tok [(1, 0), (1, 2), (7, 0)] s))) =
      Some (dr_downloads r + 1)"
proof (rule sample_unlocked)
  fix s :: service and r :: drop_row and x :: downloadSession and tok
  assume a: "svc_reachable sample_kdf linear_interp s" "map_of (sv_down s) tok = Some x"
    "sv_now s \<le> ss_expiresAt x" "\<not> ss_claimed x" "drop_by_key (ss_dropKey x) (sv_st s) = Some r"
    "claimable (ss_dropKey x) (sv_now s) r"
  have "map_option dr_downloads (drop_by_key (ss_dropKey x) (sv_st (run_opens tok [(1, 0), (1, 2), (7, 0)] s))) =
      Some (dr_downloads r + 1)"
    using session_claims_once [OF a(1-3), of "[(1, 0), (1, 2), (7, 0)]"] a(4-6) by simp
  with a(1,5) show ?thesis by blast
qed

subsection \<open>Unlocking\<close>



subsection \<open>Tickets\<close>

text \<open>
  A ticket stands for what it was issued for.  Once issued it redeems to exactly the
  session token and file it was asked for, as often as wanted, until ten minutes have
  passed; after that it is not found.  Issuing needs a live session and, for a single file, a
  file of that session's share.
\<close>

theorem ticket_redeems:
  assumes "IssueTicket tok k s = (Inr (i, e), s')"
  shows "e = sv_now s + ticketTTL \<and>
    (\<exists>x. map_of (sv_down s) tok = Some x \<and> sv_now s \<le> ss_expiresAt x \<and>
       (k = ZipTicket \<or> (\<exists>f \<in> set (files (sv_st s)). f_ID f = k \<and> f_DropID f = ss_dropID x))) \<and>
    (\<forall>now. fst (redeem i (s'\<lparr>sv_now := now\<rparr>)) = (if now \<le> e then Inr (tok, k) else Inl ErrNotFound)) \<and>
    (\<forall>now. now \<le> e \<longrightarrow> snd (redeem i (s'\<lparr>sv_now := now\<rparr>)) = s'\<lparr>sv_now := now\<rparr>)"
proof -
  obtain x s1 where x: "getSession tok s = (Inr x, s1)"
    and c: "(if k \<noteq> ZipTicket \<and> FileByID (ss_dropID x) k (sv_st s1) = Inl StoreNotFound then fail ErrNotFound s1
     else andThen (draw NewToken) (\<lambda>i. andThen clock (\<lambda>now. let expires = now + ticketTTL in
       andThen (\<lambda>s. (Inr (), s\<lparr>sv_tickets := tab_put i
          \<lparr>tk_sessionToken = tok, tk_fileID = k, tk_expiresAt = expires\<rparr> (sv_tickets s)\<rparr>)) (\<lambda>_.
       ret (i, expires)))) s1) = (Inr (i, e), s')"
    using assms unfolding IssueTicket_def by (rule andThen_Inr_E)
  have sess: "s1 = s" "map_of (sv_down s) tok = Some x" "sv_now s \<le> ss_expiresAt x" using x by (simp_all add: getSession_Inr)
  have f: "k = ZipTicket \<or> (\<exists>f. FileByID (ss_dropID x) k (sv_st s) = Inr f)"
    using c sess(1) by (auto simp: fail_def FileByID_def split: if_splits option.splits)
  have e: "e = sv_now s + ticketTTL" "map_of (sv_tickets s') i = Some \<lparr>tk_sessionToken = tok, tk_fileID = k, tk_expiresAt = e\<rparr>"
    using c sess(1) by (auto simp: fail_def andThen_def draw_def clock_def ret_def Let_def map_of_tab_put
      split: if_splits prod.splits sum.splits)
  then show ?thesis using f sess(2,3) FileByID_Inr by (fastforce simp: redeem_def lookupTicket_def After_def)
qed

theorem ticket_redeems_witness:
  "\<exists>s tok i e s'. IssueTicket tok ZipTicket s = (Inr (i, e), s') \<and> fst (redeem i s') = Inr (tok, ZipTicket)"
proof (rule sample_unlocked)
  fix s :: service and x :: downloadSession and tok
  assume a: "map_of (sv_down s) tok = Some x" "sv_now s \<le> ss_expiresAt x"
    "NewToken (sv_rand s) = (Inr (replicate 32 (hd passwordAlphabet)), [])"
  have "getSession tok s = (Inr x, s)" using a(1,2) by (simp add: getSession_Inr)
  then obtain i e s' where t: "IssueTicket tok ZipTicket s = (Inr (i, e), s')" "sv_now s' = sv_now s"
    using a(3) by (simp add: IssueTicket_def andThen_def draw_def clock_def ret_def Let_def)
  have "0 \<le> ticketTTL" by (simp add: ticketTTL_def duration_defs)
  then have "fst (redeem i (s'\<lparr>sv_now := sv_now s\<rparr>)) = Inr (tok, ZipTicket)"
    using ticket_redeems [OF t(1)] by simp
  then show ?thesis using t by (metis (no_types, lifting) service.surjective service.update_convs(7))
qed

subsection \<open>Expiry without a sweep\<close>

text \<open>
  Sweeping the in-memory tables is only housekeeping.  Whatever is looked up at or after
  the time of a sweep, in the session table or the ticket table, is found exactly as if the
  sweep had not run; and what the sweep reports as removed is what the tables have lost.
\<close>

theorem sweep_is_invisible:
  assumes "svc_reachable K ip s" "now \<le> later"
  shows "fst (get tok later (snd (sweepSessions now (sv_down s)))) = fst (get tok later (sv_down s)) \<and>
    fst (lookupTicket i later (snd (sweepTickets now (sv_tickets s)))) = fst (lookupTicket i later (sv_tickets s)) \<and>
    fst (sweepSessions now (sv_down s)) + length (snd (sweepSessions now (sv_down s))) = length (sv_down s) \<and>
    fst (sweepTickets now (sv_tickets s)) + length (snd (sweepTickets now (sv_tickets s))) = length (sv_tickets s)"
proof -
  have "distinct (map fst (sv_down s))" "distinct (map fst (sv_tickets s))"
    using svc_ok_reachable [OF assms(1)] by (simp_all add: svc_ok_def sessions_ok_def)
  then show ?thesis
    using assms(2) sessions.clear_invisible tickets.clear_invisible sessions.clear_count tickets.clear_count by simp
qed

theorem sweep_is_invisible_witness:
  "\<exists>s tok x. svc_reachable sample_kdf linear_interp s \<and> map_of (sv_down s) tok = Some x \<and>
    fst (get tok (sv_now s) (snd (sweepSessions (sv_now s) (sv_down s)))) = Some x"
proof (rule sample_unlocked)
  fix s :: service and x :: downloadSession and tok
  assume a: "svc_reachable sample_kdf linear_interp s" "map_of (sv_down s) tok = Some x" "sv_now s \<le> ss_expiresAt x"
  have "get tok (sv_now s) (sv_down s) = (Some x, sv_down s)" using a(2,3) by (simp add: get_def After_def)
  then have "fst (get tok (sv_now s) (snd (sweepSessions (sv_now s) (sv_down s)))) = Some x"
    using sweep_is_invisible [OF a(1) order_refl] by simp
  with a(1,2) show ?thesis by blast
qed

subsection \<open>Reports\<close>

lemma ReportAct_known:
  assumes "store_ok (sv_st s)" "keyFromInput inp = dr_key r" "dr_key r \<noteq> []" "r \<in> set (drops (sv_st s))"
  obtains rep where "ReportAct inp reason who addr s = (Inr (),
      s\<lparr>sv_st := (BlockDrop (dr_id r) (sv_now s) (sv_st s))\<lparr>reports := reports (sv_st s) @ [rep]\<rparr>,
        sv_down := deleteByDrop (dr_id r) (sv_down s)\<rparr>)"
    "p_drop_id rep = Some (dr_id r)" "p_drop_key rep = dr_key r"
proof -
  have "find (\<lambda>x. dr_key x = dr_key r) (drops (sv_st s)) = Some r"
    using assms(1,4) drop_by_key_Some [of "sv_st s" "dr_key r" r] by (simp add: drop_by_key_def)
  then have d: "DropByKey (dr_key r) (sv_st s) = Inr (toDrop r)" by (simp add: DropByKey_def)
  have i: "dr_id r \<in> dr_id ` set (drops (BlockDrop (dr_id r) (sv_now s) (sv_st s)))"
  proof -
    have "map dr_id (drops (BlockDrop (dr_id r) (sv_now s) (sv_st s))) = map dr_id (drops (sv_st s))"
      by (simp add: BlockDrop_def map_update_where)
    then have "dr_id ` set (drops (BlockDrop (dr_id r) (sv_now s) (sv_st s))) = dr_id ` set (drops (sv_st s))"
      by (metis list.set_map)
    then show ?thesis using assms(4) by simp
  qed
  let ?rep = "new_report \<lparr>rp_DropID = Some (dr_id r), rp_DropKey = dr_key r, rp_Reason = reason, rp_Reporter = who,
      rp_ReporterIP = addr, rp_CreatedAt = sv_now s, rp_Status = ''open''\<rparr> (next_id (map p_id (reports (sv_st s))))"
  have "reports (BlockDrop (dr_id r) (sv_now s) (sv_st s)) = reports (sv_st s)" by (simp add: BlockDrop_def)
  then have "ReportAct inp reason who addr s = (Inr (),
      s\<lparr>sv_st := (BlockDrop (dr_id r) (sv_now s) (sv_st s))\<lparr>reports := reports (sv_st s) @ [?rep]\<rparr>,
        sv_down := deleteByDrop (dr_id r) (sv_down s)\<rparr>)"
    using d i assms(2,3)
    by (simp add: ReportAct_def Let_def andThen_def clock_def db_upd_def db_err_def CreateReport_def insert_row_def)
  then show ?thesis by (rule that) (simp_all add: new_report_def)
qed



subsection \<open>Deleting\<close>

lemma HasPrefix_append: "HasPrefix (p @ x) (p @ y) = HasPrefix x y"
  by (simp add: HasPrefix_def)

text \<open>The directory of a share holds the blobs of that share only.\<close>

lemma blob_in_dropDir:
  assumes "blobRel key' i = Inr p" "dropDir key = Inr dir" "length key' = length key"
  shows "HasPrefix p (dir @ ''/'') \<longleftrightarrow> key' = key"
proof -
  have l: "2 \<le> length key" "p = take 2 key' @ ''/'' @ key' @ ''/'' @ FormatInt i" "dir = take 2 key @ ''/'' @ key"
    using assms by (auto simp: blobRel_def dropDir_def split: if_splits)
  have "take (length (dir @ ''/'')) p = take 2 key' @ ''/'' @ key' @ ''/''"
    using l assms(3) by (simp add: numeral_2_eq_2)
  then have "HasPrefix p (dir @ ''/'') \<longleftrightarrow> take 2 key' @ ''/'' @ key' @ ''/'' = take 2 key @ ''/'' @ key @ ''/''"
    unfolding HasPrefix_def using l(3) by simp
  also have "\<dots> \<longleftrightarrow> key' = key" using assms(3) append_eq_append_conv [of "take 2 key'" "take 2 key"] by auto
  finally show ?thesis .
qed

lemma DeleteDropAct_ok:
  assumes "dropDir (d_Key d) = Inr dir" "dir \<notin> set (fs_denied (sv_fs s))"
  shows "DeleteDropAct d s = (Inr (), s\<lparr>sv_down := deleteByDrop (d_ID d) (sv_down s),
     sv_fs := (sv_fs s)\<lparr>fs_files := filter (\<lambda>(p, b). \<not> HasPrefix p (dir @ ''/'')) (fs_files (sv_fs s)),
        fs_dirs := filter (\<lambda>d. d \<noteq> dir) (fs_dirs (sv_fs s))\<rparr>,
     sv_st := DeleteDrop (d_ID d) (sv_st s)\<rparr>)"
  using assms by (simp add: DeleteDropAct_eq RemoveAll_def Let_def)

lemma map_of_filter_key: "map_of (filter (\<lambda>(p, b). P p) t) q = (if P q then map_of t q else None)"
  by (induction t) auto



subsection \<open>The sweep\<close>

definition in_dir_of :: "string \<Rightarrow> string \<Rightarrow> bool" where
  "in_dir_of p key \<longleftrightarrow> HasPrefix p (take 2 key @ ''/'' @ key @ ''/'')"

lemma sweepDrops_ok:
  assumes "\<forall>d \<in> set ds. 2 \<le> length (d_Key d)" "fs_denied (sv_fs s) = []"
  shows "\<exists>s'. sweepDrops ds s = (length ds, 0, s') \<and>
    drops (sv_st s') = filter (\<lambda>r. dr_id r \<notin> d_ID ` set ds) (drops (sv_st s)) \<and>
    files (sv_st s') = filter (\<lambda>f. f_DropID f \<notin> d_ID ` set ds) (files (sv_st s)) \<and>
    (\<forall>p. blob p s' = (if \<exists>d \<in> set ds. in_dir_of p (d_Key d) then None else blob p s))"
  using assms
proof (induction ds arbitrary: s)
  case (Cons d ds)
  let ?dir = "take 2 (d_Key d) @ ''/'' @ d_Key d"
  have dir: "dropDir (d_Key d) = Inr ?dir" using Cons.prems(1) by (simp add: dropDir_def)
  obtain s1 where s1: "DeleteDropAct d s = (Inr (), s1)" "fs_denied (sv_fs s1) = []"
      "drops (sv_st s1) = filter (\<lambda>r. dr_id r \<noteq> d_ID d) (drops (sv_st s))"
      "files (sv_st s1) = filter (\<lambda>f. f_DropID f \<noteq> d_ID d) (files (sv_st s))"
      "\<And>p. blob p s1 = (if in_dir_of p (d_Key d) then None else blob p s)"
    using DeleteDropAct_ok [OF dir, of s] Cons.prems(2)
    by (simp add: DeleteDrop_def delete_where_def blob_def map_of_filter_key in_dir_of_def)
  have ds: "\<forall>d \<in> set ds. 2 \<le> length (d_Key d)" using Cons.prems(1) by simp
  obtain s' where s': "sweepDrops ds s1 = (length ds, 0, s')"
      "drops (sv_st s') = filter (\<lambda>r. dr_id r \<notin> d_ID ` set ds) (drops (sv_st s1))"
      "files (sv_st s') = filter (\<lambda>f. f_DropID f \<notin> d_ID ` set ds) (files (sv_st s1))"
      "\<And>p. blob p s' = (if \<exists>d \<in> set ds. in_dir_of p (d_Key d) then None else blob p s1)"
    using Cons.IH [OF ds s1(2)] by auto
  show ?case
    by (intro exI [of _ s']) (use s1 s' in \<open>auto simp: conj_ac intro!: filter_cong\<close>)
qed simp

lemma in_dir_of_unique:
  assumes "store_ok st" "\<forall>r \<in> set (drops st). length (dr_key r) = keyLength"
    and "r \<in> set (drops st)" "q \<in> set (drops st)" "blobRel (dr_key r) i = Inr p"
  shows "in_dir_of p (dr_key q) \<longleftrightarrow> q = r"
proof -
  have "dropDir (dr_key q) = Inr (take 2 (dr_key q) @ ''/'' @ dr_key q)" "length (dr_key r) = length (dr_key q)"
    using assms(2-4) by (simp_all add: dropDir_def keyLength_def)
  then have "in_dir_of p (dr_key q) \<longleftrightarrow> dr_key r = dr_key q"
    unfolding in_dir_of_def using blob_in_dropDir [OF assms(5)] by fastforce
  then show ?thesis using assms(3,4) drop_by_key_Some [OF assms(1)] by (metis option.inject)
qed



subsection \<open>Archives\<close>

text \<open>A session that can go on serving the files of its share.\<close>

definition serves :: "string \<Rightarrow> downloadSession \<Rightarrow> service \<Rightarrow> bool" where
  "serves tok x s \<longleftrightarrow>
     store_ok (sv_st s) \<and> map_of (sv_down s) tok = Some x \<and> sv_now s \<le> ss_expiresAt x \<and>
     (ss_claimed x \<or> (\<exists>r \<in> set (drops (sv_st s)). claimable (ss_dropKey x) (sv_now s) r))"

lemma serves_getSession: "serves tok x s \<Longrightarrow> getSession tok s = (Inr x, s)"
  by (simp add: serves_def getSession_Inr)

lemma serves_after:
  assumes "serves tok x s"
  shows "\<exists>x'. serves tok x' (snd (OpenFile tok k off s)) \<and> ss_dropID x' = ss_dropID x \<and> ss_dek x' = ss_dek x \<and>
    files (sv_st (snd (OpenFile tok k off s))) = files (sv_st s) \<and> sv_fs (snd (OpenFile tok k off s)) = sv_fs s"
proof (cases "ss_claimed x")
  case True
  then have "snd (OpenFile tok k off s) = s"
    using serves_getSession [OF assms] by (simp add: OpenFile_state andThen_def claimSession_claimed)
  then show ?thesis using assms by auto
next
  case False
  then obtain r where r: "r \<in> set (drops (sv_st s))" "claimable (ss_dropKey x) (sv_now s) r" using assms by (auto simp: serves_def)
  have ok: "store_ok (sv_st s)" using assms by (simp add: serves_def)
  have k: "drop_by_key (ss_dropKey x) (sv_st s) = Some r" using r drop_by_key_Some [OF ok] by (simp add: claimable_def)
  obtain st where st: "claimSession tok x s =
      (Inr (), s\<lparr>sv_down := tab_put tok (x\<lparr>ss_claimed := True\<rparr>) (sv_down s), sv_st := st\<rparr>)"
      "files st = files (sv_st s)" "store_ok st"
    by (rule claimSession_counted [OF ok False k r(2)])
  have eq: "snd (OpenFile tok k off s) = s\<lparr>sv_down := tab_put tok (x\<lparr>ss_claimed := True\<rparr>) (sv_down s), sv_st := st\<rparr>" for k off
    using serves_getSession [OF assms] st(1) by (simp add: OpenFile_state andThen_def)
  show ?thesis
    unfolding eq using st(2,3) assms
    by (intro exI [of _ "x\<lparr>ss_claimed := True\<rparr>"]) (simp add: serves_def map_of_tab_put)
qed

lemma OpenFile_whole:
  assumes "serves tok x s" "f \<in> set (files (sv_st s))" "f_DropID f = ss_dropID x" "readable (ss_dek x) nm cont f (sv_fs s)"
  shows "\<exists>rd. OpenFile tok (f_ID f) 0 s =
      (Inr (rd, \<lparr>uf_ID = f_ID f, uf_Name = nm (f_ID f), uf_Size = f_Size f\<rparr>), snd (OpenFile tok (f_ID f) 0 s)) \<and>
    readAll rd = (cont (f_ID f), None)"
proof -
  obtain b where b: "blob (f_BlobPath f) s = Some b" "sealed (ss_dek x) (cont (f_ID f)) b"
      "Open (ss_dek x) (f_NameEnc f) = Inr (bytes_of (nm (f_ID f)))" "f_Size f = int (length (cont (f_ID f)))" "f_Size f < 2 ^ 61"
    using assms(4) by (auto simp: readable_def blob_def)
  have s: "store_ok (sv_st s)" "map_of (sv_down s) tok = Some x" "sv_now s \<le> ss_expiresAt x"
      "ss_claimed x \<or> (\<exists>r \<in> set (drops (sv_st s)). claimable (ss_dropKey x) (sv_now s) r)"
    using assms(1) by (simp_all add: serves_def)
  have f: "FileByID (ss_dropID x) (f_ID f) (sv_st s) = Inr f" using assms(2,3) FileByID_iff [OF s(1)] by simp
  obtain rd s' where "OpenFile tok (f_ID f) 0 s =
      (Inr (rd, \<lparr>uf_ID = f_ID f, uf_Name = string_of (bytes_of (nm (f_ID f))), uf_Size = f_Size f\<rparr>), s')"
      "readAll rd = (drop (nat 0) (cont (f_ID f)), None)"
    by (rule OpenFile_delivers [OF s f b(3,1,2,4,5), of 0]) (use b(4) in auto)
  then show ?thesis by simp
qed

lemma archiveFiles_ok:
  assumes "serves tok x s"
    and "\<forall>f \<in> set fs. f \<in> set (files (sv_st s)) \<and> f_DropID f = ss_dropID x \<and> readable (ss_dek x) nm cont f (sv_fs s)"
  shows "\<exists>s'. archiveFiles tok used (map (\<lambda>f. \<lparr>uf_ID = f_ID f, uf_Name = nm (f_ID f), uf_Size = f_Size f\<rparr>) fs) s =
    ((zip (entry_names used (map (\<lambda>f. SafeFileName (nm (f_ID f))) fs)) (map (\<lambda>f. cont (f_ID f)) fs), None), s')"
  using assms
proof (induction fs arbitrary: used x s)
  case (Cons f fs)
  obtain e used' where e: "uniqueEntryName used (SafeFileName (nm (f_ID f))) = (e, used')"
    by (cases "uniqueEntryName used (SafeFileName (nm (f_ID f)))")
  define s1 where "s1 = snd (OpenFile tok (f_ID f) 0 s)"
  obtain rd where rd: "OpenFile tok (f_ID f) 0 s =
      (Inr (rd, \<lparr>uf_ID = f_ID f, uf_Name = nm (f_ID f), uf_Size = f_Size f\<rparr>), s1)" "readAll rd = (cont (f_ID f), None)"
    using OpenFile_whole [OF Cons.prems(1), of f nm cont] Cons.prems(2) unfolding s1_def by auto
  obtain x' where x': "serves tok x' s1" "ss_dropID x' = ss_dropID x" "ss_dek x' = ss_dek x"
      "files (sv_st s1) = files (sv_st s)" "sv_fs s1 = sv_fs s"
    using serves_after [OF Cons.prems(1), of "f_ID f" 0] unfolding s1_def by blast
  have "\<forall>f \<in> set fs. f \<in> set (files (sv_st s1)) \<and> f_DropID f = ss_dropID x' \<and> readable (ss_dek x') nm cont f (sv_fs s1)"
    using Cons.prems(2) x' by simp
  from Cons.IH [OF x'(1) this, of used'] rd e show ?case by auto
qed simp

text \<open>
  C24: "download all" delivers all.  With a ticket for the whole share and a session that can
  serve, the archive ends without error and has exactly one entry per file, in the order of
  the share, each with the whole content of the file, under the cleaned and disambiguated
  names of the files.
\<close>

theorem archive_delivers_all:
  fixes s :: service
  assumes "redeem i s = (Inr (tok, ZipTicket), s)" "serves tok x s"
    and "\<forall>f \<in> set (files (sv_st s)). f_DropID f = ss_dropID x \<longrightarrow> readable (ss_dek x) nm cont f (sv_fs s)"
  defines "fs \<equiv> Files (ss_dropID x) (sv_st s)"
  shows "\<exists>s'. WriteArchive i s =
    ((zip (entry_names [] (map (\<lambda>f. SafeFileName (nm (f_ID f))) fs)) (map (\<lambda>f. cont (f_ID f)) fs), None), s')"
proof -
  have fs: "\<forall>f \<in> set fs. f \<in> set (files (sv_st s)) \<and> f_DropID f = ss_dropID x \<and> readable (ss_dek x) nm cont f (sv_fs s)"
    using assms(3) by (auto simp: fs_def Files_def)
  then have "openNames (ss_dek x) fs =
      Inr (map (\<lambda>f. \<lparr>uf_ID = f_ID f, uf_Name = string_of (bytes_of (nm (f_ID f))), uf_Size = f_Size f\<rparr>) fs)"
    by (intro openNames_ok) (simp add: readable_def)
  then have "SessionFiles tok s = (Inr \<lparr>un_Token = tok, un_ExpiresAt = ss_expiresAt x,
      un_Files = map (\<lambda>f. \<lparr>uf_ID = f_ID f, uf_Name = nm (f_ID f), uf_Size = f_Size f\<rparr>) fs, un_DeleteAllowed = False\<rparr>, s)"
    using serves_getSession [OF assms(2)] by (simp add: SessionFiles_def andThen_def query_def ret_def fs_def)
  then show ?thesis
    using assms(1) archiveFiles_ok [OF assms(2) fs, of "[]"] by (auto simp: WriteArchive_def)
qed

theorem archive_delivers_all_witness:
  "\<exists>i s s' names contents. WriteArchive i s = ((zip names contents, None), s') \<and> set contents \<subseteq> {[1, 2, 3]} \<and>
    svc_reachable sample_kdf linear_interp s"
proof (rule sample_unlocked)
  fix s :: service and r x tok
  assume a: "svc_reachable sample_kdf linear_interp s" "map_of (sv_down s) tok = Some x" "sv_now s \<le> ss_expiresAt x"
    "drop_by_key (ss_dropKey x) (sv_st s) = Some r" "claimable (ss_dropKey x) (sv_now s) r"
    "NewToken (sv_rand s) = (Inr (replicate 32 (hd passwordAlphabet)), [])"
    "\<forall>f \<in> set (files (sv_st s)). f_DropID f = ss_dropID x \<longrightarrow> readable (ss_dek x) (\<lambda>_. ''a.txt'') (\<lambda>_. [1, 2, 3]) f (sv_fs s)"
  have ok: "store_ok (sv_st s)" using svc_ok_reachable [OF a(1)] by (simp add: svc_ok_def st_ok_store)
  have g: "getSession tok s = (Inr x, s)" using a(2,3) by (simp add: getSession_Inr)
  let ?i = "replicate 32 (hd passwordAlphabet)"
  let ?t = "\<lparr>tk_sessionToken = tok, tk_fileID = ZipTicket, tk_expiresAt = sv_now s + ticketTTL\<rparr>"
  define s1 where "s1 = s\<lparr>sv_rand := [], sv_tickets := tab_put ?i ?t (sv_tickets s)\<rparr>"
  have "IssueTicket tok ZipTicket s = (Inr (?i, sv_now s + ticketTTL), s1)"
    using g a(6) by (simp add: IssueTicket_def andThen_def draw_def clock_def ret_def Let_def s1_def)
  then have re: "svc_reachable sample_kdf linear_interp s1"
    using svc_reachable.step [OF a(1) svc_step.op [OF svc_op.issue], of tok ZipTicket] by simp
  have rd: "redeem ?i s1 = (Inr (tok, ZipTicket), s1)"
    by (simp add: redeem_def lookupTicket_def s1_def map_of_tab_put After_def ticketTTL_def duration_defs)
  have "r \<in> set (drops (sv_st s))" using a(4) drop_by_key_Some [OF ok] by simp
  then have sv: "serves tok x s1" using a(2,3,5) ok by (auto simp: serves_def s1_def)
  have "\<forall>f \<in> set (files (sv_st s1)). f_DropID f = ss_dropID x \<longrightarrow> readable (ss_dek x) (\<lambda>_. ''a.txt'') (\<lambda>_. [1, 2, 3]) f (sv_fs s1)"
    using a(7) by (simp add: s1_def)
  from archive_delivers_all [OF rd sv this] re show ?thesis by fastforce
qed

end
