(* ===== verification/Transfer_Correct.thy ===== *)
theory Transfer_Correct
  imports Http_Transfer Download_Props
begin

text \<open>
  Byte ranges are read exactly, and the download handler sends exactly the bytes of the range
  it announces, spending a download only when it sends a body.
\<close>

subsection \<open>Byte ranges\<close>

lemma parse_range_wf:
  assumes "parseRange h n = Inr (a, b, p)" and "0 \<le> n"
  shows "0 \<le> a" "p \<longleftrightarrow> h \<noteq> []" "0 < n \<Longrightarrow> a \<le> b \<and> b < n"
    "n = 0 \<Longrightarrow> a = 0 \<and> b = (if h = [] then 0 else - 1)"
  using assms
  by (auto simp: parseRange_def Let_def split: if_splits option.splits)

lemma digit_visible: "c \<in> set (nat_digits n) \<Longrightarrow> visible c"
  using nat_digits_chars by (fastforce simp: visible_def)

lemma TrimSpace_digits [simp]: "TrimSpace (nat_digits n) = nat_digits n"
  by (rule TrimSpace_visible) (auto intro!: digit_visible [where n = n])

lemma visible_minus: "visible (CHR ''-'')" "visible (CHR ''b'')"
  by (simp_all add: visible_def)

lemma digits_no_minus: "CHR ''-'' \<notin> set (nat_digits n)" "CHR '','' \<notin> set (nat_digits n)"
  by (rule nat_digits_no; simp)+

lemma first_minus:
  "CHR ''-'' \<notin> set x \<Longrightarrow> before_first (CHR ''-'') (x @ CHR ''-'' # y) = x"
  "CHR ''-'' \<notin> set x \<Longrightarrow> from_first (CHR ''-'') (x @ CHR ''-'' # y) = CHR ''-'' # y"
proof -
  assume x: "CHR ''-'' \<notin> set x"
  then have "\<forall>c \<in> set x. c \<noteq> CHR ''-''" by auto
  then show "before_first (CHR ''-'') (x @ CHR ''-'' # y) = x"
    "from_first (CHR ''-'') (x @ CHR ''-'' # y) = CHR ''-'' # y"
    by (simp_all add: before_first_def from_first_def takeWhile_append2 dropWhile_append2)
qed

text \<open>What \<open>parseRange\<close> makes of the two sides of the dash, when they are digits or empty.\<close>

lemma parse_range_spec:
  assumes "list_all visible x" "list_all visible y" "CHR ''-'' \<notin> set x" "CHR '','' \<notin> set (x @ y)"
  shows "parseRange (''bytes='' @ x @ CHR ''-'' # y) n =
    (if x = [] \<and> y = [] then Inl (Other ''empty range'')
     else if x = [] then
       (case ParseInt y of
          None \<Rightarrow> Inl (Other ''malformed suffix range'')
        | Some k \<Rightarrow> if k \<le> 0 then Inl (Other ''malformed suffix range'')
                   else Inr (n - min k n, n - 1, True))
     else
       (case ParseInt x of
          None \<Rightarrow> Inl (Other ''range start outside file'')
        | Some a \<Rightarrow>
            if a < 0 \<or> a \<ge> n then Inl (Other ''range start outside file'')
            else if y = [] then Inr (a, n - 1, True)
            else (case ParseInt y of
                None \<Rightarrow> Inl (Other ''malformed range end'')
              | Some b \<Rightarrow> if b < a then Inl (Other ''malformed range end'') else Inr (a, min b (n - 1), True))))"
proof -
  have trim: "TrimSpace s = s" if "list_all visible s" for s
    using that by (cases "s = []") (auto simp: list_all_iff intro!: TrimSpace_visible)
  have vis: "list_all visible (''bytes='' @ x @ CHR ''-'' # y)"
    using assms(1,2) by (simp add: visible_def)
  have cut: "CutPrefix (''bytes='' @ x @ CHR ''-'' # y) ''bytes='' = Some (x @ CHR ''-'' # y)"
    by (simp add: CutPrefix_def HasPrefix_def)
  show ?thesis
    using assms trim [OF vis] cut trim [OF assms(1)] trim [OF assms(2)] first_minus [OF assms(3), of y]
    unfolding parseRange_def
    by (simp add: min_def Let_def split: option.split)
qed

lemma ParseInt_nat: "0 \<le> i \<Longrightarrow> i < 2 ^ 63 \<Longrightarrow> ParseInt (nat_digits (nat i)) = Some i"
  using ParseInt_digits [of "nat i"] by simp



subsection \<open>The download handler\<close>

definition hdr :: "string \<Rightarrow> response \<Rightarrow> string option" where
  "hdr k w = map_of (rs_header w) k"

lemma hdr_simps [simp]:
  "hdr k (SetHeader j v w) = (if k = j then Some v else hdr k w)"
  "hdr k (DelHeader j w) = (if k = j then None else hdr k w)"
  "hdr k (respond st b w) = hdr k w"
  "hdr k (w\<lparr>rs_body := b\<rparr>) = hdr k w"
  "hdr k (w\<lparr>rs_cookies := ck\<rparr>) = hdr k w"
  by (simp_all add: hdr_def SetHeader_def DelHeader_def respond_def map_of_tab_put map_of_tab_delete)

lemma response_simps [simp]:
  "rs_status (respond st b w) = st" "rs_body (respond st b w) = b"
  "rs_status (SetHeader k v w) = rs_status w" "rs_body (SetHeader k v w) = rs_body w"
  by (simp_all add: respond_def SetHeader_def)

text \<open>
  A ticket that can be served: it redeems to a session and to one file of the session's share,
  which is on disk under its sealed name with content \<open>c\<close>.
\<close>

definition ticket_serves :: "string \<Rightarrow> string \<Rightarrow> bytes \<Rightarrow> service \<Rightarrow> bool" where
  "ticket_serves i name c s \<longleftrightarrow>
     (\<exists>tok x f. redeem i s = (Inr (tok, f_ID f), s) \<and> f_ID f \<noteq> ZipTicket \<and> serves tok x s \<and>
        f \<in> set (files (sv_st s)) \<and> f_DropID f = ss_dropID x \<and> readable (ss_dek x) (\<lambda>_. name) (\<lambda>_. c) f (sv_fs s))"

lemma OpenFile_from:
  assumes "serves tok x s" "f \<in> set (files (sv_st s))" "f_DropID f = ss_dropID x"
    and "readable (ss_dek x) (\<lambda>_. nm) (\<lambda>_. c) f (sv_fs s)" "0 \<le> off" "off \<le> int (length c)"
  obtains rd s' where "OpenFile tok (f_ID f) off s = (Inr (rd, \<lparr>uf_ID = f_ID f, uf_Name = nm, uf_Size = f_Size f\<rparr>), s')"
    "readAll rd = (drop (nat off) c, None)"
proof -
  obtain b where b: "blob (f_BlobPath f) s = Some b" "sealed (ss_dek x) c b"
      "Open (ss_dek x) (f_NameEnc f) = Inr (bytes_of nm)" "f_Size f = int (length c)" "f_Size f < 2 ^ 61"
    using assms(4) by (auto simp: readable_def blob_def)
  have s: "store_ok (sv_st s)" "map_of (sv_down s) tok = Some x" "sv_now s \<le> ss_expiresAt x"
      "ss_claimed x \<or> (\<exists>r \<in> set (drops (sv_st s)). claimable (ss_dropKey x) (sv_now s) r)"
    using assms(1) by (simp_all add: serves_def)
  have f: "FileByID (ss_dropID x) (f_ID f) (sv_st s) = Inr f" using assms(2,3) FileByID_iff [OF s(1)] by simp
  show ?thesis
    by (rule OpenFile_delivers [OF s f b(3,1,2,4,5), of off])
      (use assms(5,6) b(4) that in auto)
qed

lemma StatTicket_serves:
  assumes "ticket_serves i name c s"
  obtains k where "StatTicket i s = (Inr \<lparr>uf_ID = k, uf_Name = name, uf_Size = int (length c)\<rparr>, s)"
proof -
  obtain tok x f where t: "redeem i s = (Inr (tok, f_ID f), s)" "f_ID f \<noteq> ZipTicket" "serves tok x s"
      "f \<in> set (files (sv_st s))" "f_DropID f = ss_dropID x" "readable (ss_dek x) (\<lambda>_. name) (\<lambda>_. c) f (sv_fs s)"
    using assms by (auto simp: ticket_serves_def)
  have "FileByID (ss_dropID x) (f_ID f) (sv_st s) = Inr f"
    using t(3-5) FileByID_iff by (simp add: serves_def)
  then have "StatTicket i s = (Inr \<lparr>uf_ID = f_ID f, uf_Name = name, uf_Size = int (length c)\<rparr>, s)"
    using t(1,2) serves_getSession [OF t(3)] t(6)
    by (simp add: StatTicket_def andThen_def notFound_def query_def lift_res_def ret_def readable_def)
  then show thesis by (rule that)
qed

lemma OpenTicket_serves:
  assumes "ticket_serves i name c s" "0 \<le> off" "off \<le> int (length c)"
  obtains rd uf s' where "OpenTicket i off s = (Inr (rd, uf), s')" "readAll rd = (drop (nat off) c, None)"
proof -
  obtain tok x f where t: "redeem i s = (Inr (tok, f_ID f), s)" "f_ID f \<noteq> ZipTicket" "serves tok x s"
      "f \<in> set (files (sv_st s))" "f_DropID f = ss_dropID x" "readable (ss_dek x) (\<lambda>_. name) (\<lambda>_. c) f (sv_fs s)"
    using assms(1) by (auto simp: ticket_serves_def)
  obtain rd s' where "OpenFile tok (f_ID f) off s = (Inr (rd, \<lparr>uf_ID = f_ID f, uf_Name = name, uf_Size = f_Size f\<rparr>), s')"
      "readAll rd = (drop (nat off) c, None)"
    by (rule OpenFile_from [OF t(3-6) assms(2,3)])
  with t(1,2) that show thesis by (simp add: OpenTicket_def andThen_def)
qed

text \<open>
  C4: The answer to a download request, for a ticket that can be served.  A bad range is
  answered with 416 and a HEAD request with the headers alone, both without any effect, so
  neither spends a download.  Any other request gets exactly the bytes of its range of the
  uploaded content, with a Content-Length that is their number, as long as the file is not
  empty.  For an empty file the whole-file answer announces one byte and sends none.
\<close>

theorem download_response:
  assumes "ticket_serves (rq_value r ''ticket'') name c (hs_svc s)"
  shows "(\<forall>e. parseRange (rq_header r ''Range'') (int (length c)) = Inl e \<longrightarrow>
       rs_status (fst (handleDownload r w s)) = 416 \<and> snd (handleDownload r w s) = s \<and>
       hdr ''Content-Range'' (fst (handleDownload r w s)) = Some (''bytes */'' @ FormatInt (int (length c)))) \<and>
    (\<forall>a b p. parseRange (rq_header r ''Range'') (int (length c)) = Inr (a, b, p) \<longrightarrow>
       rs_status (fst (handleDownload r w s)) = (if p then 206 else rs_status w) \<and>
       hdr ''Content-Length'' (fst (handleDownload r w s)) = Some (FormatInt (b - a + 1)) \<and>
       hdr ''Content-Disposition'' (fst (handleDownload r w s)) = Some (contentDisposition name) \<and>
       (p \<longrightarrow> hdr ''Content-Range'' (fst (handleDownload r w s)) =
          Some (''bytes '' @ FormatInt a @ ''-'' @ FormatInt b @ ''/'' @ FormatInt (int (length c)))) \<and>
       (rq_method r = ''HEAD'' \<longrightarrow> snd (handleDownload r w s) = s) \<and>
       (rq_method r \<noteq> ''HEAD'' \<longrightarrow>
          rs_body (fst (handleDownload r w s)) = Raw (take (nat (b - a + 1)) (drop (nat a) c)) \<and>
          (c \<noteq> [] \<longrightarrow> int (length (take (nat (b - a + 1)) (drop (nat a) c))) = b - a + 1)) \<and>
       (c = [] \<and> rq_header r ''Range'' = [] \<longrightarrow> b - a + 1 = 1))"
proof -
  let ?i = "rq_value r ''ticket''"
  obtain k where st: "StatTicket ?i (hs_svc s) =
      (Inr \<lparr>uf_ID = k, uf_Name = name, uf_Size = int (length c)\<rparr>, hs_svc s)"
    by (rule StatTicket_serves [OF assms])
  have stat: "call (StatTicket ?i) s = (Inr \<lparr>uf_ID = k, uf_Name = name, uf_Size = int (length c)\<rparr>, s)"
    by (simp add: call_def st)
  show ?thesis
  proof (intro conjI allI impI)
    fix e assume e: "parseRange (rq_header r ''Range'') (int (length c)) = Inl e"
    have eq: "handleDownload r w s = (httpError rangeMessage 416
        (SetHeader ''Content-Range'' (''bytes */'' @ FormatInt (int (length c))) w), s)"
      unfolding handleDownload_def Let_def stat by (simp only: prod.case sum.case UnlockedFile.select_convs e)
    show "rs_status (fst (handleDownload r w s)) = 416" "snd (handleDownload r w s) = s"
      "hdr ''Content-Range'' (fst (handleDownload r w s)) = Some (''bytes */'' @ FormatInt (int (length c)))"
      unfolding eq httpError_def by simp_all
  next
    fix a b p assume rg: "parseRange (rq_header r ''Range'') (int (length c)) = Inr (a, b, p)"
    note wf = parse_range_wf [OF rg]
    have off: "0 \<le> a" by (rule wf(1)) simp
    have off': "a \<le> int (length c)"
    proof (cases "c = []")
      case True
      then show ?thesis using wf(4) by simp
    next
      case False
      then show ?thesis using wf(3) by simp
    qed
    obtain rd uf s' where op: "OpenTicket ?i a (hs_svc s) = (Inr (rd, uf), s')" "readAll rd = (drop (nat a) c, None)"
      by (rule OpenTicket_serves [OF assms off off'])
    have open_eq: "call (OpenTicket ?i a) s = (Inr (rd, uf), s\<lparr>hs_svc := s'\<rparr>)" by (simp add: call_def op)
    define w2 where "w2 = (if p then respond 206 NoBody (SetHeader ''Content-Range''
        (''bytes '' @ FormatInt a @ ''-'' @ FormatInt b @ ''/'' @ FormatInt (int (length c)))
        (downloadHeaders \<lparr>uf_ID = k, uf_Name = name, uf_Size = int (length c)\<rparr> (b - a + 1) w))
      else downloadHeaders \<lparr>uf_ID = k, uf_Name = name, uf_Size = int (length c)\<rparr> (b - a + 1) w)"
    have eq: "handleDownload r w s = (if rq_method r = ''HEAD'' then (w2, s)
        else (w2\<lparr>rs_body := Raw (take (nat (b - a + 1)) (drop (nat a) c))\<rparr>, s\<lparr>hs_svc := s'\<rparr>))"
      unfolding handleDownload_def Let_def stat w2_def
      by (simp only: prod.case sum.case UnlockedFile.select_convs rg open_eq op(2) fst_conv)
    have w2: "rs_status w2 = (if p then 206 else rs_status w)"
      "hdr ''Content-Length'' w2 = Some (FormatInt (b - a + 1))"
      "hdr ''Content-Disposition'' w2 = Some (contentDisposition name)"
      "p \<Longrightarrow> hdr ''Content-Range'' w2 =
          Some (''bytes '' @ FormatInt a @ ''-'' @ FormatInt b @ ''/'' @ FormatInt (int (length c)))"
      unfolding w2_def downloadHeaders_def by simp_all
    show "rs_status (fst (handleDownload r w s)) = (if p then 206 else rs_status w)"
      "hdr ''Content-Length'' (fst (handleDownload r w s)) = Some (FormatInt (b - a + 1))"
      "hdr ''Content-Disposition'' (fst (handleDownload r w s)) = Some (contentDisposition name)"
      "p \<Longrightarrow> hdr ''Content-Range'' (fst (handleDownload r w s)) =
          Some (''bytes '' @ FormatInt a @ ''-'' @ FormatInt b @ ''/'' @ FormatInt (int (length c)))"
      "rq_method r = ''HEAD'' \<Longrightarrow> snd (handleDownload r w s) = s"
      "rq_method r \<noteq> ''HEAD'' \<Longrightarrow>
         rs_body (fst (handleDownload r w s)) = Raw (take (nat (b - a + 1)) (drop (nat a) c))"
      using w2 by (simp_all add: eq)
    show "int (length (take (nat (b - a + 1)) (drop (nat a) c))) = b - a + 1" if "c \<noteq> []"
    proof -
      have "a \<le> b" "b < int (length c)" "0 \<le> a" using that wf(3) off by auto
      then have "nat (b - a + 1) \<le> length c - nat a" by linarith
      with \<open>a \<le> b\<close> show ?thesis by simp
    qed
    show "b - a + 1 = 1" if "c = [] \<and> rq_header r ''Range'' = []" using that wf(4) by simp
  qed
qed

lemma sample_ticket:
  obtains s where "svc_reachable sample_kdf linear_interp s"
    "ticket_serves (replicate 32 (hd passwordAlphabet)) ''a.txt'' [1, 2, 3] s"
proof (rule sample_unlocked)
  fix s :: service and r x tok
  assume a: "svc_reachable sample_kdf linear_interp s" "map_of (sv_down s) tok = Some x" "sv_now s \<le> ss_expiresAt x"
    "drop_by_key (ss_dropKey x) (sv_st s) = Some r" "claimable (ss_dropKey x) (sv_now s) r"
    "NewToken (sv_rand s) = (Inr (replicate 32 (hd passwordAlphabet)), [])"
    "\<forall>f \<in> set (files (sv_st s)). f_DropID f = ss_dropID x \<longrightarrow> readable (ss_dek x) (\<lambda>_. ''a.txt'') (\<lambda>_. [1, 2, 3]) f (sv_fs s)"
    "\<exists>f \<in> set (files (sv_st s)). f_DropID f = ss_dropID x"
  obtain f where f: "f \<in> set (files (sv_st s))" "f_DropID f = ss_dropID x" using a(8) by blast
  have ok: "store_ok (sv_st s)" using svc_ok_reachable [OF a(1)] by (simp add: svc_ok_def st_ok_store)
  have fid: "f_ID f \<noteq> ZipTicket" "FileByID (ss_dropID x) (f_ID f) (sv_st s) = Inr f"
    using ok f FileByID_iff [OF ok] by (auto simp: store_ok_def file_tab.ids_ok_def ZipTicket_def)
  have g: "getSession tok s = (Inr x, s)" using a(2,3) by (simp add: getSession_Inr)
  let ?i = "replicate 32 (hd passwordAlphabet)"
  let ?t = "\<lparr>tk_sessionToken = tok, tk_fileID = f_ID f, tk_expiresAt = sv_now s + ticketTTL\<rparr>"
  define s1 where "s1 = s\<lparr>sv_rand := [], sv_tickets := tab_put ?i ?t (sv_tickets s)\<rparr>"
  have "IssueTicket tok (f_ID f) s = (Inr (?i, sv_now s + ticketTTL), s1)"
    using g a(6) fid by (simp add: IssueTicket_def andThen_def draw_def clock_def ret_def Let_def s1_def)
  then have re: "svc_reachable sample_kdf linear_interp s1"
    using svc_reachable.step [OF a(1) svc_step.op [OF svc_op.issue], of tok "f_ID f"] by simp
  have rd: "redeem ?i s1 = (Inr (tok, f_ID f), s1)"
    by (simp add: redeem_def lookupTicket_def s1_def map_of_tab_put After_def ticketTTL_def duration_defs)
  have "r \<in> set (drops (sv_st s))" using a(4) drop_by_key_Some [OF ok] by simp
  then have sv: "serves tok x s1" using a(2,3,5) ok by (auto simp: serves_def s1_def)
  have "ticket_serves ?i ''a.txt'' [1, 2, 3] s1"
    unfolding ticket_serves_def using rd fid(1) sv f a(7) by (intro exI [of _ tok] exI [of _ x] exI [of _ f]) (simp add: s1_def)
  with re show thesis by (rule that)
qed

text \<open>A server over a given service, without proxies, translations or optional features.\<close>

definition sample_options :: Options where
  "sample_options = \<lparr>BaseURL = ''https://files.example'', TrustedProxies = [], RealIPHeader = [],
     IPHashKey = replicate 32 0, EnableHSTS = True, AdsenseClient = [], AdminUser = [], AdminPass = [],
     ReportDir = [], GAMeasurementID = []\<rparr>"

definition sample_server :: "service \<Rightarrow> server" where
  "sample_server s = \<lparr>hs_svc = s, hs_legacy = None, hs_opt = sample_options,
     hs_ip = \<lparr>r_trusted = [], r_realIPHeader = []\<rparr>, hs_assetV = ''1'', hs_i18n = [], hs_adminCSRF = [],
     hs_unlock = newLimiter 10 Minute, hs_start = newLimiter 30 Minute, hs_report = newLimiter 6 Minute,
     hs_admin = newLimiter 10 Minute\<rparr>"

definition sample_get :: "string \<Rightarrow> string \<Rightarrow> request" where
  "sample_get i rg =
     \<lparr>rq_method = ''GET'', rq_path = ''/dl/'' @ i, rq_remote = ''192.0.2.1:5'',
      rq_header = (\<lambda>k. if k = ''Range'' then rg else []), rq_query = (\<lambda>_. []), rq_cookie = (\<lambda>_. None),
      rq_value = (\<lambda>_. i), rq_body = [], rq_bodyFail = False, rq_lang = Some Default\<rparr>"

theorem download_response_witness:
  "\<exists>(r :: request) w s. svc_reachable sample_kdf linear_interp (hs_svc s) \<and>
     rs_status (fst (handleDownload r w s)) = 206 \<and> rs_body (fst (handleDownload r w s)) = Raw [2, 3]"
proof -
  obtain s where s: "svc_reachable sample_kdf linear_interp s"
      "ticket_serves (replicate 32 (hd passwordAlphabet)) ''a.txt'' [1, 2, 3] s"
    by (rule sample_ticket)
  define srv :: server where "srv = sample_server s"
  define r where "r = sample_get (replicate 32 (hd passwordAlphabet)) ''bytes=-2''"
  have "ParseInt ''2'' = Some 2" by (simp add: ParseInt_def)
  then have "parseRange (''bytes='' @ [] @ CHR ''-'' # ''2'') 3 = Inr (1, 2, True)"
    by (subst parse_range_spec) (simp_all add: visible_def)
  then have rg: "parseRange (rq_header r ''Range'') (int (length [1, 2, 3 :: byte])) = Inr (1, 2, True)"
    by (simp add: r_def sample_get_def)
  have t: "ticket_serves (rq_value r ''ticket'') ''a.txt'' [1, 2, 3] (hs_svc srv)"
    using s(2) by (simp add: r_def sample_get_def srv_def sample_server_def)
  have "rq_method r = ''GET''" by (simp add: r_def sample_get_def)
  with conjunct2 [OF download_response [OF t], rule_format, OF rg]
  have "rs_status (fst (handleDownload r w srv)) = 206" "rs_body (fst (handleDownload r w srv)) = Raw [2, 3]" for w
    by simp_all
  moreover have "svc_reachable sample_kdf linear_interp (hs_svc srv)" using s(1) by (simp add: srv_def sample_server_def)
  ultimately show ?thesis by blast
qed

end
