(* ===== verification/Http_Api.thy ===== *)
theory Http_Api
  imports Http_Transfer
begin

text \<open>
  The JSON endpoints and the report form: api.go, abuse.go and manage.go of src/internal/httpd.

  \<open>codec\<close> gathers what is left to the outside: the form parser, the scanner of a quality value,
  \<open>unicode.IsPrint\<close> beyond ASCII, the file servers of the static assets and of the report directory, the disk space left during
  a write, and the parameters of the service.
\<close>

record jsonFile =
  jf_Name :: string
  jf_Size :: int

record startRequest =
  js_Files :: "jsonFile list"
  js_Days :: int
  js_MaxDownloads :: int
  js_Password :: string
  js_AllowDelete :: bool
  js_Kind :: string
  js_Manage :: bool

record ticketRequest =
  jt_FileID :: int
  jt_Zip :: bool

record codec =
  cd_form :: "request \<Rightarrow> (string \<Rightarrow> string) option"
  cd_scanQ :: "string \<Rightarrow> rat option"
  cd_isPrint :: "string \<Rightarrow> bool"
  cd_static :: "string \<Rightarrow> response \<Rightarrow> response"
  cd_reports :: "string \<Rightarrow> response \<Rightarrow> response"
  cd_room :: "nat option"
  cd_kdf :: kdf
  cd_interp :: interp

definition maxJSONBody :: nat where "maxJSONBody = 1048576"

text \<open>
  \<open>dec\<close> stores a document in the request's variable; it refuses unknown fields
  (\<open>DisallowUnknownFields\<close>).
\<close>

definition readJSON :: "(jval \<Rightarrow> 'a option) \<Rightarrow> request \<Rightarrow> 'a res" where
  "readJSON dec r =
     (let body = concat (rq_body r) in
      case Option.bind (ReadValue (take maxJSONBody body) (rq_bodyFail r \<and> length body < maxJSONBody)) dec of
        None \<Rightarrow> Inl ErrInvalid
      | Some v \<Rightarrow> Inr v)"

text \<open>The fields of the request types, by their folded names.\<close>

definition fileField :: "string \<Rightarrow> jval \<Rightarrow> jsonFile \<Rightarrow> jsonFile option" where
  "fileField k v f =
     (if k = ''NAME'' then map_option (\<lambda>x. f\<lparr>jf_Name := x\<rparr>) (store_string v (jf_Name f))
      else if k = ''SIZE'' then map_option (\<lambda>x. f\<lparr>jf_Size := x\<rparr>) (store_int v (jf_Size f))
      else None)"

definition zeroFile :: jsonFile where "zeroFile = \<lparr>jf_Name = [], jf_Size = 0\<rparr>"

definition zeroStart :: startRequest where
  "zeroStart = \<lparr>js_Files = [], js_Days = 0, js_MaxDownloads = 0, js_Password = [], js_AllowDelete = False,
     js_Kind = [], js_Manage = False\<rparr>"

text \<open>Beside the request, the array behind its slice of files and the length of the slice.\<close>

type_synonym startVar = "startRequest \<times> jsonFile list \<times> nat"

definition startField :: "string \<Rightarrow> jval \<Rightarrow> startVar \<Rightarrow> startVar option" where
  "startField k v x =
     (case x of (r, fs) \<Rightarrow>
        if k = ''FILES'' then map_option (Pair r) (store_slice (store_struct fileField) zeroFile v fs)
        else map_option (\<lambda>r. (r, fs))
          (if k = ''DAYS'' then map_option (\<lambda>y. r\<lparr>js_Days := y\<rparr>) (store_int v (js_Days r))
           else if k = ''MAXDOWNLOADS'' then map_option (\<lambda>y. r\<lparr>js_MaxDownloads := y\<rparr>) (store_int v (js_MaxDownloads r))
           else if k = ''PASSWORD'' then map_option (\<lambda>y. r\<lparr>js_Password := y\<rparr>) (store_string v (js_Password r))
           else if k = ''ALLOWDELETE'' then map_option (\<lambda>y. r\<lparr>js_AllowDelete := y\<rparr>) (store_bool v (js_AllowDelete r))
           else if k = ''KIND'' then map_option (\<lambda>y. r\<lparr>js_Kind := y\<rparr>) (store_string v (js_Kind r))
           else if k = ''MANAGE'' then map_option (\<lambda>y. r\<lparr>js_Manage := y\<rparr>) (store_bool v (js_Manage r))
           else None))"

definition decodeStart :: "jval \<Rightarrow> startRequest option" where
  "decodeStart v =
     map_option (\<lambda>(r, xs, n). r\<lparr>js_Files := take n xs\<rparr>) (store_struct startField v (zeroStart, [], 0))"

definition unlockField :: "string \<Rightarrow> jval \<Rightarrow> string \<Rightarrow> string option" where
  "unlockField k v p = (if k = ''PASSWORD'' then store_string v p else None)"

definition decodeUnlock :: "jval \<Rightarrow> string option" where
  "decodeUnlock v = store_struct unlockField v []"

definition ticketField :: "string \<Rightarrow> jval \<Rightarrow> ticketRequest \<Rightarrow> ticketRequest option" where
  "ticketField k v t =
     (if k = ''FILEID'' then map_option (\<lambda>x. t\<lparr>jt_FileID := x\<rparr>) (store_int v (jt_FileID t))
      else if k = ''ZIP'' then map_option (\<lambda>x. t\<lparr>jt_Zip := x\<rparr>) (store_bool v (jt_Zip t))
      else None)"

definition decodeTicket :: "jval \<Rightarrow> ticketRequest option" where
  "decodeTicket v = store_struct ticketField v \<lparr>jt_FileID = 0, jt_Zip = False\<rparr>"

definition uploadToken :: "request \<Rightarrow> string" where
  "uploadToken r =
     (let v = rq_header r ''Authorization'' in
      if HasPrefix v ''Bearer '' then TrimPrefix v ''Bearer '' else rq_header r ''X-Upload-Token'')"

definition sessionToken :: "request \<Rightarrow> string" where
  "sessionToken r = rq_header r ''X-Session-Token''"

definition manageToken :: "request \<Rightarrow> string" where
  "manageToken r = rq_header r ''X-Manage-Token''"

text \<open>A slice that is never appended to stays nil and encodes as \<open>null\<close>.\<close>

definition nilArr :: "json list \<Rightarrow> json" where
  "nilArr xs = (if xs = [] then JNull else JArr xs)"

subsection \<open>Uploads\<close>

definition tooManyStart :: string where
  "tooManyStart =
     str [227, 131, 170, 227, 130, 175, 227, 130, 168, 227, 130, 185, 227, 131, 136, 227,
     129, 140, 229, 164, 154, 227, 129, 153, 227, 129, 142, 227, 129, 190, 227, 129, 153,
     227, 128, 130, 227, 129, 151, 227, 129, 176, 227, 130, 137, 227, 129, 143, 229, 190,
     133, 227, 129, 163, 227, 129, 166, 227, 129, 139, 227, 130, 137, 227, 129, 138, 232,
     169, 166, 227, 129, 151, 227, 129, 143, 227, 129, 160, 227, 129, 149, 227, 129, 132,
     227, 128, 130]"

definition startIn :: "server \<Rightarrow> request \<Rightarrow> startRequest \<Rightarrow> StartRequest" where
  "startIn s r req =
     \<lparr>sr_Files = map (\<lambda>f. \<lparr>q_Name = jf_Name f, q_Size = jf_Size f\<rparr>) (js_Files req),
      sr_Days = js_Days req, sr_MaxDownloads = js_MaxDownloads req, sr_Password = js_Password req,
      sr_AllowDelete = js_AllowDelete req, sr_Kind = js_Kind req, sr_Manage = js_Manage req,
      sr_UploaderHash = hashIP (IPHashKey (hs_opt s)) (clientIP s r),
      sr_UploaderIP = AddrString (clientIP s r)\<rparr>"

definition startOut :: "server \<Rightarrow> StartResult \<Rightarrow> json" where
  "startOut s res =
     JObj ([(''key'', JStr (x_Key res)), (''shareUrl'', JStr (shareURL s (x_Key res))),
            (''password'', JStr (x_Password res)), (''sessionId'', JStr (x_SessionID res)),
            (''token'', JStr (x_Token res)), (''partSize'', JInt (x_PartSize res)),
            (''expiresAt'', JStr (FormatUTC (x_ExpiresAt res)))] @
           (if x_ManageToken res = [] then [] else [(''manageToken'', JStr (x_ManageToken res))]) @
           [(''files'', nilArr (map (\<lambda>f. JObj [(''id'', JInt (sf_ID f)), (''name'', JStr (sf_Name f)),
               (''size'', JInt (sf_Size f))]) (x_Files res)))])"

definition handleStartUpload :: "codec \<Rightarrow> request \<Rightarrow> response \<Rightarrow> server \<Rightarrow> response \<times> server" where
  "handleStartUpload c r w s0 =
     (case allow (sv_now (hs_svc s0)) (clientIP s0 r) (hs_start s0) of (ok, l) \<Rightarrow>
      let s = s0\<lparr>hs_start := l\<rparr> in
      if \<not> ok then (writeJSON 429 (errorJSON tooManyStart) w, s)
      else case readJSON decodeStart r of
        Inl e \<Rightarrow> (failJSON s r e w, s)
      | Inr req \<Rightarrow>
          case call (StartUpload (cd_kdf c) (cd_interp c) (startIn s r req)) s of
            (Inl e, s1) \<Rightarrow> (failJSON s1 r e w, s1)
          | (Inr res, s1) \<Rightarrow> (writeJSON 201 (startOut s1 res) w, s1))"

definition handleUploadState :: "codec \<Rightarrow> request \<Rightarrow> response \<Rightarrow> server \<Rightarrow> response \<times> server" where
  "handleUploadState c r w s =
     (case call (UploadState (cd_kdf c) (rq_value r ''sid'') (uploadToken r)) s of
        (Inl e, s1) \<Rightarrow> (failJSON s1 r e w, s1)
      | (Inr st, s1) \<Rightarrow>
          (writeJSON 200 (JObj [(''key'', JStr (us_Key st)), (''partSize'', JInt (us_PartSize st)),
             (''files'', nilArr (map (\<lambda>f. JObj [(''id'', JInt (g_ID f)), (''size'', JInt (g_Size f)),
                (''received'', JInt (g_Received f))]) (us_Files st)))]) w, s1))"

definition offsetMessage :: string where
  "offsetMessage =
     str [227, 130, 170, 227, 131, 149, 227, 130, 187, 227, 131, 131, 227, 131, 136, 227,
     129, 140, 228, 184, 128, 232, 135, 180, 227, 129, 151, 227, 129, 190, 227, 129, 155,
     227, 130, 147, 227, 128, 130, 227, 130, 181, 227, 131, 188, 227, 131, 144, 227, 129,
     174, 229, 143, 151, 228, 191, 161, 230, 184, 136, 227, 129, 191, 228, 189, 141, 231,
     189, 174, 227, 129, 139, 227, 130, 137, 229, 134, 141, 233, 150, 139, 227, 129, 151,
     227, 129, 166, 227, 129, 143, 227, 129, 160, 227, 129, 149, 227, 129, 132, 227, 128,
     130]"

definition handleWritePart :: "codec \<Rightarrow> request \<Rightarrow> response \<Rightarrow> server \<Rightarrow> response \<times> server" where
  "handleWritePart c r w s =
     (case ParseInt (rq_value r ''fid'') of
        None \<Rightarrow> (failJSON s r ErrInvalid w, s)
      | Some fid \<Rightarrow>
          case ParseInt (rq_header r ''Upload-Offset'') of
            None \<Rightarrow> (failJSON s r ErrInvalid w, s)
          | Some offset \<Rightarrow>
              if offset < 0 then (failJSON s r ErrInvalid w, s)
              else case call (WriteParts (cd_kdf c) (rq_value r ''sid'') (uploadToken r) fid offset
                      (rq_body r) (rq_bodyFail r) (cd_room c)) s of
                (Inl (OffsetMismatch fileID expected got), s1) \<Rightarrow>
                  (writeJSON 409 (JMap [(''error'', JStr offsetMessage), (''expected'', JInt expected)])
                     (SetHeader ''Upload-Offset'' (FormatInt expected) w), s1)
              | (Inl e, s1) \<Rightarrow> (failJSON s1 r e w, s1)
              | (Inr received, s1) \<Rightarrow>
                  (writeJSON 200 (JMap [(''received'', JInt received)])
                     (SetHeader ''Upload-Offset'' (FormatInt received) w), s1))"

definition handleFinishUpload :: "codec \<Rightarrow> request \<Rightarrow> response \<Rightarrow> server \<Rightarrow> response \<times> server" where
  "handleFinishUpload c r w s =
     (case call (FinishUpload (cd_kdf c) (rq_value r ''sid'') (uploadToken r)) s of
        (Inl e, s1) \<Rightarrow> (failJSON s1 r e w, s1)
      | (Inr d, s1) \<Rightarrow>
          (writeJSON 200 (JMap [(''key'', JStr (d_Key d)), (''shareUrl'', JStr (shareURL s1 (d_Key d))),
             (''expiresAt'', JStr (FormatUTC (d_ExpiresAt d)))]) w, s1))"

definition handleCancelUpload :: "codec \<Rightarrow> request \<Rightarrow> response \<Rightarrow> server \<Rightarrow> response \<times> server" where
  "handleCancelUpload c r w s =
     (case call (CancelUpload (cd_kdf c) (rq_value r ''sid'') (uploadToken r)) s of
        (Inl e, s1) \<Rightarrow> (failJSON s1 r e w, s1)
      | (Inr _, s1) \<Rightarrow> (respond 204 NoBody w, s1))"

subsection \<open>Downloads\<close>

definition handlePeek :: "request \<Rightarrow> response \<Rightarrow> server \<Rightarrow> response \<times> server" where
  "handlePeek r w s =
     (case call (Peek (rq_value r ''key'')) s of
        (Inl e, s1) \<Rightarrow> (failJSON s1 r e w, s1)
      | (Inr i, s1) \<Rightarrow>
          (writeJSON 200 (JMap [(''key'', JStr (i_Key i)), (''expiresAt'', JStr (FormatUTC (i_ExpiresAt i))),
             (''remaining'', JInt (i_Remaining i)), (''fileCount'', JInt (i_FileCount i)),
             (''totalSize'', JInt (i_TotalSize i)), (''deleteAllowed'', JBool (i_DeleteAllowed i)),
             (''kind'', JStr (i_Kind i))]) w, s1))"

definition unlockedJSON :: "Unlocked \<Rightarrow> json" where
  "unlockedJSON un =
     JMap [(''token'', JStr (un_Token un)), (''expiresAt'', JStr (FormatUTC (un_ExpiresAt un))),
       (''files'', JArr (map (\<lambda>f. JMap [(''id'', JInt (uf_ID f)), (''name'', JStr (uf_Name f)),
          (''size'', JInt (uf_Size f))]) (un_Files un))),
       (''deleteAllowed'', JBool (un_DeleteAllowed un))]"

definition tooManyUnlock :: string where
  "tooManyUnlock =
     str [232, 169, 166, 232, 161, 140, 229, 155, 158, 230, 149, 176, 227, 129, 140, 229,
     164, 154, 227, 129, 153, 227, 129, 142, 227, 129, 190, 227, 129, 153, 227, 128, 130,
     49, 229, 136, 134, 227, 129, 187, 227, 129, 169, 229, 190, 133, 227, 129, 163, 227,
     129, 166, 227, 129, 139, 227, 130, 137, 227, 129, 138, 232, 169, 166, 227, 129, 151,
     227, 129, 143, 227, 129, 160, 227, 129, 149, 227, 129, 132, 227, 128, 130]"

definition handleUnlock :: "codec \<Rightarrow> request \<Rightarrow> response \<Rightarrow> server \<Rightarrow> response \<times> server" where
  "handleUnlock c r w s0 =
     (case allow (sv_now (hs_svc s0)) (clientIP s0 r) (hs_unlock s0) of (ok, l) \<Rightarrow>
      let s = s0\<lparr>hs_unlock := l\<rparr> in
      if \<not> ok then (writeJSON 429 (errorJSON tooManyUnlock) w, s)
      else case readJSON decodeUnlock r of
        Inl e \<Rightarrow> (failJSON s r e w, s)
      | Inr password \<Rightarrow>
          case call (Unlock (cd_kdf c) (rq_value r ''key'') password) s of
            (Inl e, s1) \<Rightarrow> (failJSON s1 r e w, s1)
          | (Inr un, s1) \<Rightarrow> (writeJSON 200 (unlockedJSON un) w, s1))"

definition handleSessionFiles :: "request \<Rightarrow> response \<Rightarrow> server \<Rightarrow> response \<times> server" where
  "handleSessionFiles r w s =
     (case call (SessionFiles (sessionToken r)) s of
        (Inl e, s1) \<Rightarrow> (failJSON s1 r e w, s1)
      | (Inr un, s1) \<Rightarrow> (writeJSON 200 (unlockedJSON un) w, s1))"

definition handleLock :: "request \<Rightarrow> response \<Rightarrow> server \<Rightarrow> response \<times> server" where
  "handleLock r w s = (respond 204 NoBody w, s\<lparr>hs_svc := Lock (sessionToken r) (hs_svc s)\<rparr>)"

definition handleIssueTicket :: "request \<Rightarrow> response \<Rightarrow> server \<Rightarrow> response \<times> server" where
  "handleIssueTicket r w s =
     (case readJSON decodeTicket r of
        Inl e \<Rightarrow> (failJSON s r e w, s)
      | Inr req \<Rightarrow>
          let fileID = (if jt_Zip req then ZipTicket else jt_FileID req) in
          case call (IssueTicket (sessionToken r) fileID) s of
            (Inl e, s1) \<Rightarrow> (failJSON s1 r e w, s1)
          | (Inr (i, expires), s1) \<Rightarrow>
              (writeJSON 200 (JMap [(''url'', JStr ((if jt_Zip req then ''/zip/'' else ''/dl/'') @ i)),
                 (''expiresAt'', JStr (FormatUTC expires))]) w, s1))"

definition handleSessionDelete :: "request \<Rightarrow> response \<Rightarrow> server \<Rightarrow> response \<times> server" where
  "handleSessionDelete r w s =
     (case call (DeleteBySession (sessionToken r)) s of
        (Inl e, s1) \<Rightarrow> (failJSON s1 r e w, s1)
      | (Inr _, s1) \<Rightarrow> (respond 204 NoBody w, s1))"

subsection \<open>Status\<close>

definition handleStatus :: "request \<Rightarrow> response \<Rightarrow> server \<Rightarrow> response" where
  "handleStatus r w s =
     (let cfg = sv_cfg (hs_svc s) in
      case fst (StatsAct (hs_svc s)) of
        Inl e \<Rightarrow> failJSON s r e w
      | Inr st \<Rightarrow>
          writeJSON 200 (JMap [(''files'', JInt (st_Files st)), (''bytes'', JInt (st_Bytes st)),
            (''quotaBytes'', JInt (DiskQuotaBytes cfg)), (''maxFiles'', JInt (MaxFiles cfg)),
            (''maxTotalBytes'', JInt (MaxTotalBytes cfg)), (''maxDays'', JInt (MaxDays cfg)),
            (''maxDownloads'', JInt (MaxDownloads cfg)), (''partSize'', JInt (PartSize cfg)),
            (''sizeAtMinDays'', JInt (SizeAtMinDays cfg)), (''sizeAtMaxDays'', JInt (SizeAtMaxDays cfg)),
            (''sizeAtMinDownloads'', JInt (SizeAtMinDownloads cfg)),
            (''sizeAtMaxDownloads'', JInt (SizeAtMaxDownloads cfg))]) w)"

subsection \<open>Management links\<close>

definition handleManageStatus :: "request \<Rightarrow> response \<Rightarrow> server \<Rightarrow> response \<times> server" where
  "handleManageStatus r w s =
     (case call (ManageStatus (manageToken r)) s of
        (Inl e, s1) \<Rightarrow> (failJSON s1 r e w, s1)
      | (Inr v, s1) \<Rightarrow>
          (writeJSON 200 (JMap [(''key'', JStr (m_Key v)), (''kind'', JStr (m_Kind v)),
             (''createdAt'', JStr (FormatUTC (m_CreatedAt v))), (''expiresAt'', JStr (FormatUTC (m_ExpiresAt v))),
             (''maxDownloads'', JInt (m_MaxDownloads v)), (''downloads'', JInt (m_Downloads v)),
             (''remaining'', JInt (m_Remaining v)), (''totalSize'', JInt (m_TotalSize v)),
             (''fileCount'', JInt (m_FileCount v)), (''status'', JStr (m_Status v)),
             (''blocked'', JBool (m_Blocked v)), (''expired'', JBool (m_Expired v)),
             (''exhausted'', JBool (m_Exhausted v)), (''shareUrl'', JStr (shareURL s1 (m_Key v)))]) w, s1))"

definition handleManageDelete :: "request \<Rightarrow> response \<Rightarrow> server \<Rightarrow> response \<times> server" where
  "handleManageDelete r w s =
     (case call (ManageDelete (manageToken r)) s of
        (Inl e, s1) \<Rightarrow> (failJSON s1 r e w, s1)
      | (Inr _, s1) \<Rightarrow> (respond 204 NoBody w, s1))"

subsection \<open>Reports\<close>

definition handleReport :: "codec \<Rightarrow> request \<Rightarrow> response \<Rightarrow> server \<Rightarrow> response \<times> server" where
  "handleReport c r w s0 =
     (let abuse = langPath (lang r) ''/abuse'' in
      case allow (sv_now (hs_svc s0)) (clientIP s0 r) (hs_report s0) of (ok, l) \<Rightarrow>
      let s = s0\<lparr>hs_report := l\<rparr> in
      if \<not> ok then (Redirect (abuse @ ''?r=rate'') 303 w, s)
      else case cd_form c r of
        None \<Rightarrow> (Redirect (abuse @ ''?r=bad'') 303 w, s)
      | Some form \<Rightarrow>
          let url = TrimSpace (form ''url'') in
          if url = [] then (Redirect (abuse @ ''?r=bad'') 303 w, s)
          else
            case call (ReportAct url (TrimSpace (form ''reason'')) (TrimSpace (form ''contact''))
                   (AddrString (clientIP s r))) s of
              (Inl e, s1) \<Rightarrow> (Redirect (abuse @ ''?r=bad'') 303 w, s1)
            | (Inr _, s1) \<Rightarrow> (Redirect (abuse @ ''?r=ok'') 303 w, s1))"

end
