(* ===== verification/Http_Routes.thy ===== *)
theory Http_Routes
  imports Http_Api
begin

text \<open>
  The page handlers (server.go, pages.go, content.go, seo.go, abuse.go, manage.go, report.go of
  src/internal/httpd), the routing table and \<open>ServeHTTP\<close>.
\<close>

subsection \<open>Pages\<close>

definition handleIndex :: "request \<Rightarrow> response \<Rightarrow> server \<Rightarrow> response" where
  "handleIndex r w s =
     (let w1 = allowAdsCSP (hs_opt s) w; d = basePage s r ''index.title'' in
      case featureList (hs_i18n s) (pg_Lang d) of
        None \<Rightarrow> w1
      | Some fs \<Rightarrow>
          render ''index.html'' 200
            (d\<lparr>pg_Description := pageT d ''index.description'', pg_GAID := GAMeasurementID (hs_opt s),
               pg_StructuredData := indexJSONLD s (pg_Lang d) fs\<rparr>) w1)"

definition handleStatic :: "string \<Rightarrow> string \<Rightarrow> string \<Rightarrow> request \<Rightarrow> response \<Rightarrow> server \<Rightarrow> response" where
  "handleStatic name titleKey descKey r w s =
     (let d0 = basePage s r titleKey;
          d = (if descKey \<noteq> [] then d0\<lparr>pg_Description := pageT d0 descKey\<rparr> else d0)
      in render name 200 (d\<lparr>pg_GAID := GAMeasurementID (hs_opt s)\<rparr>) (allowAdsCSP (hs_opt s) w))"

definition gateLangs :: "Catalog \<Rightarrow> string \<Rightarrow> pageData \<Rightarrow> pageData" where
  "gateLangs c sentinel d =
     d\<lparr>pg_LangLinks := filter (\<lambda>l. Has c (k_Code l) sentinel) (pg_LangLinks d)\<rparr>"

text \<open>\<open>Inl\<close>: a redirect was written and the handler is done.\<close>

definition gatedContent ::
  "string \<Rightarrow> string \<Rightarrow> string \<Rightarrow> request \<Rightarrow> response \<Rightarrow> server \<Rightarrow> response + pageData \<times> response" where
  "gatedContent sentinel titleKey descKey r w s =
     (let l = lang r in
      if \<not> Has (hs_i18n s) l sentinel \<and> l \<noteq> ''en''
      then Inl (Redirect (langPath ''en'' (rq_path r)) 302 w)
      else
        let d = basePage s r titleKey;
            d1 = d\<lparr>pg_Description := pageT d descKey, pg_GAID := GAMeasurementID (hs_opt s)\<rparr>
        in Inr (gateLangs (hs_i18n s) sentinel d1, allowAdsCSP (hs_opt s) w))"

definition handleFAQ :: "request \<Rightarrow> response \<Rightarrow> server \<Rightarrow> response" where
  "handleFAQ r w s =
     (case gatedContent ''faq.h1'' ''faq.title'' ''faq.description'' r w s of
        Inl w' \<Rightarrow> w'
      | Inr (d, w') \<Rightarrow>
          case faqItems (hs_i18n s) (pg_Lang d) of
            None \<Rightarrow> w'
          | Some items \<Rightarrow>
              render ''faq.html'' 200
                (d\<lparr>pg_FAQ := items, pg_StructuredData := faqJSONLD s (pg_Lang d) items\<rparr>) w')"

definition handleGuide :: "request \<Rightarrow> response \<Rightarrow> server \<Rightarrow> response" where
  "handleGuide r w s =
     (case gatedContent ''guide.h1'' ''guide.title'' ''guide.description'' r w s of
        Inl w' \<Rightarrow> w'
      | Inr (d, w') \<Rightarrow>
          case howSteps (hs_i18n s) (pg_Lang d) of
            None \<Rightarrow> w'
          | Some steps \<Rightarrow>
              render ''guide.html'' 200
                (d\<lparr>pg_Steps := steps, pg_StructuredData := howToJSONLD s (pg_Lang d) steps\<rparr>) w')"

definition handleAbuse :: "request \<Rightarrow> response \<Rightarrow> server \<Rightarrow> response" where
  "handleAbuse r w s =
     (let d0 = basePage s r ''abuse.title'';
          d1 = d0\<lparr>pg_Description := pageT d0 ''abuse.description'', pg_GAID := GAMeasurementID (hs_opt s)\<rparr>;
          q = rq_query r ''r'';
          d = (if q = ''ok'' then d1\<lparr>pg_Reported := True\<rparr>
               else if q = ''bad'' then d1\<lparr>pg_ReportError := pageT d0 ''abuse.err_bad''\<rparr>
               else if q = ''rate'' then d1\<lparr>pg_ReportError := pageT d0 ''abuse.err_rate''\<rparr>
               else d1)
      in render ''abuse.html'' 200 d (allowAdsCSP (hs_opt s) w))"

definition handleManagePage :: "request \<Rightarrow> response \<Rightarrow> server \<Rightarrow> response" where
  "handleManagePage r w s =
     (let d = basePage s r ''manage.title'' in
      render ''manage.html'' 200
        (d\<lparr>pg_NoIndex := True, pg_Canonical := pg_BaseURL d @ langPath (pg_Lang d) ''/''\<rparr>)
        (SetHeader ''Cache-Control'' ''no-store'' w))"

definition handleDownloadPage :: "string \<Rightarrow> request \<Rightarrow> response \<Rightarrow> server \<Rightarrow> response" where
  "handleDownloadPage key r w s =
     (let d = basePage s r ''download.title'' in
      render ''download.html'' 200
        (d\<lparr>pg_Key := key, pg_NoIndex := True, pg_Canonical := pg_BaseURL d @ langPath (pg_Lang d) ''/''\<rparr>) w)"

definition dlCookie :: string where "dlCookie = ''sf_dl''"

definition handleBareKey :: "codec \<Rightarrow> request \<Rightarrow> response \<Rightarrow> server \<Rightarrow> response" where
  "handleBareKey c r w s =
     (let cookie = \<lparr>ck_Name = dlCookie, ck_Value = rq_value r ''key'', ck_Path = ''/'', ck_MaxAge = 3600,
             ck_HttpOnly = True, ck_Secure = EnableHSTS (hs_opt s), ck_SameSiteLax = True\<rparr>
      in Redirect (langPath (preferredLang (cd_scanQ c) (rq_header r ''Accept-Language'')) ''/receive'') 302
           (w\<lparr>rs_cookies := rs_cookies w @ [cookie]\<rparr>))"

definition handleReceive :: "request \<Rightarrow> response \<Rightarrow> server \<Rightarrow> response \<times> server" where
  "handleReceive r w s =
     (case rq_cookie r dlCookie of
        None \<Rightarrow> (Redirect (langPath (lang r) ''/about'') 302 w, s)
      | Some key \<Rightarrow>
          if key = [] then (Redirect (langPath (lang r) ''/about'') 302 w, s)
          else
            let w1 = SetHeader ''Cache-Control'' ''no-store'' w in
            case call (Peek key) s of
              (res, s1) \<Rightarrow>
                if \<not> isl res \<or> \<not> legacyLive s1 r key
                then (handleDownloadPage key r (allowAdsCSP (hs_opt s1) w1) s1, s1)
                else (legacyPage s1 r key w1, s1))"

definition handleShortLink :: "request \<Rightarrow> response \<Rightarrow> server \<Rightarrow> response" where
  "handleShortLink r w s = Redirect (''/'' @ rq_value r ''key'') 301 w"

subsection \<open>Texts for browsers and crawlers\<close>

text \<open>The language is one of the supported codes, which quoting leaves as it is.\<close>

definition i18nScript :: "string table \<Rightarrow> string \<Rightarrow> string" where
  "i18nScript dict l =
     ''window.I18N='' @ Marshal (JMap (map (map_prod id JStr) dict)) @
     '';window.LANG='' @ [dquote] @ l @ [dquote] @ '';''"

definition handleI18nJS :: "request \<Rightarrow> response \<Rightarrow> server \<Rightarrow> response" where
  "handleI18nJS r w s =
     respond 200 (Script (i18nScript (Prefixed (hs_i18n s) (lang r) ''js.'') (lang r)))
       (SetHeader ''Cache-Control'' ''public, max-age=300''
       (SetHeader ''Content-Type'' ''text/javascript; charset=utf-8'' w))"

definition nl :: string where "nl = [CHR 0x0A]"

definition robotsText :: "string \<Rightarrow> string" where
  "robotsText base =
     ''User-agent: *'' @ nl @ ''Disallow: /admin'' @ nl @ ''Disallow: /api/'' @ nl @
     ''Disallow: /dl/'' @ nl @ ''Disallow: /zip/'' @ nl @ ''Disallow: /ldl/'' @ nl @
     ''Disallow: /d/'' @ nl @ nl @ ''Sitemap: '' @ base @ ''/sitemap.xml'' @ nl"

definition handleRobots :: "request \<Rightarrow> response \<Rightarrow> server \<Rightarrow> response" where
  "handleRobots r w s =
     respond 200 (Txt (robotsText (baseOf s)))
       (SetHeader ''Cache-Control'' ''public, max-age=3600''
       (SetHeader ''Content-Type'' ''text/plain; charset=utf-8'' w))"

definition publicPaths :: "string list" where
  "publicPaths = [''/'', ''/about'', ''/faq'', ''/guide'', ''/privacy'', ''/terms'', ''/abuse'']"

definition gatedPaths :: "string table" where
  "gatedPaths = [(''/faq'', ''faq.h1''), (''/guide'', ''guide.h1'')]"

definition translatedLangs :: "Catalog \<Rightarrow> string \<Rightarrow> Lang list" where
  "translatedLangs c key = filter (\<lambda>l. Has c (g_Code l) key) Langs"

definition dq :: "string \<Rightarrow> string" where "dq s = [CHR 0x22] @ s @ [CHR 0x22]"

definition sitemapEntry :: "string \<Rightarrow> string \<Rightarrow> string \<Rightarrow> string \<Rightarrow> Lang list \<Rightarrow> string \<Rightarrow> Lang \<Rightarrow> string" where
  "sitemapEntry base today priority xdefault langs p l =
     ''  <url><loc>'' @ base @ langPath (g_Code l) p @ ''</loc>'' @ nl @
     concat (map (\<lambda>alt. ''    <xhtml:link rel='' @ dq ''alternate'' @ '' hreflang='' @ dq (g_Code alt) @
       '' href='' @ dq (base @ langPath (g_Code alt) p) @ ''/>'' @ nl) langs) @
     ''    <xhtml:link rel='' @ dq ''alternate'' @ '' hreflang='' @ dq ''x-default'' @
       '' href='' @ dq (base @ langPath xdefault p) @ ''/>'' @ nl @
     ''    <lastmod>'' @ today @ ''</lastmod><changefreq>weekly</changefreq><priority>'' @ priority @
       ''</priority></url>'' @ nl"

definition sitemapPath :: "Catalog \<Rightarrow> string \<Rightarrow> string \<Rightarrow> string \<Rightarrow> string" where
  "sitemapPath c base today p =
     (let priority = (if p = ''/'' then ''1.0'' else ''0.6'');
          langs = (case map_of gatedPaths p of None \<Rightarrow> Langs | Some key \<Rightarrow> translatedLangs c key);
          xdefault = (case map_of gatedPaths p of None \<Rightarrow> Default | Some key \<Rightarrow> g_Code (hd langs))
      in if langs = [] then [] else concat (map (sitemapEntry base today priority xdefault langs p) langs))"

definition handleSitemap :: "request \<Rightarrow> response \<Rightarrow> server \<Rightarrow> response" where
  "handleSitemap r w s =
     (let base = baseOf s; today = FormatDate (sv_now (hs_svc s)) in
      respond 200 (Txt (
          ''<?xml version='' @ dq ''1.0'' @ '' encoding='' @ dq ''UTF-8'' @ ''?>'' @ nl @
          ''<urlset xmlns='' @ dq ''http://www.sitemaps.org/schemas/sitemap/0.9'' @
          '' xmlns:xhtml='' @ dq ''http://www.w3.org/1999/xhtml'' @ ''>'' @ nl @
          concat (map (sitemapPath (hs_i18n s) base today) publicPaths) @ ''</urlset>'' @ nl))
        (SetHeader ''Cache-Control'' ''public, max-age=3600''
        (SetHeader ''Content-Type'' ''application/xml; charset=utf-8'' w)))"

definition manifestIcon :: "string \<Rightarrow> string" where
  "manifestIcon px =
     ''    {'' @ dq ''src'' @ '': '' @ dq (''/static/icon-'' @ px @ ''.png'') @ '', '' @
     dq ''sizes'' @ '': '' @ dq (px @ ''x'' @ px) @ '', '' @ dq ''type'' @ '': '' @ dq ''image/png'' @ '', '' @
     dq ''purpose'' @ '': '' @ dq ''any maskable'' @ ''}''"

text \<open>The text of the manifest; \<open>q\<close> quotes the messages.\<close>

definition manifestText :: "(string \<Rightarrow> string) \<Rightarrow> string \<Rightarrow> string \<Rightarrow> string \<Rightarrow> string \<Rightarrow> string \<Rightarrow> string" where
  "manifestText q name desc l dir start =
     ''{'' @ nl @
     ''  '' @ dq ''name'' @ '': '' @ q name @ '','' @ nl @
     ''  '' @ dq ''short_name'' @ '': '' @ q name @ '','' @ nl @
     ''  '' @ dq ''description'' @ '': '' @ q desc @ '','' @ nl @
     ''  '' @ dq ''lang'' @ '': '' @ q l @ '','' @ nl @
     ''  '' @ dq ''dir'' @ '': '' @ q dir @ '','' @ nl @
     ''  '' @ dq ''start_url'' @ '': '' @ q start @ '','' @ nl @
     ''  '' @ dq ''scope'' @ '': '' @ dq ''/'' @ '','' @ nl @
     ''  '' @ dq ''display'' @ '': '' @ dq ''standalone'' @ '','' @ nl @
     ''  '' @ dq ''background_color'' @ '': '' @ dq ''#ffffff'' @ '','' @ nl @
     ''  '' @ dq ''theme_color'' @ '': '' @ dq ''#0e9594'' @ '','' @ nl @
     ''  '' @ dq ''icons'' @ '': ['' @ nl @
     manifestIcon ''192'' @ '','' @ nl @
     manifestIcon ''512'' @ nl @
     ''  ]'' @ nl @ ''}''"

definition handleManifest :: "codec \<Rightarrow> request \<Rightarrow> response \<Rightarrow> server \<Rightarrow> response" where
  "handleManifest c r w s =
     (let l = lang r in
      respond 200 (Txt (manifestText (Quote (cd_isPrint c)) (T (hs_i18n s) l ''brand.name'')
          (T (hs_i18n s) l ''index.description'') l (DirOf l) (langPath l ''/'' @ ''?src=pwa'')))
        (SetHeader ''Cache-Control'' ''public, max-age=3600''
        (SetHeader ''Content-Type'' ''application/manifest+json; charset=utf-8'' w)))"

subsection \<open>Published documents\<close>

text \<open>What opening a name in the published directory can give, and the wrapper that hides directories.\<close>

datatype node = NoFile | FileNode bytes | DirNode | StatFails

definition noListDir_Open :: "(string \<Rightarrow> node) \<Rightarrow> string \<Rightarrow> bytes option" where
  "noListDir_Open fs name =
     (case fs name of
        NoFile \<Rightarrow> None
      | StatFails \<Rightarrow> None
      | DirNode \<Rightarrow> None
      | FileNode b \<Rightarrow> Some b)"

definition reportFiles :: "(string \<Rightarrow> response \<Rightarrow> response) \<Rightarrow> string \<Rightarrow> response \<Rightarrow> response" where
  "reportFiles fileServer name w =
     fileServer name
       (SetHeader ''Content-Disposition'' ''inline''
       (SetHeader ''X-Content-Type-Options'' ''nosniff''
       (SetHeader ''Cache-Control'' ''public, max-age=3600''
       (DelHeader ''Content-Security-Policy'' w))))"

definition cacheStatic :: "(string \<Rightarrow> response \<Rightarrow> response) \<Rightarrow> string \<Rightarrow> response \<Rightarrow> response" where
  "cacheStatic fileServer name w = fileServer name (SetHeader ''Cache-Control'' ''public, max-age=60'' w)"

definition handleHealthz :: "request \<Rightarrow> response \<Rightarrow> server \<Rightarrow> response" where
  "handleHealthz r w s =
     respond 200 (Txt (''ok'' @ nl)) (SetHeader ''Content-Type'' ''text/plain; charset=utf-8'' w)"

subsection \<open>Routes\<close>

text \<open>
  \<open>http.ServeMux\<close>: a pattern is a method with path segments, literal or wildcards; \<open>Rest\<close> is a
  trailing slash, which matches every longer path.  A GET pattern also serves HEAD, and
  more specific patterns win: the table is ordered so that its first match is the most
  specific one.  Paths are the decoded ones, without encoded slashes.
\<close>

datatype seg = Lit string | Wild string | Rest

fun match_segs :: "seg list \<Rightarrow> string list \<Rightarrow> string table option" where
  "match_segs [] [] = Some []"
| "match_segs [Rest] xs = (if xs = [] then None else Some [([], join ''/'' xs)])"
| "match_segs (Lit l # ps) (x # xs) = (if l = x then match_segs ps xs else None)"
| "match_segs (Wild n # ps) (x # xs) =
     (if x = [] then None else map_option (\<lambda>b. (n, x) # b) (match_segs ps xs))"
| "match_segs _ _ = None"

type_synonym handler = "request \<Rightarrow> response \<Rightarrow> server \<Rightarrow> response \<times> server"

definition page :: "(request \<Rightarrow> response \<Rightarrow> server \<Rightarrow> response) \<Rightarrow> handler" where
  "page f r w s = (f r w s, s)"

definition moved :: "string \<Rightarrow> handler" where
  "moved dest r w s = (Redirect dest 301 w, s)"

definition routes :: "codec \<Rightarrow> server \<Rightarrow> (string \<times> seg list \<times> handler) list" where
  "routes c s =
     [(''GET'', [Lit ''static'', Rest], page (\<lambda>r w s. cacheStatic (cd_static c) (rq_value r []) w))] @
     (if ReportDir (hs_opt s) \<noteq> []
      then [(''GET'', [Lit ''report'', Rest], page (\<lambda>r w s. reportFiles (cd_reports c) (rq_value r []) w))]
      else []) @
     [(''GET'', [Lit []], page handleIndex),
      (''GET'', [Lit ''d'', Wild ''key''], page handleShortLink),
      (''GET'', [Lit ''receive''], handleReceive),
      (''GET'', [Lit ''aboutus.php''], moved ''/about''),
      (''GET'', [Lit ''qa.php''], moved ''/about''),
      (''GET'', [Lit ''terms.php''], moved ''/terms''),
      (''GET'', [Lit ''privacy.php''], moved ''/privacy''),
      (''GET'', [Lit ''about''], page (handleStatic ''about.html'' ''about.title'' ''about.description'')),
      (''GET'', [Lit ''faq''], page handleFAQ),
      (''GET'', [Lit ''guide''], page handleGuide),
      (''GET'', [Lit ''privacy''], page (handleStatic ''privacy.html'' ''privacy.title'' ''privacy.description'')),
      (''GET'', [Lit ''terms''], page (handleStatic ''terms.html'' ''terms.title'' ''terms.description'')),
      (''GET'', [Lit ''abuse''], page handleAbuse),
      (''POST'', [Lit ''abuse'', Lit ''report''], handleReport c),
      (''GET'', [Lit ''manage''], page handleManagePage),
      (''GET'', [Lit ''api'', Lit ''manage''], handleManageStatus),
      (''POST'', [Lit ''api'', Lit ''manage'', Lit ''delete''], handleManageDelete),
      (''GET'', [Lit ''i18n.js''], page handleI18nJS),
      (''GET'', [Lit ''robots.txt''], page handleRobots),
      (''GET'', [Lit ''sitemap.xml''], page handleSitemap),
      (''GET'', [Lit ''manifest.webmanifest''], page (handleManifest c)),
      (''POST'', [Lit ''api'', Lit ''uploads''], handleStartUpload c),
      (''GET'', [Lit ''api'', Lit ''uploads'', Wild ''sid''], handleUploadState c),
      (''PATCH'', [Lit ''api'', Lit ''uploads'', Wild ''sid'', Lit ''files'', Wild ''fid''], handleWritePart c),
      (''POST'', [Lit ''api'', Lit ''uploads'', Wild ''sid'', Lit ''finish''], handleFinishUpload c),
      (''DELETE'', [Lit ''api'', Lit ''uploads'', Wild ''sid''], handleCancelUpload c),
      (''GET'', [Lit ''api'', Lit ''drops'', Wild ''key''], handlePeek),
      (''POST'', [Lit ''api'', Lit ''drops'', Wild ''key'', Lit ''unlock''], handleUnlock c),
      (''GET'', [Lit ''api'', Lit ''session'', Lit ''files''], handleSessionFiles),
      (''POST'', [Lit ''api'', Lit ''session'', Lit ''tickets''], handleIssueTicket),
      (''DELETE'', [Lit ''api'', Lit ''session''], handleLock),
      (''POST'', [Lit ''api'', Lit ''session'', Lit ''delete''], handleSessionDelete),
      (''HEAD'', [Lit ''dl'', Wild ''ticket''], handleDownload),
      (''GET'', [Lit ''dl'', Wild ''ticket''], handleDownload),
      (''GET'', [Lit ''zip'', Wild ''ticket''], handleArchive),
      (''GET'', [Lit ''api'', Lit ''status''], page handleStatus),
      (''GET'', [Lit ''healthz''], page handleHealthz),
      (''GET'', [Wild ''key''], page (handleBareKey c))]"

definition method_ok :: "string \<Rightarrow> string \<Rightarrow> bool" where
  "method_ok pat m \<longleftrightarrow> m = pat \<or> (pat = ''GET'' \<and> m = ''HEAD'')"

definition segments :: "string \<Rightarrow> string list" where
  "segments path = SplitByte (CHR ''/'') (tl path)"

text \<open>\<open>cleanPath\<close> of the multiplexer: empty and dot segments are resolved.\<close>

fun clean_segs :: "string list \<Rightarrow> string list \<Rightarrow> string list" where
  "clean_segs acc [] = rev acc"
| "clean_segs acc (x # xs) =
     (if x = [] \<or> x = ''.'' then clean_segs acc xs
      else if x = ''..'' then clean_segs (tl acc) xs
      else clean_segs (x # acc) xs)"

definition cleanPath :: "string \<Rightarrow> string" where
  "cleanPath p0 =
     (let p = (if p0 = [] \<or> hd p0 \<noteq> CHR ''/'' then CHR ''/'' # p0 else p0);
          np = ''/'' @ join ''/'' (clean_segs [] (segments p))
      in if last p = CHR ''/'' \<and> np \<noteq> ''/'' then np @ ''/'' else np)"

definition muxServe :: "codec \<Rightarrow> handler" where
  "muxServe c r w s =
     (let path = rq_path r; segs = segments (cleanPath path) in
      if cleanPath path \<noteq> path then (Redirect (cleanPath path) 301 w, s)
      else case find (\<lambda>(m, ps, h). method_ok m (rq_method r) \<and> match_segs ps segs \<noteq> None) (routes c s) of
        Some (m, ps, h) \<Rightarrow>
          h (r\<lparr>rq_value := (\<lambda>n. case map_of (the (match_segs ps segs)) n of Some v \<Rightarrow> v | None \<Rightarrow> [])\<rparr>) w s
      | None \<Rightarrow>
          if list_ex (\<lambda>(m, ps, h). match_segs ps segs \<noteq> None) (routes c s)
          then (httpError ''Method Not Allowed'' 405 w, s)
          else (httpError ''404 page not found'' 404 w, s))"

definition newResponse :: response where
  "newResponse = \<lparr>rs_status = 200, rs_header = [], rs_cookies = [], rs_body = NoBody\<rparr>"

definition ServeHTTP :: "codec \<Rightarrow> request \<Rightarrow> server \<Rightarrow> response \<times> server" where
  "ServeHTTP c r s =
     (case splitLangPrefix (rq_path r) of
        Some (seg, rest) \<Rightarrow>
          if seg = Default then (Redirect rest 301 newResponse, s)
          else muxServe c (r\<lparr>rq_path := rest, rq_lang := Some seg\<rparr>) (securityHeaders (hs_opt s) newResponse) s
      | None \<Rightarrow>
          muxServe c (r\<lparr>rq_lang := Some Default\<rparr>) (securityHeaders (hs_opt s) newResponse) s)"

end
