(* ===== verification/Pages_Correct.thy ===== *)
theory Pages_Correct
  imports Http_Routes Names_Correct
begin

text \<open>
  The loops over numbered messages return, language prefixes round-trip through the router,
  and sizes are shown with an error below half a tenth.
\<close>

subsection \<open>Numbered messages\<close>

text \<open>
  The common shape of the three loops: collect items from a number on until one is missing.
\<close>

locale numbered =
  fixes present :: "nat \<Rightarrow> bool" and item :: "nat \<Rightarrow> 'a" and loop :: "nat \<Rightarrow> 'a list option"
  assumes unfold_loop: "loop i = (if \<not> present i then Some [] else Option.bind (loop (i + 1)) (\<lambda>xs. Some (item i # xs)))"
    and finite_present: "finite {i. present i}"
begin

lemma collects:
  assumes "i \<le> n" "\<not> present n" "\<forall>j. i \<le> j \<and> j < n \<longrightarrow> present j"
  shows "loop i = Some (map item [i..<n])"
  using assms
proof (induction "n - i" arbitrary: i)
  case 0
  then show ?case by (subst unfold_loop) simp
next
  case (Suc k)
  then have "loop (i + 1) = Some (map item [i + 1..<n])" by simp
  moreover have "present i" "i < n" using Suc by auto
  moreover have "[i..<n] = i # [i + 1..<n]" using \<open>i < n\<close> by (simp add: upt_rec)
  ultimately show ?case by (subst unfold_loop) simp
qed

lemma stops: "\<exists>n \<ge> i. \<not> present n \<and> (\<forall>j. i \<le> j \<and> j < n \<longrightarrow> present j)"
proof -
  have "\<exists>n \<ge> i. \<not> present n"
  proof (rule ccontr)
    assume "\<nexists>n. i \<le> n \<and> \<not> present n"
    then have "{i..} \<subseteq> {j. present j}" by auto
    then show False using finite_present infinite_Ici finite_subset by blast
  qed
  then obtain n where n: "i \<le> n \<and> \<not> present n" "\<forall>m. i \<le> m \<and> \<not> present m \<longrightarrow> n \<le> m"
    using ex_least_nat_le [of "\<lambda>n. i \<le> n \<and> \<not> present n"] by (metis (mono_tags, lifting) not_le)
  then show ?thesis by (metis not_le)
qed

lemma returns: "\<exists>n \<ge> i. \<not> present n \<and> (\<forall>j. i \<le> j \<and> j < n \<longrightarrow> present j) \<and> loop i = Some (map item [i..<n])"
  using stops [of i] collects by metis

end

text \<open>A catalog is finite, so only finitely many numbered keys are present.\<close>

lemma finite_numbered_message: "finite {i. message c l (pre @ nat_digits i @ post) \<noteq> None}"
proof (cases "map_of c l")
  case None
  then show ?thesis by (simp add: message_def)
next
  case (Some m)
  have "inj_on (\<lambda>i. pre @ nat_digits i @ post) S" for S
    by (auto simp: inj_on_def nat_digits_inject)
  moreover have "(\<lambda>i. pre @ nat_digits i @ post) ` {i. message c l (pre @ nat_digits i @ post) \<noteq> None} \<subseteq> dom (map_of m)"
    using Some by (auto simp: message_def)
  ultimately show ?thesis using finite_dom_map_of [of m] by (meson finite_imageD finite_subset)
qed

lemma finite_numbered_Has: "finite {i. Has c l (pre @ nat_digits i @ post)}"
  by (rule finite_subset [OF _ finite_numbered_message [of c l pre post]]) (auto simp: Has_def split: option.splits)

lemma finite_numbered_T: "finite {i. T c l (pre @ nat_digits i @ post) \<noteq> pre @ nat_digits i @ post}"
  by (rule finite_subset [OF _ finite_UnI [OF finite_numbered_message [of c l pre post]
        finite_numbered_message [of c Default pre post]]]) (auto simp: T_def split: option.splits)

interpretation faq: numbered "\<lambda>i. Has c l (''faq.q'' @ nat_digits i)"
    "\<lambda>i. \<lparr>fq_Q = T c l (''faq.q'' @ nat_digits i), fq_A = T c l (''faq.a'' @ nat_digits i)\<rparr>" "faqItems_from c l" for c l
  using finite_numbered_Has [of c l "''faq.q''" "[]"]
  by unfold_locales (subst faqItems_from.simps, simp_all)

interpretation guide: numbered "\<lambda>i. Has c l (''guide.step'' @ nat_digits i @ ''_name'')"
    "\<lambda>i. \<lparr>hw_Name = T c l (''guide.step'' @ nat_digits i @ ''_name''),
          hw_Text = T c l (''guide.step'' @ nat_digits i @ ''_text'')\<rparr>" "howSteps_from c l" for c l
  using finite_numbered_Has [of c l "''guide.step''" "''_name''"]
  by unfold_locales (subst howSteps_from.simps, simp_all)

interpretation feat: numbered "\<lambda>i. T c l (''feat.'' @ nat_digits i) \<noteq> ''feat.'' @ nat_digits i"
    "\<lambda>i. T c l (''feat.'' @ nat_digits i)" "featureList_from c l" for c l
  using finite_numbered_T [of c l "''feat.''" "[]"]
  by unfold_locales (subst featureList_from.simps, simp_all)

text \<open>
  C38: The unbounded loops over numbered messages return, for every catalog and language.  The
  questions, steps and features they return are exactly the messages numbered from one up
  to the first that is missing.
\<close>

theorem numbered_loops_return:
  "(\<exists>n \<ge> 1. \<not> Has c l (''faq.q'' @ nat_digits n) \<and> (\<forall>j. 1 \<le> j \<and> j < n \<longrightarrow> Has c l (''faq.q'' @ nat_digits j)) \<and>
      faqItems c l = Some (map (\<lambda>i. \<lparr>fq_Q = T c l (''faq.q'' @ nat_digits i),
        fq_A = T c l (''faq.a'' @ nat_digits i)\<rparr>) [1..<n])) \<and>
   (\<exists>n \<ge> 1. \<not> Has c l (''guide.step'' @ nat_digits n @ ''_name'') \<and>
      (\<forall>j. 1 \<le> j \<and> j < n \<longrightarrow> Has c l (''guide.step'' @ nat_digits j @ ''_name'')) \<and>
      howSteps c l = Some (map (\<lambda>i. \<lparr>hw_Name = T c l (''guide.step'' @ nat_digits i @ ''_name''),
        hw_Text = T c l (''guide.step'' @ nat_digits i @ ''_text'')\<rparr>) [1..<n])) \<and>
   (\<exists>n \<ge> 1. T c l (''feat.'' @ nat_digits n) = ''feat.'' @ nat_digits n \<and>
      (\<forall>j. 1 \<le> j \<and> j < n \<longrightarrow> T c l (''feat.'' @ nat_digits j) \<noteq> ''feat.'' @ nat_digits j) \<and>
      featureList c l = Some (map (\<lambda>i. T c l (''feat.'' @ nat_digits i)) [1..<n]))"
  using faq.returns [of 1 c l] guide.returns [of 1 c l] feat.returns [of 1 c l]
  unfolding faqItems_def howSteps_def featureList_def by blast

lemma sample_digits: "nat_digits 1 = ''1''" "nat_digits 2 = ''2''" "nat_digits 3 = ''3''"
  by code_simp+

theorem numbered_loops_return_witness:
  "featureList [(''ja'', [(''feat.1'', ''encrypted''), (''feat.2'', ''expiring'')])] ''en'' = Some [''encrypted'', ''expiring'']"
proof -
  define c where "c = [(''ja'', [(''feat.1'', ''encrypted''), (''feat.2'', ''expiring'')])]"
  have t: "T c ''en'' (''feat.'' @ nat_digits 1) = ''encrypted''" "T c ''en'' (''feat.'' @ nat_digits 2) = ''expiring''"
    "T c ''en'' (''feat.'' @ nat_digits 3) = ''feat.'' @ nat_digits 3"
    unfolding sample_digits by (simp_all add: c_def T_def message_def Default_def)
  obtain n where n: "1 \<le> n" "T c ''en'' (''feat.'' @ nat_digits n) = ''feat.'' @ nat_digits n"
      "\<forall>j. 1 \<le> j \<and> j < n \<longrightarrow> T c ''en'' (''feat.'' @ nat_digits j) \<noteq> ''feat.'' @ nat_digits j"
      "featureList c ''en'' = Some (map (\<lambda>i. T c ''en'' (''feat.'' @ nat_digits i)) [1..<n])"
    using numbered_loops_return [of c "''en''"] by blast
  have "n \<le> 3" using n(3) t(3) by (metis not_le one_le_numeral)
  moreover have "n \<noteq> 1" "n \<noteq> 2" using n(2) t(1,2) by (auto simp: sample_digits sample_digits(1) [simplified])
  ultimately have "n = 3" using n(1) by linarith
  then have "[1..<n] = [1, 2]" by (simp add: upt_rec)
  then show ?thesis using n(4) t(1,2) by (simp add: c_def sample_digits sample_digits(1) [simplified])
qed

subsection \<open>Languages in paths\<close>

lemma split_plain:
  assumes "CHR ''/'' \<notin> set l"
  shows "before_first (CHR ''/'') (l @ CHR ''/'' # q) = l" "from_first (CHR ''/'') (l @ CHR ''/'' # q) = CHR ''/'' # q"
    "before_first (CHR ''/'') l = l"
proof -
  have "\<forall>c \<in> set l. c \<noteq> CHR ''/''" using assms by auto
  then show "before_first (CHR ''/'') (l @ CHR ''/'' # q) = l" "from_first (CHR ''/'') (l @ CHR ''/'' # q) = CHR ''/'' # q"
    "before_first (CHR ''/'') l = l"
    by (simp_all add: before_first_def from_first_def takeWhile_append2 dropWhile_append2)
qed

lemma splitLangPrefix_prefix:
  assumes "IsSupported l"
  shows "splitLangPrefix (''/'' @ l @ CHR ''/'' # q) = Some (l, CHR ''/'' # q)"
    and "splitLangPrefix (''/'' @ l) = Some (l, ''/'')"
proof -
  have l: "l \<noteq> []" "CHR ''/'' \<notin> set l" using IsSupported_plain [OF assms] by auto
  show "splitLangPrefix (''/'' @ l @ CHR ''/'' # q) = Some (l, CHR ''/'' # q)"
    using split_plain(1,2) [OF l(2), of q] assms l(1) by (simp add: splitLangPrefix_def)
  show "splitLangPrefix (''/'' @ l) = Some (l, ''/'')"
    using split_plain(3) [OF l(2)] assms l by (cases l) (simp_all add: splitLangPrefix_def)
qed

text \<open>
  C37: Language prefixes round-trip.  A path prefixed by \<open>langPath\<close> with a supported language is
  routed as the original path in that language.  The prefix of the default language is
  answered with a permanent redirect to the rest of the path as it stands, which for a rest
  that begins with two slashes names another host.
\<close>

theorem language_prefix_routes:
  assumes "IsSupported l" and "l \<noteq> Default"
  shows "splitLangPrefix (langPath l (CHR ''/'' # q)) = Some (l, CHR ''/'' # q) \<and>
    ServeHTTP c (r\<lparr>rq_path := langPath l (CHR ''/'' # q)\<rparr>) s =
      muxServe c (r\<lparr>rq_path := CHR ''/'' # q, rq_lang := Some l\<rparr>) (securityHeaders (hs_opt s) newResponse) s \<and>
    ServeHTTP c (r\<lparr>rq_path := ''/'' @ Default @ CHR ''/'' # q\<rparr>) s = (Redirect (CHR ''/'' # q) 301 newResponse, s) \<and>
    ServeHTTP c (r\<lparr>rq_path := ''/ja//evil.example/''\<rparr>) s = (Redirect ''//evil.example/'' 301 newResponse, s)"
proof -
  have l: "l \<noteq> []" using IsSupported_plain [OF assms(1)] by auto
  have split: "splitLangPrefix (langPath l (CHR ''/'' # q)) = Some (l, CHR ''/'' # q)"
  proof (cases "q = []")
    case True
    then show ?thesis using splitLangPrefix_prefix(2) [OF assms(1)] assms(2) l by (simp add: langPath_def)
  next
    case False
    then show ?thesis using splitLangPrefix_prefix(1) [OF assms(1), of q] assms(2) l by (simp add: langPath_def)
  qed
  have default: "ServeHTTP c (r\<lparr>rq_path := ''/'' @ Default @ CHR ''/'' # q\<rparr>) s = (Redirect (CHR ''/'' # q) 301 newResponse, s)" for q
    using splitLangPrefix_prefix(1) [OF Default_supported, of q] by (simp add: ServeHTTP_def)
  show ?thesis
    using split default [of q] default [of "''/evil.example/''"] assms(2)
    by (simp add: ServeHTTP_def Default_def)
qed

theorem language_prefix_routes_witness:
  "splitLangPrefix (langPath ''en'' ''/about'') = Some (''en'', ''/about'')"
  using language_prefix_routes [of "''en''" "''about''"] by (simp add: IsSupported_def Langs_def Default_def)

text \<open>The old short link hands a key with an encoded slash on as it stands.\<close>

lemma short_link_redirect:
  "handleShortLink (r\<lparr>rq_value := (\<lambda>_. ''/evil.example'')\<rparr>) w s = Redirect ''//evil.example'' 301 w"
  by (simp add: handleShortLink_def)

end
