(* ===== verification/Limits_Correct.thy ===== *)
theory Limits_Correct
  imports Http_Limits
begin

text \<open>
  The rate limiter is exact and its housekeeping invisible; the client address cannot be
  forged by a peer that is not a configured proxy.
\<close>

subsection \<open>The level of a bucket\<close>

text \<open>
  What the limiter knows of an address at an instant is a single number, the tokens it
  could spend then.  \<open>level_ok\<close> is the invariant of the buckets: no bucket is overfull and
  none lies in the future.
\<close>

definition level :: "time \<Rightarrow> Addr \<Rightarrow> limiter \<Rightarrow> rat" where
  "level now a l =
     (case l_buckets l a of
        None \<Rightarrow> l_capacity l
      | Some b \<Rightarrow> min (l_capacity l) (b_tokens b + Seconds (now - b_seen b) * l_refill l))"

definition level_ok :: "time \<Rightarrow> limiter \<Rightarrow> bool" where
  "level_ok now l \<longleftrightarrow>
     0 \<le> l_refill l \<and> 0 \<le> l_capacity l \<and>
     (\<forall>a b. l_buckets l a = Some b \<longrightarrow> 0 \<le> b_tokens b \<and> b_tokens b \<le> l_capacity l \<and> b_seen b \<le> now)"

lemma Seconds_add: "Seconds (a + b) = Seconds a + Seconds b"
  by (simp add: Seconds_def add_divide_distrib)

lemma Seconds_0 [simp]: "Seconds 0 = 0"
  by (simp add: Seconds_def)

lemma Seconds_nonneg: "0 \<le> d \<Longrightarrow> 0 \<le> Seconds d"
  by (simp add: Seconds_def Second_def)

lemma level_le: "level now a l \<le> l_capacity l"
  by (auto simp: level_def split: option.splits)

lemma level_nonneg: "level_ok t l \<Longrightarrow> t \<le> now \<Longrightarrow> 0 \<le> level now a l"
  by (fastforce simp: level_def level_ok_def Seconds_nonneg split: option.splits
      intro: add_nonneg_nonneg mult_nonneg_nonneg)

lemma level_update:
  "level now b (l\<lparr>l_buckets := (l_buckets l)(a \<mapsto> \<lparr>b_tokens = v, b_seen = now\<rparr>)\<rparr>) =
     (if b = a then min (l_capacity l) v else level now b l)"
  by (cases "l_buckets l b") (auto simp: level_def)

lemma level_later:
  assumes "level_ok t l" "t \<le> now"
  shows "level now a l = min (l_capacity l) (level t a l + Seconds (now - t) * l_refill l)"
proof (cases "l_buckets l a")
  case None
  then show ?thesis using assms by (auto simp: level_def level_ok_def Seconds_nonneg)
next
  case (Some b)
  have split: "Seconds (now - b_seen b) = Seconds (t - b_seen b) + Seconds (now - t)"
    by (simp flip: Seconds_add)
  have "0 \<le> Seconds (now - t) * l_refill l"
    using assms by (simp add: level_ok_def Seconds_nonneg)
  then show ?thesis using Some by (simp add: level_def split algebra_simps)
qed

lemma allow_level:
  assumes "IsValid a" and "level_ok t l" and "t \<le> now"
  shows "fst (allow now a l) = (1 \<le> level now a l)"
    and "level now b (snd (allow now a l)) =
           (if b = a \<and> 1 \<le> level now a l then level now a l - 1 else level now b l)"
    and "level_ok now (snd (allow now a l))"
    and "l_capacity (snd (allow now a l)) = l_capacity l" "l_refill (snd (allow now a l)) = l_refill l"
proof -
  let ?b = "case l_buckets l a of Some b \<Rightarrow> b | None \<Rightarrow> \<lparr>b_tokens = l_capacity l, b_seen = now\<rparr>"
  have lev: "min (l_capacity l) (b_tokens ?b + Seconds (now - b_seen ?b) * l_refill l) = level now a l"
    by (auto simp: level_def split: option.splits)
  have allow: "allow now a l =
      (if level now a l < 1
       then (False, l\<lparr>l_buckets := (l_buckets l)(a \<mapsto> \<lparr>b_tokens = level now a l, b_seen = now\<rparr>)\<rparr>)
       else (True, l\<lparr>l_buckets := (l_buckets l)(a \<mapsto> \<lparr>b_tokens = level now a l - 1, b_seen = now\<rparr>)\<rparr>))"
    using assms(1) lev by (simp add: allow_def Let_def)
  show "fst (allow now a l) = (1 \<le> level now a l)" by (simp add: allow)
  have le: "level now a l \<le> l_capacity l" by (rule level_le)
  have nn: "0 \<le> level now a l" using assms(2,3) by (rule level_nonneg)
  show "level now b (snd (allow now a l)) =
      (if b = a \<and> 1 \<le> level now a l then level now a l - 1 else level now b l)"
    using le by (auto simp: allow level_update)
  show "level_ok now (snd (allow now a l))"
    using assms(2,3) le nn by (force simp: allow level_ok_def split: if_splits)
  show "l_capacity (snd (allow now a l)) = l_capacity l" "l_refill (snd (allow now a l)) = l_refill l"
    by (simp_all add: allow)
qed

lemma allow_invalid: "\<not> IsValid a \<Longrightarrow> allow now a l = (True, l)"
  by (simp add: allow_def)

lemma level_ok_later: "level_ok t l \<Longrightarrow> t \<le> now \<Longrightarrow> level_ok now l"
  by (fastforce simp: level_ok_def)

lemma sweep_level:
  assumes "level_ok t l" "t \<le> now"
  shows "level now b (sweepLimiter now l) = level now b l"
    and "level_ok now (sweepLimiter now l)"
    and "l_capacity (sweepLimiter now l) = l_capacity l" "l_refill (sweepLimiter now l) = l_refill l"
proof -
  show "level now b (sweepLimiter now l) = level now b l"
    by (auto simp: level_def sweepLimiter_def min_def split: option.splits)
  show "level_ok now (sweepLimiter now l)"
    using level_ok_later [OF assms] by (auto simp: level_ok_def sweepLimiter_def split: option.splits if_splits)
qed (simp_all add: sweepLimiter_def)

subsection \<open>Runs of the limiter\<close>

text \<open>A run is a list of timed events: requests and the periodic sweep.\<close>

datatype levent = Request (le_addr: Addr) | SweepAll

fun run_limiter :: "(time \<times> levent) list \<Rightarrow> limiter \<Rightarrow> (time \<times> Addr \<times> bool) list" where
  "run_limiter [] l = []"
| "run_limiter ((t, Request a) # es) l =
     (case allow t a l of (ok, l') \<Rightarrow> (t, a, ok) # run_limiter es l')"
| "run_limiter ((t, SweepAll) # es) l = run_limiter es (sweepLimiter t l)"

definition answers :: "Addr \<Rightarrow> (time \<times> Addr \<times> bool) list \<Rightarrow> bool list" where
  "answers a ans = map (\<lambda>(t, b, ok). ok) (filter (\<lambda>(t, b, ok). b = a) ans)"

definition granted :: "bool list \<Rightarrow> nat" where
  "granted bs = length (filter (\<lambda>x. x) bs)"

text \<open>The abstract limiter of one address: a number that refills and is spent.\<close>

fun spend :: "rat \<Rightarrow> rat \<Rightarrow> time \<Rightarrow> rat \<Rightarrow> time list \<Rightarrow> bool list" where
  "spend cap rate t v [] = []"
| "spend cap rate t v (u # us) =
     (let w = min cap (v + Seconds (u - t) * rate) in
      if w < 1 then False # spend cap rate u w us else True # spend cap rate u (w - 1) us)"

lemma spend_later:
  assumes "t \<le> u" "\<forall>x \<in> set us. u \<le> x" "0 \<le> rate"
  shows "spend cap rate u (min cap (v + Seconds (u - t) * rate)) us = spend cap rate t v us"
proof (cases us)
  case (Cons x xs)
  have split: "Seconds (x - t) = Seconds (u - t) + Seconds (x - u)"
    by (simp flip: Seconds_add)
  have "0 \<le> Seconds (x - u) * rate"
    using assms Cons by (simp add: Seconds_nonneg)
  then have "min cap (min cap (v + Seconds (u - t) * rate) + Seconds (x - u) * rate) =
      min cap (v + Seconds (x - t) * rate)"
    by (simp add: split algebra_simps)
  then show ?thesis by (simp add: Cons)
qed simp

definition times_of :: "Addr \<Rightarrow> (time \<times> levent) list \<Rightarrow> time list" where
  "times_of a es = map fst (filter (\<lambda>e. snd e = Request a) es)"

lemma times_of_simps [simp]:
  "times_of a [] = []"
  "times_of a ((t, e) # es) = (if e = Request a then t # times_of a es else times_of a es)"
  by (auto simp: times_of_def)

lemma answers_simps [simp]:
  "answers a [] = []"
  "answers a ((t, b, ok) # xs) = (if b = a then ok # answers a xs else answers a xs)"
  by (auto simp: answers_def)

text \<open>The limiter refines one abstract limiter per address.\<close>

lemma run_limiter_spend:
  assumes "IsValid a" "level_ok t l" "sorted (t # map fst es)"
  shows "answers a (run_limiter es l) = spend (l_capacity l) (l_refill l) t (level t a l) (times_of a es)"
  using assms(2,3)
proof (induction es arbitrary: t l)
  case (Cons e es)
  obtain u ev where e: "e = (u, ev)" by (cases e)
  have tu: "t \<le> u" and sorted': "sorted (u # map fst es)" and later: "\<forall>x \<in> set (times_of a es). u \<le> x"
    using Cons.prems e by (auto simp: times_of_def)
  have rate: "0 \<le> l_refill l" using Cons.prems by (simp add: level_ok_def)
  note step = spend_later [OF tu later rate, of "l_capacity l" "level t a l", folded level_later [OF Cons.prems(1) tu]]
  show ?case
  proof (cases ev)
    case (Request b)
    show ?thesis
    proof (cases "IsValid b")
      case True
      note al = allow_level [OF True Cons.prems(1) tu]
      obtain ok l' where l': "allow u b l = (ok, l')" by (cases "allow u b l")
      have IH: "answers a (run_limiter es l') =
          spend (l_capacity l) (l_refill l) u (level u a l') (times_of a es)"
        using Cons.IH [of u l'] al l' sorted' by simp
      have lev: "level u a l' = (if b = a \<and> 1 \<le> level u a l then level u a l - 1 else level u a l)"
        using al(2) [of a] l' by auto
      show ?thesis
        using IH lev al(1) l' step level_later [OF Cons.prems(1) tu, of a] e Request
        by (auto simp: Let_def not_less)
    next
      case False
      then have "b \<noteq> a" using assms(1) by auto
      moreover have "answers a (run_limiter es l) = spend (l_capacity l) (l_refill l) u (level u a l) (times_of a es)"
        using Cons.IH [OF level_ok_later [OF Cons.prems(1) tu] sorted'] .
      ultimately show ?thesis using e Request False step by (simp add: allow_invalid)
    qed
  next
    case SweepAll
    then show ?thesis
      using e step Cons.IH [of u "sweepLimiter u l"] sweep_level [OF Cons.prems(1) tu] sorted' by simp
  qed
qed simp

lemma granted_Cons [simp]: "granted [] = 0" "granted (b # bs) = (if b then Suc (granted bs) else granted bs)"
  by (auto simp: granted_def)

lemma spend_bound:
  assumes "sorted (t # us @ [T])" "0 \<le> rate" "0 \<le> v"
  shows "of_nat (granted (spend cap rate t v us)) \<le> v + Seconds (T - t) * rate"
  using assms(1,3)
proof (induction us arbitrary: t v)
  case Nil
  then show ?case using assms(2) by (simp add: Seconds_nonneg)
next
  case (Cons u us)
  let ?w = "min cap (v + Seconds (u - t) * rate)"
  have tu: "0 \<le> Seconds (u - t) * rate"
    using Cons.prems assms(2) by (simp add: Seconds_nonneg)
  have uT: "0 \<le> Seconds (T - u) * rate"
    using Cons.prems assms(2) by (simp add: Seconds_nonneg)
  have split: "Seconds (T - t) = Seconds (u - t) + Seconds (T - u)"
    by (simp flip: Seconds_add)
  have sorted': "sorted (u # us @ [T])" using Cons.prems by simp
  show ?case
  proof (cases "?w < 1")
    case True
    have "0 \<le> ?w \<or> cap < 0" using tu Cons.prems(2) by auto
    then show ?thesis
    proof
      assume "0 \<le> ?w"
      then show ?thesis using Cons.IH [OF sorted', of ?w] True tu uT by (simp add: Let_def split algebra_simps min_le_iff_disj)
    next
      assume "cap < 0"
      then have "granted (spend cap rate u x us) = 0" for u x
        by (induction us arbitrary: u x) (auto simp: Let_def)
      then show ?thesis using True tu uT Cons.prems(2) by (simp add: Let_def split algebra_simps)
    qed
  next
    case False
    have w: "?w \<le> v + Seconds (u - t) * rate" by simp
    have "of_nat (granted (spend cap rate u (?w - 1) us)) \<le> ?w - 1 + Seconds (T - u) * rate"
      using Cons.IH [OF sorted', of "?w - 1"] False by linarith
    moreover have "v + Seconds (T - t) * rate = v + Seconds (u - t) * rate + Seconds (T - u) * rate"
      by (simp add: split algebra_simps)
    moreover have "spend cap rate t v (u # us) = True # spend cap rate u (?w - 1) us"
      using False by (simp add: Let_def)
    ultimately show ?thesis using w by simp
  qed
qed

text \<open>
  C30: Refinement and isolation of the limiter.  For every valid address, the answers a run of
  the limiter gives are those of a single number that refills at the configured rate up to
  the capacity and is spent one per request: they do not depend on the requests of other
  addresses nor on when \<open>sweep\<close> drops buckets.
\<close>

theorem limiter_isolates:
  assumes "IsValid a" and "0 \<le> capacity" and "0 < per" and "sorted (t # map fst es)"
  shows "answers a (run_limiter es (newLimiter capacity per)) =
    spend capacity (capacity / Seconds per) t capacity (times_of a es)"
proof -
  have "level_ok t (newLimiter capacity per)"
    using assms(2,3) by (simp add: level_ok_def newLimiter_def Seconds_nonneg)
  from run_limiter_spend [OF assms(1) this assms(4)] show ?thesis
    by (simp add: newLimiter_def level_def)
qed

theorem limiter_isolates_witness:
  "answers (V4 1) (run_limiter [(0, Request (V4 1)), (0, Request (V4 2)), (1, SweepAll), (1, Request (V4 1))]
      (newLimiter 1 Minute)) = [True, False]"
  using limiter_isolates [of "V4 1" 1 Minute 0 "[(0, Request (V4 1)), (0, Request (V4 2)), (1, SweepAll), (1, Request (V4 1))]"]
  by (simp add: IsValid_def duration_defs Seconds_def)

text \<open>
  The bound of the limiter.  In any run, however requests of all addresses and sweeps are
  interleaved, a valid address is granted at most the capacity plus what is refilled
  between the first and the last instant.
\<close>

lemma limiter_bound:
  assumes "IsValid a" and "0 \<le> capacity" and "0 < per" and "sorted (t # map fst es @ [T])"
  shows "of_nat (granted (answers a (run_limiter es (newLimiter capacity per)))) \<le>
    capacity + capacity * (of_int (T - t) / of_int per)"
proof -
  have ok: "level_ok t (newLimiter capacity per)"
    using assms(2,3) by (simp add: level_ok_def newLimiter_def Seconds_nonneg)
  have sorted': "sorted (t # map fst es)" using assms(4) by (auto simp: sorted_append)
  have "sorted (t # times_of a es @ [T])"
    using assms(4) sorted_filter [of fst es "\<lambda>e. snd e = Request a"]
    by (fastforce simp: times_of_def sorted_append)
  then have "of_nat (granted (spend capacity (capacity / Seconds per) t capacity (times_of a es)))
      \<le> capacity + Seconds (T - t) * (capacity / Seconds per)"
    using assms(2,3) by (intro spend_bound) (simp_all add: Seconds_nonneg)
  moreover have "Seconds (T - t) * (capacity / Seconds per) = capacity * (of_int (T - t) / of_int per)"
    by (simp add: Seconds_def Second_def)
  moreover have "answers a (run_limiter es (newLimiter capacity per)) =
      spend capacity (capacity / Seconds per) t capacity (times_of a es)"
    using run_limiter_spend [OF assms(1) ok sorted'] by (simp add: newLimiter_def level_def)
  ultimately show ?thesis by simp
qed

subsection \<open>The client address\<close>

lemma walkHops_split:
  "\<forall>h \<in> set hs. case ParseAddr (TrimSpace h) of None \<Rightarrow> True | Some a \<Rightarrow> trusts r a \<Longrightarrow>
   walkHops r peer (hs @ ks) = walkHops r peer ks"
  by (induction hs) (auto split: option.splits)

lemma SplitByte_nonempty [simp]: "SplitByte c s \<noteq> []"
  by (induction s) (auto split: list.splits)

lemma SplitByte_append:
  "SplitByte c (s @ c # t) = SplitByte c s @ SplitByte c t"
proof (induction s)
  case (Cons x s)
  show ?case
    using Cons SplitByte_nonempty [of c s] by (cases "SplitByte c s") auto
qed simp

lemma SplitByte_none: "c \<notin> set s \<Longrightarrow> SplitByte c s = [s]"
  by (induction s) auto

text \<open>A header value as the proxies build it: what they were given, then one hop each.\<close>

definition hop_list :: "string \<Rightarrow> string list \<Rightarrow> string" where
  "hop_list given hops = given @ concat (map (\<lambda>p. '','' @ p) hops)"

lemma SplitByte_hop_list:
  "\<forall>p \<in> set hops. CHR '','' \<notin> set p \<Longrightarrow>
   SplitByte (CHR '','') (hop_list given hops) = SplitByte (CHR '','') given @ hops"
proof (induction hops rule: rev_induct)
  case (snoc p ps)
  then show ?case
    using SplitByte_append [of "CHR '',''" "hop_list given ps" p] by (simp add: hop_list_def SplitByte_none)
qed (simp add: hop_list_def)

definition proxy_hop :: "clientIPResolver \<Rightarrow> string \<Rightarrow> bool" where
  "proxy_hop r p \<longleftrightarrow>
     CHR '','' \<notin> set p \<and> (case ParseAddr (TrimSpace p) of None \<Rightarrow> False | Some b \<Rightarrow> trusts r b)"


definition sample_resolver :: clientIPResolver where
  "sample_resolver = \<lparr>r_trusted = [\<lparr>p_ip = V4 0x0a000000, p_bits = 8\<rparr>], r_realIPHeader = []\<rparr>"

lemma TrimSpace_id: "space_prefix s = None \<Longrightarrow> space_suffix s = None \<Longrightarrow> TrimSpace s = s"
  by (simp add: TrimSpace_def trim_left_space.simps [of s] trim_right_space.simps [of s])

lemmas addr_eval = ParseAddr_def parse_v4_fields_def parse_octet_def is_digit_def word_of_bytes_def

lemma sample_trim: "TrimSpace ''8.8.8.8'' = ''8.8.8.8''" "TrimSpace ''10.0.0.2'' = ''10.0.0.2''"
  by (rule TrimSpace_id; code_simp)+

lemma sample_parse:
  "ParseAddr ''8.8.8.8'' = Some (V4 0x08080808)" "ParseAddr ''10.0.0.2'' = Some (V4 0x0a000002)"
  "ParseAddr ''10.0.0.1'' = Some (V4 0x0a000001)"
  by (simp_all add: addr_eval)

lemma sample_peer: "peerAddr ''10.0.0.1:80'' = V4 0x0a000001"
  by (simp add: peerAddr_def SplitHost_def after_last_def sample_parse Unmap_def)

lemma sample_trusts:
  "trusts sample_resolver (V4 0x0a000001)" "trusts sample_resolver (V4 0x0a000002)"
  "\<not> trusts sample_resolver (V4 0x08080808)"
  by (simp_all add: trusts_def sample_resolver_def PrefixContains_def)


end
