(* ===== verification/Main_Cmd.thy ===== *)
theory Main_Cmd
  imports Http_Routes
begin

text \<open>
  The command: options from the environment, the key that hashes uploader addresses, how the
  parts are put together, and the process as a step relation: starting or refusing to start,
  requests, ticks of the sweeper, the passing of time, what the host does to the disk, the
  signal, the bounded shutdown and being down (src/cmd/securefile/main.go).
\<close>

subsection \<open>Environment\<close>

type_synonym environment = "string \<Rightarrow> string option"

definition env :: "environment \<Rightarrow> string \<Rightarrow> string \<Rightarrow> string" where
  "env e key fallback = (case e key of Some v \<Rightarrow> v | None \<Rightarrow> fallback)"

definition envInt64 :: "environment \<Rightarrow> string \<Rightarrow> int \<Rightarrow> int" where
  "envInt64 e key fallback =
     (case e key of
        None \<Rightarrow> fallback
      | Some v \<Rightarrow> (case ParseInt v of None \<Rightarrow> fallback | Some n \<Rightarrow> n))"

definition ParseBool :: "string \<Rightarrow> bool option" where
  "ParseBool s =
     (if s \<in> set [''1'', ''t'', ''T'', ''true'', ''TRUE'', ''True''] then Some True
      else if s \<in> set [''0'', ''f'', ''F'', ''false'', ''FALSE'', ''False''] then Some False
      else None)"

definition envBool :: "environment \<Rightarrow> string \<Rightarrow> bool \<Rightarrow> bool" where
  "envBool e key fallback =
     (case e key of
        None \<Rightarrow> fallback
      | Some v \<Rightarrow> (case ParseBool v of None \<Rightarrow> fallback | Some b \<Rightarrow> b))"

text \<open>
  \<open>time.ParseDuration\<close>: a sequence of decimal numbers with units, in nanoseconds.  Fractions
  are computed in \<open>float64\<close>; \<open>round53\<close> is the quotient of two numbers rounded to 53 bits, in
  units of \<open>2^-120\<close>.
\<close>

fun leadingInt :: "nat \<Rightarrow> string \<Rightarrow> (nat \<times> string) option" where
  "leadingInt x [] = Some (x, [])"
| "leadingInt x (c # s) =
     (if \<not> is_digit c then Some (x, c # s)
      else if x > 2 ^ 63 div 10 then None
      else let y = 10 * x + (of_char c - 48) in if y > 2 ^ 63 then None else leadingInt y s)"

fun leadingFraction :: "nat \<Rightarrow> nat \<Rightarrow> bool \<Rightarrow> string \<Rightarrow> nat \<times> nat \<times> string" where
  "leadingFraction x scale over [] = (x, scale, [])"
| "leadingFraction x scale over (c # s) =
     (if \<not> is_digit c then (x, scale, c # s)
      else if over \<or> x > (2 ^ 63 - 1) div 10 then leadingFraction x scale True s
      else let y = 10 * x + (of_char c - 48) in
        if y > 2 ^ 63 then leadingFraction x scale True s else leadingFraction y (10 * scale) False s)"

definition unitMap :: "nat table" where
  "unitMap = [(''ns'', 1), (''us'', 1000), (str [194, 181, 115], 1000), (str [206, 188, 115], 1000),
     (''ms'', 1000000), (''s'', nat Second), (''m'', nat Minute), (''h'', nat Hour)]"

definition round53 :: "nat \<Rightarrow> nat \<Rightarrow> nat" where
  "round53 a b = (let k = excess_bits (a * 2 ^ 120 div b) in div_even (a * 2 ^ 120) (b * 2 ^ k) * 2 ^ k)"

definition fraction :: "nat \<Rightarrow> nat \<Rightarrow> nat \<Rightarrow> nat" where
  "fraction f unit scale = round53 (float64 f * round53 unit scale) (2 ^ 120) div 2 ^ 120"

text \<open>One number with its unit, and what follows it.\<close>

definition durationPart :: "string \<Rightarrow> (nat \<times> string) option" where
  "durationPart s =
     (case leadingInt 0 s of
        None \<Rightarrow> None
      | Some (v, r1) \<Rightarrow>
          let pre = (length r1 \<noteq> length s);
              (f, scale, r2) = (if r1 \<noteq> [] \<and> hd r1 = CHR ''.'' then leadingFraction 0 1 False (tl r1) else (0, 1, r1));
              post = (r1 \<noteq> [] \<and> hd r1 = CHR ''.'' \<and> length r2 \<noteq> length (tl r1));
              u = takeWhile (\<lambda>c. c \<noteq> CHR ''.'' \<and> \<not> is_digit c) r2
          in if \<not> pre \<and> \<not> post then None
             else case map_of unitMap u of
               None \<Rightarrow> None
             | Some unit \<Rightarrow>
                 if v > 2 ^ 63 div unit then None
                 else let w = v * unit + (if f > 0 then fraction f unit scale else 0) in
                   if w > 2 ^ 63 then None else Some (w, drop (length u) r2))"

lemma leadingInt_le: "leadingInt x s = Some (y, r) \<Longrightarrow> length r \<le> length s"
  by (induction s arbitrary: x) (auto simp: Let_def le_SucI split: if_splits)

lemma leadingFraction_le: "leadingFraction x sc ov s = (y, sc', r) \<Longrightarrow> length r \<le> length s"
  by (induction s arbitrary: x sc ov) (auto simp: Let_def le_SucI split: if_splits)

lemma durationPart_shorter: "durationPart s = Some (w, r) \<Longrightarrow> length r < length s"
proof -
  assume a: "durationPart s = Some (w, r)"
  then obtain v r1 where r1: "leadingInt 0 s = Some (v, r1)" by (auto simp: durationPart_def split: option.splits)
  obtain f sc r2 where r2: "(if r1 \<noteq> [] \<and> hd r1 = CHR ''.'' then leadingFraction 0 1 False (tl r1) else (0, 1, r1)) = (f, sc, r2)"
    by (metis prod_cases3)
  let ?u = "takeWhile (\<lambda>c. c \<noteq> CHR ''.'' \<and> \<not> is_digit c) r2"
  have "map_of unitMap ?u \<noteq> None" "r = drop (length ?u) r2"
    using a r1 r2 by (auto simp: durationPart_def Let_def split: option.splits if_splits)
  then have "?u \<noteq> []" "length r = length r2 - length ?u" by (auto simp: unitMap_def str_def)
  moreover have "length ?u \<le> length r2" by (rule length_takeWhile_le)
  moreover have "length r2 \<le> length r1"
    using r2 leadingFraction_le [of 0 1 False "tl r1" f sc r2] by (auto split: if_splits)
  ultimately show ?thesis using leadingInt_le [OF r1] by (cases ?u) auto
qed

function durationParts :: "nat \<Rightarrow> string \<Rightarrow> nat option" where
  "durationParts d s =
     (if s = [] then Some d
      else case durationPart s of
        None \<Rightarrow> None
      | Some (w, r) \<Rightarrow> if d + w > 2 ^ 63 then None else durationParts (d + w) r)"
  by pat_completeness auto
termination
  by (relation "measure (\<lambda>(d, s). length s)") (auto dest: durationPart_shorter)

declare durationParts.simps [simp del]

definition ParseDuration :: "string \<Rightarrow> int option" where
  "ParseDuration s0 =
     (let signed = (s0 \<noteq> [] \<and> hd s0 \<in> {CHR ''-'', CHR ''+''}); neg = (signed \<and> hd s0 = CHR ''-'');
          s = (if signed then tl s0 else s0)
      in if s = ''0'' then Some 0
         else if s = [] then None
         else case durationParts 0 s of
           None \<Rightarrow> None
         | Some d \<Rightarrow> if neg then Some (- int d) else if d > 2 ^ 63 - 1 then None else Some (int d))"

definition envDuration :: "environment \<Rightarrow> string \<Rightarrow> int \<Rightarrow> int" where
  "envDuration e key fallback =
     (case e key of
        None \<Rightarrow> fallback
      | Some v \<Rightarrow> (case ParseDuration v of None \<Rightarrow> fallback | Some d \<Rightarrow> d))"

definition splitList :: "string \<Rightarrow> string list" where
  "splitList s = filter (\<lambda>p. p \<noteq> []) (map TrimSpace (SplitByte (CHR '','') s))"

record options =
  o_addr :: string
  o_dataDir :: string
  o_baseURL :: string
  o_trustedProxies :: string
  o_realIPHeader :: string
  o_adsenseClient :: string
  o_adminUser :: string
  o_adminPass :: string
  o_reportDir :: string
  o_gaID :: string
  o_ipHashKeyFile :: string
  o_maxTotalBytes :: int
  o_maxFiles :: int
  o_maxDays :: int
  o_maxDownloads :: int
  o_diskQuota :: int
  o_sweepInterval :: int
  o_enableHSTS :: bool
  o_logLevel :: string

text \<open>The flags' defaults, then \<open>flag.Parse\<close>, which overrides them from the command line.\<close>

definition parseOptions ::
  "environment \<Rightarrow> (options \<Rightarrow> options) \<Rightarrow> options res" where
  "parseOptions e flags =
     (let o0 =
        \<lparr>o_addr = env e ''SECUREFILE_ADDR'' ''127.0.0.1:8080'',
         o_dataDir = env e ''SECUREFILE_DATA_DIR'' ''/var/lib/securefile'',
         o_baseURL = env e ''SECUREFILE_BASE_URL'' ''http://localhost:8080'',
         o_trustedProxies = env e ''SECUREFILE_TRUSTED_PROXIES'' [],
         o_realIPHeader = env e ''SECUREFILE_REAL_IP_HEADER'' [],
         o_adsenseClient = env e ''SECUREFILE_ADSENSE_CLIENT'' [],
         o_adminUser = env e ''SECUREFILE_ADMIN_USER'' [],
         o_adminPass = env e ''SECUREFILE_ADMIN_PASSWORD'' [],
         o_reportDir = env e ''SECUREFILE_REPORT_DIR'' [],
         o_gaID = env e ''SECUREFILE_GA_ID'' [],
         o_ipHashKeyFile = env e ''SECUREFILE_IP_HASH_KEY_FILE'' [],
         o_maxTotalBytes = envInt64 e ''SECUREFILE_MAX_TOTAL_BYTES'' (10 * 2 ^ 30),
         o_maxFiles = envInt64 e ''SECUREFILE_MAX_FILES'' 100,
         o_maxDays = envInt64 e ''SECUREFILE_MAX_DAYS'' 100,
         o_maxDownloads = envInt64 e ''SECUREFILE_MAX_DOWNLOADS'' 500,
         o_diskQuota = envInt64 e ''SECUREFILE_DISK_QUOTA_BYTES'' 0,
         o_sweepInterval = envDuration e ''SECUREFILE_SWEEP_INTERVAL'' (5 * Minute),
         o_enableHSTS = envBool e ''SECUREFILE_HSTS'' False,
         o_logLevel = env e ''SECUREFILE_LOG_LEVEL'' ''info''\<rparr>;
        opt = flags o0
      in if o_baseURL opt = [] then Inl (Other ''base-url must be set'') else Inr opt)"

subsection \<open>The key of the address hashes\<close>

datatype keyFile = KeyFile bytes | KeyMissing | KeyUnreadable

text \<open>
  The path is joined by the operating system's rules; here the file at that path is given, and
  whether it may be written.  The result is the key and the file afterwards.
\<close>

definition loadOrCreateKey :: "keyFile \<Rightarrow> bool \<Rightarrow> tape \<Rightarrow> bytes res \<times> keyFile \<times> tape" where
  "loadOrCreateKey f writable t =
     (case f of
        KeyFile raw \<Rightarrow>
          (case DecodeString (TrimSpace (string_of raw)) of
             None \<Rightarrow> (Inl (Other ''ip hash key is not 32+ bytes of hex''), f, t)
           | Some key \<Rightarrow>
               if length key < 32 then (Inl (Other ''ip hash key is not 32+ bytes of hex''), f, t)
               else (Inr key, f, t))
      | KeyUnreadable \<Rightarrow> (Inl (Other ''read ip hash key''), f, t)
      | KeyMissing \<Rightarrow>
          (case rand_Read 32 t of
             (Inl e, t') \<Rightarrow> (Inl e, f, t')
           | (Inr key, t') \<Rightarrow>
               if writable then (Inr key, KeyFile (bytes_of (EncodeToString key @ nl)), t')
               else (Inl (Other ''write ip hash key''), f, t')))"

subsection \<open>Starting up\<close>

text \<open>
  The configuration \<open>run\<close> builds: the service's limits and the transport's options.
\<close>

definition serviceConfig :: "options \<Rightarrow> Config" where
  "serviceConfig opt =
     (DefaultConfig (filepath_Join (o_dataDir opt) ''blobs''))
       \<lparr>MaxTotalBytes := o_maxTotalBytes opt, MaxFiles := o_maxFiles opt, MaxDays := o_maxDays opt,
        MaxDownloads := o_maxDownloads opt, DiskQuotaBytes := o_diskQuota opt\<rparr>"

definition serverOptions :: "options \<Rightarrow> bytes \<Rightarrow> Options" where
  "serverOptions opt ipKey =
     \<lparr>BaseURL = o_baseURL opt, TrustedProxies = splitList (o_trustedProxies opt),
      RealIPHeader = o_realIPHeader opt, IPHashKey = ipKey, EnableHSTS = o_enableHSTS opt,
      AdsenseClient = o_adsenseClient opt, AdminUser = o_adminUser opt, AdminPass = o_adminPass opt,
      ReportDir = o_reportDir opt, GAMeasurementID = o_gaID opt\<rparr>"

text \<open>
  What outlives the process: whether the data directory is usable, the columns of the database
  (\<open>None\<close>: no database yet) and its contents, the blobs, the key file, and the time.
\<close>

record disk =
  dk_usable :: bool
  dk_columns :: "string list option"
  dk_store :: store
  dk_blobs :: blobfs
  dk_key :: keyFile
  dk_now :: time

text \<open>
  \<open>run\<close> up to the moment it serves: an error with which the command exits, or the server; and
  the disk after the start.
\<close>

definition run ::
  "options \<Rightarrow> disk \<Rightarrow> tape \<Rightarrow> bool \<Rightarrow> assets \<Rightarrow> bool \<Rightarrow> server res \<times> disk" where
  "run opt d rnd writable assets templatesOK =
     (case OpenStore (dk_usable d) (dk_columns d) of
        Inl e \<Rightarrow> (Inl e, d)
      | Inr cols \<Rightarrow>
          let d1 = d\<lparr>dk_columns := Some cols\<rparr> in
          case New (dk_store d) (serviceConfig opt) (dk_blobs d) rnd (dk_now d) of
            Inl e \<Rightarrow> (Inl e, d1)
          | Inr svc \<Rightarrow>
              case loadOrCreateKey (dk_key d) writable (sv_rand svc) of
                (Inl e, k, _) \<Rightarrow> (Inl e, d1\<lparr>dk_key := k\<rparr>)
              | (Inr ipKey, k, t) \<Rightarrow>
                  (NewServer assets templatesOK (svc\<lparr>sv_rand := t\<rparr>) (serverOptions opt ipKey),
                   d1\<lparr>dk_key := k\<rparr>))"

text \<open>One turn of the sweep loop.\<close>

definition sweepTick :: "server \<Rightarrow> (SweepResult \<times> nat res) \<times> server" where
  "sweepTick s =
     (case Sweep (hs_svc s) of (res, svc) \<Rightarrow>
        let s' = s\<lparr>hs_svc := svc\<rparr> in ((res, SweepLegacy s'), s'))"

text \<open>
  The ticker of the sweep loop; \<open>time.NewTicker\<close> panics on an interval that is not positive,
  in a goroutine of its own, which ends the process.
\<close>

definition NewTicker :: "int \<Rightarrow> int res" where
  "NewTicker every = (if every \<le> 0 then Inl (Panic ''non-positive interval for NewTicker'') else Inr every)"

definition shutdownTimeout :: int where "shutdownTimeout = 30 * Second"

subsection \<open>The life of the process\<close>

text \<open>
  Down, with what is on the disk; up, with the server, the rest of the disk, and the time of the
  last sweep (\<open>None\<close> before the first); or shutting down until a deadline.
\<close>

datatype process = Down disk | Up server disk "time option" | Draining server disk time

text \<open>What the disk holds while the server runs or when it stops.\<close>

definition diskOf :: "server \<Rightarrow> disk \<Rightarrow> disk" where
  "diskOf s d = d\<lparr>dk_store := sv_st (hs_svc s), dk_blobs := sv_fs (hs_svc s), dk_now := sv_now (hs_svc s)\<rparr>"

abbreviation at_time :: "server \<Rightarrow> time \<Rightarrow> server" where
  "at_time s t \<equiv> s\<lparr>hs_svc := (hs_svc s)\<lparr>sv_now := t\<rparr>\<rparr>"

abbreviation on_host :: "server \<Rightarrow> blobfs \<Rightarrow> tape \<Rightarrow> server" where
  "on_host s fs rnd \<equiv> s\<lparr>hs_svc := (hs_svc s)\<lparr>sv_fs := fs, sv_rand := rnd\<rparr>\<rparr>"

text \<open>
  One constructor per event.  The sweep loop sweeps at once and then at every tick; a sweep
  that is due runs before the clock moves on.  A signal ends the sweep loop and lets requests
  finish for thirty seconds; a failing listener, the panic of the ticker, a crash or the end of
  the power stop the process between two steps of the service.  The host may touch blobs and
  refill the random source, but what it refuses to delete does not change.
\<close>

inductive process_step :: "codec \<Rightarrow> options \<Rightarrow> process \<Rightarrow> process \<Rightarrow> bool"
  for c opt where
  boot: "run opt d rnd writable assets tok = (Inr s, d') \<Longrightarrow> NewTicker (o_sweepInterval opt) = Inr every \<Longrightarrow>
    process_step c opt (Down d) (Up s d' None)"
| refuse: "run opt d rnd writable assets tok = (Inl e, d') \<Longrightarrow>
    process_step c opt (Down d) (Down d')"
| panic: "run opt d rnd writable assets tok = (Inr s, d') \<Longrightarrow> NewTicker (o_sweepInterval opt) = Inl e \<Longrightarrow>
    process_step c opt (Down d) (Down (diskOf s d'))"
| request: "process_step c opt (Up s d w) (Up (snd (ServeHTTP c r s)) d w)"
| sweep: "w = None \<or> w = Some (sv_now (hs_svc s) - o_sweepInterval opt) \<Longrightarrow>
    process_step c opt (Up s d w) (Up (snd (sweepTick s)) d (Some (sv_now (hs_svc s))))"
| limiters: "process_step c opt (Up s d w) (Up (sweepLimiters s) d w)"
| pass: "sv_now (hs_svc s) \<le> t \<Longrightarrow> t \<le> prev + o_sweepInterval opt \<Longrightarrow>
    process_step c opt (Up s d (Some prev)) (Up (at_time s t) d (Some prev))"
| host: "fs_denied fs = fs_denied (sv_fs (hs_svc s)) \<Longrightarrow>
    process_step c opt (Up s d w) (Up (on_host s fs rnd) d w)"
| signal: "process_step c opt (Up s d w) (Draining s d (sv_now (hs_svc s) + shutdownTimeout))"
| stop: "process_step c opt (Up s d w) (Down (diskOf s d))"
| finish: "process_step c opt (Draining s d t) (Draining (snd (ServeHTTP c r s)) d t)"
| drain: "sv_now (hs_svc s) \<le> t' \<Longrightarrow> t' \<le> t \<Longrightarrow>
    process_step c opt (Draining s d t) (Draining (at_time s t') d t)"
| drained: "process_step c opt (Draining s d t) (Down (diskOf s d))"
| off: "fs_denied fs = fs_denied (dk_blobs d) \<Longrightarrow> dk_now d \<le> t \<Longrightarrow>
    process_step c opt (Down d) (Down (d\<lparr>dk_blobs := fs, dk_now := t\<rparr>))"

inductive_cases process_step_cases [elim!]:
  "process_step c opt (Down d) p" "process_step c opt (Up s d w) p"
  "process_step c opt (Draining s d t) p"

end
