(* ===== verification/Server_Correct.thy ===== *)
theory Server_Correct
  imports Transfer_Correct Pages_Correct Limits_Correct Main_Cmd
begin

text \<open>
  What holds of every request: the service stays in a reachable state, the security headers
  survive every handler, and password guesses are bounded however they are interleaved with
  everything else.
\<close>

subsection \<open>Every request keeps the service reachable\<close>

definition keeps_http :: "kdf \<Rightarrow> interp \<Rightarrow> handler \<Rightarrow> bool" where
  "keeps_http K ip h \<longleftrightarrow> (\<forall>r w s. (svc_op K ip)\<^sup>*\<^sup>* (hs_svc s) (hs_svc (snd (h r w s))))"

lemma call_case:
  "hs_svc (snd (case call m s of (Inl e, s1) \<Rightarrow> (f e s1, s1) | (Inr x, s1) \<Rightarrow> (g x s1, s1))) = snd (m (hs_svc s))"
  "hs_svc (snd (case call n s of (Inl e, s1) \<Rightarrow> (f e s1, s1) | (Inr (x, y), s1) \<Rightarrow> (h x y s1, s1))) = snd (n (hs_svc s))"
  by (simp_all add: call_def split: prod.split sum.split)

lemma call_svc: "call m s = (v, s1) \<Longrightarrow> hs_svc s1 = snd (m (hs_svc s)) \<and> v = fst (m (hs_svc s))"
  by (auto simp: call_def split: prod.splits)

text \<open>A handler that makes one service call, or none.\<close>

lemma keeps_step:
  assumes "\<And>r w s. hs_svc (snd (h r w s)) = hs_svc s \<or> svc_op K ip (hs_svc s) (hs_svc (snd (h r w s)))"
  shows "keeps_http K ip h"
  unfolding keeps_http_def using assms by (metis r_into_rtranclp rtranclp.rtrancl_refl)

lemma keeps_page: "keeps_http K ip (page f)"
  by (simp add: keeps_http_def page_def)

lemma keeps_moved: "keeps_http K ip (moved d)"
  by (simp add: keeps_http_def moved_def)

lemma keeps_uploads:
  "keeps_http (cd_kdf c) (cd_interp c) (handleStartUpload c)"
  "keeps_http (cd_kdf c) ip (handleUploadState c)"
  "keeps_http (cd_kdf c) ip (handleFinishUpload c)"
  "keeps_http (cd_kdf c) ip (handleCancelUpload c)"
  "keeps_http (cd_kdf c) ip (handleWritePart c)"
proof -
  show "keeps_http (cd_kdf c) (cd_interp c) (handleStartUpload c)"
    by (rule keeps_step)
      (simp add: handleStartUpload_def Let_def call_case svc_op.start split: prod.split sum.split)
  show "keeps_http (cd_kdf c) ip (handleUploadState c)"
    by (rule keeps_step) (simp only: handleUploadState_def call_case svc_op.state simp_thms)
  show "keeps_http (cd_kdf c) ip (handleFinishUpload c)"
    by (rule keeps_step) (simp only: handleFinishUpload_def call_case svc_op.finish simp_thms)
  show "keeps_http (cd_kdf c) ip (handleCancelUpload c)"
    by (rule keeps_step) (simp only: handleCancelUpload_def call_case svc_op.cancel simp_thms)
  show "keeps_http (cd_kdf c) ip (handleWritePart c)"
  proof (rule keeps_step)
    fix r w s
    show "hs_svc (snd (handleWritePart c r w s)) = hs_svc s \<or>
        svc_op (cd_kdf c) ip (hs_svc s) (hs_svc (snd (handleWritePart c r w s)))"
      by (auto simp: handleWritePart_def split: option.split prod.split sum.split err.split
          dest!: call_svc intro: svc_op.write_parts)
  qed
qed

lemma keeps_downloads:
  "keeps_http K ip handlePeek"
  "keeps_http (cd_kdf c) ip (handleUnlock c)"
  "keeps_http K ip handleSessionFiles"
  "keeps_http K ip handleLock"
  "keeps_http K ip handleIssueTicket"
  "keeps_http K ip handleSessionDelete"
  "keeps_http K ip handleManageStatus"
  "keeps_http K ip handleManageDelete"
  "keeps_http K ip (handleReport c)"
  "keeps_http K ip handleReceive"
proof -
  show "keeps_http K ip handlePeek"
    by (rule keeps_step) (simp only: handlePeek_def call_case svc_op.peek simp_thms)
  show "keeps_http (cd_kdf c) ip (handleUnlock c)"
    by (rule keeps_step)
      (simp add: handleUnlock_def Let_def call_case svc_op.unlock split: prod.split sum.split)
  show "keeps_http K ip handleSessionFiles"
    by (rule keeps_step) (simp only: handleSessionFiles_def call_case svc_op.list_files simp_thms)
  show "keeps_http K ip handleLock"
    by (rule keeps_step) (simp add: handleLock_def svc_op.lock)
  show "keeps_http K ip handleIssueTicket"
    by (rule keeps_step) (simp add: handleIssueTicket_def Let_def call_case svc_op.issue split: sum.split)
  show "keeps_http K ip handleSessionDelete"
    by (rule keeps_step) (simp only: handleSessionDelete_def call_case svc_op.delete_by_session simp_thms)
  show "keeps_http K ip handleManageStatus"
    by (rule keeps_step) (simp only: handleManageStatus_def call_case svc_op.manage_status simp_thms)
  show "keeps_http K ip handleManageDelete"
    by (rule keeps_step) (simp only: handleManageDelete_def call_case svc_op.manage_delete simp_thms)
  show "keeps_http K ip (handleReport c)"
    by (rule keeps_step)
      (simp add: handleReport_def Let_def call_case svc_op.report split: prod.split option.split)
  show "keeps_http K ip handleReceive"
  proof (rule keeps_step)
    fix r w s
    show "hs_svc (snd (handleReceive r w s)) = hs_svc s \<or>
        svc_op K ip (hs_svc s) (hs_svc (snd (handleReceive r w s)))"
      by (auto simp: handleReceive_def Let_def split: option.split prod.split
          dest!: call_svc intro: svc_op.peek)
  qed
qed

text \<open>The two transfers make two service calls.\<close>

lemma keeps_transfers: "keeps_http K ip handleDownload" "keeps_http K ip handleArchive"
proof -
  show "keeps_http K ip handleDownload"
    unfolding keeps_http_def
  proof (intro allI)
    fix r :: request and w :: response and s :: server
    have stat: "(svc_op K ip)\<^sup>*\<^sup>* (hs_svc s) (hs_svc s1)" if "call (StatTicket i) s = (v, s1)" for i v s1
      using svc_op.stat_ticket [of K ip "hs_svc s" i] call_svc [OF that] by simp
    have step: "(svc_op K ip)\<^sup>*\<^sup>* (hs_svc s) (hs_svc s2)"
      if "call (StatTicket i) s = (v, s1)" "call (OpenTicket i off) s1 = (v', s2)" for i v s1 off v' s2
      using rtranclp.rtrancl_into_rtrancl [OF stat [OF that(1)] svc_op.open_ticket] call_svc [OF that(2)] by simp
    show "(svc_op K ip)\<^sup>*\<^sup>* (hs_svc s) (hs_svc (snd (handleDownload r w s)))"
      unfolding handleDownload_def Let_def
      by (auto split: prod.split sum.split intro: step stat)
  qed
  show "keeps_http K ip handleArchive"
    unfolding keeps_http_def
  proof (intro allI)
    fix r :: request and w :: response and s :: server
    have tk: "(svc_op K ip)\<^sup>*\<^sup>* (hs_svc s) (hs_svc s1)" if "call (TicketSession i) s = (v, s1)" for i v s1
      using svc_op.ticket_session [of K ip "hs_svc s" i] call_svc [OF that] by simp
    have ar: "(svc_op K ip)\<^sup>*\<^sup>* (hs_svc s) svc"
      if "call (TicketSession i) s = (v, s1)" "WriteArchive i (hs_svc s1) = (x, svc)" for i v s1 x svc
      using rtranclp.rtrancl_into_rtrancl [OF tk [OF that(1)] svc_op.archive, of i] that(2) by simp
    show "(svc_op K ip)\<^sup>*\<^sup>* (hs_svc s) (hs_svc (snd (handleArchive r w s)))"
      unfolding handleArchive_def Let_def
      by (auto split: prod.split sum.split intro: tk ar)
  qed
qed

lemma keeps_routes:
  "\<forall>(m, ps, h) \<in> set (routes c s). keeps_http (cd_kdf c) (cd_interp c) h"
  unfolding routes_def
  by (simp add: keeps_page keeps_moved keeps_uploads keeps_downloads keeps_transfers)

lemma keeps_mux: "keeps_http (cd_kdf c) (cd_interp c) (muxServe c)"
  unfolding keeps_http_def
proof (intro allI)
  fix r :: request and w :: response and s :: server
  have "(svc_op (cd_kdf c) (cd_interp c))\<^sup>*\<^sup>* (hs_svc s) (hs_svc (snd (h r' w s)))"
    if "find P (routes c s) = Some (m, ps, h)" for P m ps h r'
    using find_Some_D [OF that] keeps_routes [of c s] by (auto simp: keeps_http_def)
  then show "(svc_op (cd_kdf c) (cd_interp c))\<^sup>*\<^sup>* (hs_svc s) (hs_svc (snd (muxServe c r w s)))"
    by (auto simp: muxServe_def Let_def split: option.split)
qed

text \<open>A request runs operations of the service and changes it in no other way.\<close>

lemma ServeHTTP_ops:
  "(svc_op (cd_kdf c) (cd_interp c))\<^sup>*\<^sup>* (hs_svc s) (hs_svc (snd (ServeHTTP c r s)))"
  using keeps_mux [of c] by (auto simp: ServeHTTP_def keeps_http_def split: option.split)

lemma ops_reachable: "(svc_op K ip)\<^sup>*\<^sup>* s s' \<Longrightarrow> svc_reachable K ip s \<Longrightarrow> svc_reachable K ip s'"
  by (induction rule: rtranclp_induct) (auto intro: svc_reachable.step svc_step.op)

lemma ServeHTTP_reachable:
  "svc_reachable (cd_kdf c) (cd_interp c) (hs_svc s) \<Longrightarrow>
   svc_reachable (cd_kdf c) (cd_interp c) (hs_svc (snd (ServeHTTP c r s)))"
  by (rule ops_reachable [OF ServeHTTP_ops])

text \<open>
  The life of a server: it starts on an empty database, answers requests one after the other,
  sweeps, and time and the host go on.
\<close>

inductive http_reachable :: "codec \<Rightarrow> server \<Rightarrow> bool" for c where
  start: "run opt d rnd writable assets tok = (Inr s, d') \<Longrightarrow> dk_store d = empty_store \<Longrightarrow> http_reachable c s"
| request: "http_reachable c s \<Longrightarrow> http_reachable c (snd (ServeHTTP c r s))"
| sweep: "http_reachable c s \<Longrightarrow> http_reachable c (snd (sweepTick s))"
| limiters: "http_reachable c s \<Longrightarrow> http_reachable c (sweepLimiters s)"
| tick: "http_reachable c s \<Longrightarrow> sv_now (hs_svc s) \<le> t \<Longrightarrow>
    http_reachable c (s\<lparr>hs_svc := (hs_svc s)\<lparr>sv_now := t\<rparr>\<rparr>)"
| host: "http_reachable c s \<Longrightarrow>
    http_reachable c (s\<lparr>hs_svc := (hs_svc s)\<lparr>sv_fs := fs, sv_rand := rnd\<rparr>\<rparr>)"

lemma New_reachable:
  assumes "New empty_store cfg fs rnd now = Inr svc"
  shows "svc_reachable K ip (svc\<lparr>sv_rand := t\<rparr>)"
proof -
  have "svc_reachable K ip (svc\<lparr>sv_fs := sv_fs svc, sv_rand := t\<rparr>)"
    by (rule svc_reachable.step [OF svc_reachable.init [OF assms] svc_step.host])
  then show ?thesis by simp
qed

lemma run_reachable:
  assumes "run opt d rnd writable assets tok = (Inr s, d')" "dk_store d = empty_store"
  shows "svc_reachable K ip (hs_svc s)"
proof -
  obtain svc t where svc: "New empty_store (serviceConfig opt) (dk_blobs d) rnd (dk_now d) = Inr svc"
      "hs_svc s = svc\<lparr>sv_rand := t\<rparr>"
    using assms by (auto simp: run_def NewServer_def Let_def split: sum.splits prod.splits if_splits)
  then show ?thesis using New_reachable by simp
qed

lemma http_service_reachable: "http_reachable c s \<Longrightarrow> svc_reachable (cd_kdf c) (cd_interp c) (hs_svc s)"
proof (induction rule: http_reachable.induct)
  case (sweep s)
  then show ?case
    using svc_reachable.step [OF sweep.IH svc_step.op [OF svc_op.sweep]] by (auto simp: sweepTick_def Let_def split: prod.split)
qed (simp_all add: run_reachable ServeHTTP_reachable sweepLimiters_def Let_def
    svc_reachable.step [OF _ svc_step.tick] svc_reachable.step [OF _ svc_step.host])

text \<open>
  The invariant of the running server.  Whatever requests arrive, in any order and with
  any content, between sweeps, clock ticks and events on the host, the state of the service
  behind the transport is one its operations can reach: the database is consistent, published
  shares are complete, uploads belong to unpublished shares, and every download session
  refers to a share that exists.
\<close>

theorem requests_keep_invariant:
  assumes "http_reachable c s"
  shows "svc_reachable (cd_kdf c) (cd_interp c) (hs_svc s) \<and> store_ok (sv_st (hs_svc s)) \<and>
    (\<forall>f \<in> set (files (sv_st (hs_svc s))). \<forall>r \<in> set (drops (sv_st (hs_svc s))).
       dr_id r = f_DropID f \<and> dr_status r = StatusReady \<longrightarrow> Complete f) \<and>
    (\<forall>u \<in> set (upload_sessions (sv_st (hs_svc s))). \<forall>r \<in> set (drops (sv_st (hs_svc s))).
       dr_id r = s_drop_id u \<longrightarrow> dr_status r = StatusPending) \<and>
    (\<forall>(tok, x) \<in> set (sv_down (hs_svc s)).
       \<exists>r \<in> set (drops (sv_st (hs_svc s))). dr_id r = ss_dropID x \<and> dr_key r = ss_dropKey x)"
proof -
  have re: "svc_reachable (cd_kdf c) (cd_interp c) (hs_svc s)" by (rule http_service_reachable [OF assms])
  show ?thesis using re svc_ok_facts [OF svc_ok_reachable [OF re]] by blast
qed

definition sample_codec :: codec where
  "sample_codec = \<lparr>cd_form = (\<lambda>_. None), cd_scanQ = (\<lambda>_. None), cd_isPrint = (\<lambda>_. True), cd_static = (\<lambda>_ w. w), cd_reports = (\<lambda>_ w. w),
     cd_room = None, cd_kdf = sample_kdf, cd_interp = linear_interp\<rparr>"

text \<open>Embedded files with an empty message catalog.\<close>

definition sample_assets :: assets where
  "sample_assets = map (\<lambda>l. (''i18n/'' @ g_Code l @ ''.json'', bytes_of ''{}'')) Langs"

lemma sample_assets_load: "Load sample_assets = Inr (map (\<lambda>l. (g_Code l, [])) Langs)"
proof -
  have "WholeValue (bytes_of ''{}'') = Some (VObj [])" by code_simp
  then show ?thesis
    by (simp add: Load_def sample_assets_def Langs_def ReadFile_def)
qed

definition sample_opt :: options where
  "sample_opt = (case parseOptions (\<lambda>_. None) (\<lambda>y. y) of Inr x \<Rightarrow> x | Inl _ \<Rightarrow> undefined)"

definition sample_disk :: disk where
  "sample_disk = \<lparr>dk_usable = True, dk_columns = None, dk_store = empty_store,
     dk_blobs = \<lparr>fs_files = [], fs_dirs = [[]], fs_denied = []\<rparr>, dk_key = KeyMissing, dk_now = 0\<rparr>"

lemma sample_run:
  obtains s d where "run sample_opt sample_disk (replicate 64 0) True sample_assets True = (Inr s, d)"
    "o_sweepInterval sample_opt = 5 * Minute"
proof -
  have opt: "o_maxTotalBytes sample_opt = 10 * 2 ^ 30" "o_maxFiles sample_opt = 100" "o_maxDays sample_opt = 100"
      "o_maxDownloads sample_opt = 500" "o_diskQuota sample_opt = 0" "o_trustedProxies sample_opt = []"
      "o_dataDir sample_opt = ''/var/lib/securefile''" "o_sweepInterval sample_opt = 5 * Minute"
    by (simp_all add: sample_opt_def parseOptions_def env_def envInt64_def envDuration_def Let_def)
  have "filepath_Join a b \<noteq> []" if "a \<noteq> []" for a b using that by (simp add: filepath_Join_def Clean_def Let_def)
  then have cfg: "Validate (serviceConfig sample_opt) = None"
    by (simp add: serviceConfig_def DefaultConfig_def Validate_def opt duration_defs ChunkSize_def)
  obtain svc where svc: "New empty_store (serviceConfig sample_opt) (dk_blobs sample_disk) (replicate 64 0) 0 = Inr svc"
      "sv_rand svc = replicate 64 0"
    using cfg by (simp add: New_def sample_disk_def)
  have cols: "\<exists>cs. OpenStore True None = Inr cs" using OpenStore_columns [of None] by blast
  have "splitList [] = []" by (simp add: splitList_def)
  then have "\<exists>s d. run sample_opt sample_disk (replicate 64 0) True sample_assets True = (Inr s, d)"
    using cols svc opt sample_assets_load
    by (auto simp add: run_def sample_disk_def loadOrCreateKey_def rand_Read_zeros NewServer_def newClientIPResolver_def
        serverOptions_def randomToken_def)
  then show thesis using that opt(8) by blast
qed

lemma sample_running:
  obtains s where "http_reachable sample_codec s"
proof -
  obtain s d where "run sample_opt sample_disk (replicate 64 0) True sample_assets True = (Inr s, d)"
    by (rule sample_run)
  then have "http_reachable sample_codec s" by (rule http_reachable.start) (simp add: sample_disk_def)
  then show thesis by (rule that)
qed

theorem requests_keep_invariant_witness:
  "\<exists>s. http_reachable sample_codec s \<and> store_ok (sv_st (hs_svc s))"
  by (rule sample_running) (use requests_keep_invariant in blast)

subsection \<open>Password guesses\<close>

text \<open>
  The run of one limited endpoint among everything else the server does: before each request
  the service may be in any other state (other operations ran, time passed), and the limiters
  may be swept.  The run records the client address and the status of each answer.
\<close>

fun run_unlock :: "codec \<Rightarrow> (service \<times> request option) list \<Rightarrow> server \<Rightarrow> (time \<times> Addr \<times> int) list" where
  "run_unlock c [] s = []"
| "run_unlock c ((svc, None) # es) s = run_unlock c es (sweepLimiters (s\<lparr>hs_svc := svc\<rparr>))"
| "run_unlock c ((svc, Some r) # es) s =
     (case handleUnlock c r newResponse (s\<lparr>hs_svc := svc\<rparr>) of
        (w, s') \<Rightarrow> (sv_now svc, clientIP s r, rs_status w) # run_unlock c es s')"

definition limiter_event :: "server \<Rightarrow> service \<times> request option \<Rightarrow> time \<times> levent" where
  "limiter_event s e = (sv_now (fst e), case snd e of None \<Rightarrow> SweepAll | Some r \<Rightarrow> Request (clientIP s r))"

lemma fail_status: "rs_status (failJSON s r e w) \<noteq> 429"
  by (simp add: failJSON_def writeJSON_def statusFor_def)

lemma call_other: "call m s = (v, s1) \<Longrightarrow> s1 = s\<lparr>hs_svc := hs_svc s1\<rparr>"
  by (auto simp: call_def split: prod.splits)

lemma handleUnlock_limit:
  assumes "handleUnlock c r w s = (w', s')"
  shows "rs_status w' \<noteq> 429 \<longleftrightarrow> fst (allow (sv_now (hs_svc s)) (clientIP s r) (hs_unlock s))"
    and "hs_unlock s' = snd (allow (sv_now (hs_svc s)) (clientIP s r) (hs_unlock s))" "hs_ip s' = hs_ip s"
proof -
  obtain ok l where l: "allow (sv_now (hs_svc s)) (clientIP s r) (hs_unlock s) = (ok, l)" by fastforce
  have "(rs_status w' \<noteq> 429 \<longleftrightarrow> ok) \<and> hs_unlock s' = l \<and> hs_ip s' = hs_ip s"
  proof (cases "readJSON decodeUnlock r")
    case (Inl e)
    then show ?thesis using assms l
      by (auto simp: handleUnlock_def Let_def fail_status writeJSON_def split: if_splits)
  next
    case (Inr pw)
    obtain v s1 where c: "call (Unlock (cd_kdf c) (rq_value r ''key'') pw) (s\<lparr>hs_unlock := l\<rparr>) = (v, s1)" by fastforce
    have "hs_unlock s1 = l" "hs_ip s1 = hs_ip s" using call_other [OF c] by (metis server.select_convs server.simps server.surjective)+
    then show ?thesis using assms l Inr c
      by (cases v) (auto simp: handleUnlock_def Let_def fail_status writeJSON_def split: if_splits)
  qed
  then show "rs_status w' \<noteq> 429 \<longleftrightarrow> fst (allow (sv_now (hs_svc s)) (clientIP s r) (hs_unlock s))"
    "hs_unlock s' = snd (allow (sv_now (hs_svc s)) (clientIP s r) (hs_unlock s))" "hs_ip s' = hs_ip s"
    using l by simp_all
qed

lemma limiter_event_cong: "hs_ip s' = hs_ip s \<Longrightarrow> limiter_event s' = limiter_event s"
  by (auto simp: fun_eq_iff limiter_event_def clientIP_def split: option.split)

lemma run_unlock_limiter:
  "map (\<lambda>(t, a, st). (t, a, st \<noteq> 429)) (run_unlock c es s) = run_limiter (map (limiter_event s) es) (hs_unlock s)"
proof (induction c es s rule: run_unlock.induct)
  case (2 c svc es s)
  have "limiter_event (sweepLimiters (s\<lparr>hs_svc := svc\<rparr>)) = limiter_event s"
    by (rule limiter_event_cong) (simp add: sweepLimiters_def Let_def)
  then show ?case using 2 by (simp add: limiter_event_def sweepLimiters_def Let_def)
next
  case (3 c svc r es s)
  obtain w s' where h: "handleUnlock c r newResponse (s\<lparr>hs_svc := svc\<rparr>) = (w, s')" by fastforce
  note lim = handleUnlock_limit [OF h]
  have ip: "clientIP (s\<lparr>hs_svc := svc\<rparr>) r = clientIP s r" by (simp add: clientIP_def)
  have ev: "limiter_event s' = limiter_event s" using lim(3) by (intro limiter_event_cong) simp
  obtain ok l where l: "allow (sv_now svc) (clientIP s r) (hs_unlock s) = (ok, l)" by fastforce
  show ?case using 3 [OF h [symmetric]] h lim ip ev l by (simp add: limiter_event_def)
qed simp

lemma granted_run:
  "granted (answers a (map (\<lambda>(t, b, st). (t, b, st \<noteq> 429)) xs)) =
   length (filter (\<lambda>(t, b, st). b = a \<and> st \<noteq> (429 :: int)) xs)"
proof (induction xs)
  case (Cons x xs)
  obtain t b st where "x = (t, b, st)" by (cases x)
  with Cons show ?case by (cases "b = a") simp_all
qed simp

text \<open>
  C29: Password guessing is bounded.  Whatever else the server does in between (other requests,
  sweeps of the limiters, restarts of nothing but the service state), the requests to unlock a
  share that come from one valid client address and are not refused with 429 number at most ten
  plus ten per minute elapsed.
\<close>

theorem password_guesses_bounded:
  assumes "IsValid a" and "hs_unlock s = newLimiter 10 Minute"
    and "sorted (t # map (\<lambda>(svc, r). sv_now svc) es @ [t'])"
  shows "of_nat (length (filter (\<lambda>(u, b, st). b = a \<and> st \<noteq> 429) (run_unlock c es s))) \<le>
    (10 :: rat) + 10 * (of_int (t' - t) / of_int Minute)"
proof -
  have times: "map fst (map (limiter_event s) es) = map (\<lambda>(svc, r). sv_now svc) es"
    by (induction es) (auto simp: limiter_event_def)
  have "of_nat (granted (answers a (run_limiter (map (limiter_event s) es) (newLimiter 10 Minute)))) \<le>
      (10 :: rat) + 10 * (of_int (t' - t) / of_int Minute)"
  proof (rule limiter_bound)
    show "sorted (t # map fst (map (limiter_event s) es) @ [t'])" unfolding times by (rule assms(3))
  qed (use assms(1) in \<open>simp_all add: duration_defs\<close>)
  then show ?thesis
    using run_unlock_limiter [of c es s] granted_run [of a "run_unlock c es s"] assms(2) by simp
qed

theorem password_guesses_bounded_witness:
  "length (filter (\<lambda>(u, b, st). b = V4 0xc0000201 \<and> st \<noteq> 429)
     (run_unlock sample_codec (replicate 30 (sample_service, Some (sample_get [] []))) (sample_server sample_service))) \<le> 10"
proof -
  let ?es = "replicate 30 (sample_service, Some (sample_get [] []))"
  let ?t = "sv_now sample_service"
  have "of_nat (length (filter (\<lambda>(u, b, st). b = V4 0xc0000201 \<and> st \<noteq> 429)
      (run_unlock sample_codec ?es (sample_server sample_service)))) \<le> (10 :: rat) + 10 * (of_int (?t - ?t) / of_int Minute)"
  proof (rule password_guesses_bounded)
    show "sorted (?t # map (\<lambda>(svc, r). sv_now svc) ?es @ [?t])" by (simp add: sorted_append)
  qed (simp_all add: IsValid_def sample_server_def)
  then show ?thesis by simp
qed

subsection \<open>Security headers\<close>

text \<open>The headers that no handler touches, and those of a response.\<close>

definition frame_keys :: "string list" where
  "frame_keys = [''X-Frame-Options'', ''Referrer-Policy'', ''Permissions-Policy'', ''Cross-Origin-Opener-Policy'',
     ''Cross-Origin-Resource-Policy'', ''Strict-Transport-Security'']"

definition CSP :: string where "CSP = ''Content-Security-Policy''"

definition kept :: "response \<Rightarrow> response \<Rightarrow> bool" where
  "kept w w' \<longleftrightarrow> (\<forall>k \<in> set frame_keys. hdr k w' = hdr k w) \<and>
     (hdr ''X-Content-Type-Options'' w = Some ''nosniff'' \<longrightarrow> hdr ''X-Content-Type-Options'' w' = Some ''nosniff'')"

lemma CSP_neq [simp]: "CSP \<noteq> ''Content-Range''" "CSP \<noteq> ''Cache-Control''" "CSP \<noteq> ''Content-Type''"
  "CSP \<noteq> ''Content-Disposition''" "CSP \<noteq> ''X-Content-Type-Options''"
  "''Content-Range'' \<noteq> CSP" "''Content-Range'' \<notin> set frame_keys" "''Content-Range'' \<noteq> ''X-Content-Type-Options''"
  by (simp_all add: CSP_def frame_keys_def)

lemma kept_refl [simp]: "kept w w"
  by (simp add: kept_def)

lemma kept_trans: "kept w w1 \<Longrightarrow> kept w1 w2 \<Longrightarrow> kept w w2"
  by (simp add: kept_def)

lemma kept_Set [simp]:
  "j \<notin> set frame_keys \<Longrightarrow> j \<noteq> ''X-Content-Type-Options'' \<Longrightarrow> kept w (SetHeader j v w') = kept w w'"
  "j \<notin> set frame_keys \<Longrightarrow> j \<noteq> ''X-Content-Type-Options'' \<Longrightarrow> kept w (DelHeader j w') = kept w w'"
  "kept w w' \<Longrightarrow> kept w (SetHeader ''X-Content-Type-Options'' ''nosniff'' w')"
  "kept w (respond st b w') = kept w w'" "kept w (w'\<lparr>rs_body := b\<rparr>) = kept w w'"
  "kept w (w'\<lparr>rs_cookies := ck\<rparr>) = kept w w'"
  by (auto simp: kept_def frame_keys_def)

text \<open>
  A handler is guarded when it keeps those headers and either keeps the content policy too or,
  with advertising or analytics configured, answers with one of the listed pages under the
  policy for advertisements.
\<close>

definition ad_pages :: "string list" where
  "ad_pages = [''index.html'', ''about.html'', ''privacy.html'', ''terms.html'', ''faq.html'', ''guide.html'',
     ''abuse.html'', ''download.html'']"

definition ads_on :: "Options \<Rightarrow> bool" where
  "ads_on opt \<longleftrightarrow> AdsenseClient opt \<noteq> [] \<or> GAMeasurementID opt \<noteq> []"

definition guarded_response :: "Options \<Rightarrow> response \<Rightarrow> response \<Rightarrow> bool" where
  "guarded_response opt w w' \<longleftrightarrow> kept w w' \<and>
     (hdr CSP w' = hdr CSP w \<or>
      ads_on opt \<and> hdr CSP w' = Some adsCSP \<and> (\<exists>n d. rs_body w' = Page n d \<and> n \<in> set ad_pages))"

definition guarded :: "handler \<Rightarrow> bool" where
  "guarded h \<longleftrightarrow> (\<forall>r w s. hs_legacy s = None \<longrightarrow> guarded_response (hs_opt s) w (fst (h r w s)))"

lemma plain_simps [simp]:
  "kept w (writeJSON st v w') = kept w w'" "hdr CSP (writeJSON st v w') = hdr CSP w'"
  "kept w (failJSON s r e w') = kept w w'" "hdr CSP (failJSON s r e w') = hdr CSP w'"
  "kept w (render n st d w') = kept w w'" "hdr CSP (render n st d w') = hdr CSP w'"
  "kept w (failPage s r e w') = kept w w'" "hdr CSP (failPage s r e w') = hdr CSP w'"
  "kept w (Redirect u st w') = kept w w'" "hdr CSP (Redirect u st w') = hdr CSP w'"
  "rs_body (render n st d w') = Page n d"
  by (simp_all add: writeJSON_def failJSON_def render_def failPage_def Redirect_def CSP_def frame_keys_def
      split: prod.split)

lemma plain_error [simp]: "kept w w' \<Longrightarrow> kept w (httpError m st w')" "hdr CSP (httpError m st w') = hdr CSP w'"
  by (simp_all add: httpError_def CSP_def frame_keys_def)

lemma kept_ads [simp]: "kept w (allowAdsCSP opt w') = kept w w'"
  by (simp add: allowAdsCSP_def frame_keys_def)

lemma ads_csp: "hdr CSP (allowAdsCSP opt w) = (if ads_on opt then Some adsCSP else hdr CSP w)"
  by (auto simp: allowAdsCSP_def ads_on_def CSP_def)

text \<open>A handler that never touches the policy.\<close>

lemma guarded_plain:
  assumes "\<And>r w s. kept w (fst (h r w s)) \<and> hdr CSP (fst (h r w s)) = hdr CSP w"
  shows "guarded h"
  using assms by (simp add: guarded_def guarded_response_def)

lemma guarded_json:
  "guarded (handleStartUpload c)" "guarded (handleUploadState c)" "guarded (handleFinishUpload c)"
  "guarded (handleCancelUpload c)" "guarded handlePeek" "guarded (handleUnlock c)" "guarded handleSessionFiles"
  "guarded handleLock" "guarded handleIssueTicket" "guarded handleSessionDelete" "guarded handleManageStatus"
  "guarded handleManageDelete" "guarded (handleReport c)" "guarded (moved d)" "guarded (page handleStatus)"
  "guarded (page handleShortLink)" "guarded (page (handleBareKey c))"
  by (rule guarded_plain, simp add: handleStartUpload_def handleUploadState_def handleFinishUpload_def
      handleCancelUpload_def handlePeek_def handleUnlock_def handleSessionFiles_def handleLock_def
      handleIssueTicket_def handleSessionDelete_def handleManageStatus_def handleManageDelete_def
      handleReport_def moved_def page_def handleStatus_def handleShortLink_def handleBareKey_def Let_def
      CSP_def [symmetric] split: prod.split sum.split option.split)+

lemma guarded_texts:
  "guarded (page handleI18nJS)" "guarded (page handleRobots)" "guarded (page handleSitemap)"
  "guarded (page (handleManifest c))" "guarded (page handleHealthz)" "guarded (page handleManagePage)"
  by (rule guarded_plain, simp add: page_def handleI18nJS_def handleRobots_def handleSitemap_def handleManifest_def
      handleHealthz_def handleManagePage_def Let_def frame_keys_def)+

lemma guarded_write_part: "guarded (handleWritePart c)"
proof (rule guarded_plain)
  fix r w s
  have set: "kept w (SetHeader ''Upload-Offset'' v w) \<and> hdr CSP (SetHeader ''Upload-Offset'' v w) = hdr CSP w" for v
    by (simp add: frame_keys_def CSP_def)
  show "kept w (fst (handleWritePart c r w s)) \<and> hdr CSP (fst (handleWritePart c r w s)) = hdr CSP w"
    using set by (auto simp: handleWritePart_def split: option.split prod.split sum.split err.split)
qed

lemma transfer_headers:
  "kept w (downloadHeaders m n w)" "hdr CSP (downloadHeaders m n w) = hdr CSP w"
  by (simp_all add: downloadHeaders_def CSP_def frame_keys_def)

lemma guarded_transfers: "guarded handleDownload" "guarded handleArchive"
proof -
  have range: "kept w (SetHeader ''Content-Range'' v w') = kept w w'" "hdr CSP (SetHeader ''Content-Range'' v w') = hdr CSP w'"
    for v w w' by (simp_all add: frame_keys_def CSP_def)
  show "guarded handleDownload"
    by (rule guarded_plain)
      (simp add: handleDownload_def Let_def transfer_headers range split: prod.split sum.split)
  show "guarded handleArchive"
    by (rule guarded_plain)
      (auto simp: handleArchive_def Let_def frame_keys_def split: prod.split sum.split)
qed

lemma guarded_ads:
  assumes "n \<in> set ad_pages"
  shows "guarded_response opt w (render n st d (allowAdsCSP opt w))"
  using assms by (simp add: guarded_response_def ads_csp)

lemma guarded_redirect [simp]: "guarded_response opt w (Redirect u st w)"
  by (simp add: guarded_response_def)

lemma guarded_pages:
  "guarded (page handleIndex)" "n \<in> set ad_pages \<Longrightarrow> guarded (page (handleStatic n tk dk))"
  "guarded (page handleFAQ)" "guarded (page handleGuide)" "guarded (page handleAbuse)" "guarded handleReceive"
proof -
  have total: "(featureList c l = None) = False" "(faqItems c l = None) = False" "(howSteps c l = None) = False" for c l
    using feat.returns [of 1 c l] faq.returns [of 1 c l] guide.returns [of 1 c l]
    by (auto simp: featureList_def faqItems_def howSteps_def)
  show "guarded (page handleIndex)"
    by (auto simp: total guarded_def page_def handleIndex_def Let_def ad_pages_def intro!: guarded_ads split: option.split)
  show "guarded (page (handleStatic n tk dk))" if "n \<in> set ad_pages"
    using that by (auto simp: guarded_def page_def handleStatic_def Let_def intro!: guarded_ads)
  show "guarded (page handleFAQ)"
    by (auto simp: total guarded_def page_def handleFAQ_def gatedContent_def Let_def ad_pages_def
        intro!: guarded_ads split: option.split)
  show "guarded (page handleGuide)"
    by (auto simp: total guarded_def page_def handleGuide_def gatedContent_def Let_def ad_pages_def
        intro!: guarded_ads split: option.split)
  show "guarded (page handleAbuse)"
    unfolding guarded_def page_def handleAbuse_def Let_def fst_conv
    by (intro allI impI guarded_ads) (simp add: ad_pages_def)
  have store: "kept w (SetHeader ''Cache-Control'' ''no-store'' w')  = kept w w'"
    "hdr CSP (SetHeader ''Cache-Control'' ''no-store'' w') = hdr CSP w'" for w w'
    by (simp_all add: frame_keys_def CSP_def)
  show "guarded handleReceive"
    unfolding guarded_def
  proof (intro allI impI)
    fix r :: request and w :: response and s :: server
    assume leg: "hs_legacy s = None"
    have other: "hs_legacy s1 = None \<and> hs_opt s1 = hs_opt s" if "call m s = (v, s1)" for m :: "DropInfo act" and v s1
      using call_other [OF that] leg by (metis server.select_convs(2,3) server.simps server.surjective)
    show "guarded_response (hs_opt s) w (fst (handleReceive r w s))"
      by (auto simp: handleReceive_def Let_def legacyLive_def handleDownloadPage_def guarded_response_def store ads_csp
          ad_pages_def split: option.split prod.split dest!: other)
  qed
qed

text \<open>What is relied on of the file servers: they leave those headers alone.\<close>

definition file_servers_ok :: "codec \<Rightarrow> bool" where
  "file_servers_ok c \<longleftrightarrow> (\<forall>n w. kept w (cd_static c n w) \<and> hdr CSP (cd_static c n w) = hdr CSP w \<and> kept w (cd_reports c n w))"

lemma guarded_routes:
  assumes "file_servers_ok c"
  shows "\<forall>(m, ps, h) \<in> set (routes c s).
    guarded h \<or> (ReportDir (hs_opt s) \<noteq> [] \<and> ps = [Lit ''report'', Rest] \<and> (\<forall>r w s. kept w (fst (h r w s))))"
proof -
  have static: "guarded (page (\<lambda>r w s. cacheStatic (cd_static c) (rq_value r []) w))"
  proof (rule guarded_plain)
    fix r w s
    have "kept w (SetHeader ''Cache-Control'' ''public, max-age=60'' w) \<and>
        hdr CSP (SetHeader ''Cache-Control'' ''public, max-age=60'' w) = hdr CSP w"
      by (simp add: frame_keys_def CSP_def)
    then show "kept w (fst (page (\<lambda>r w s. cacheStatic (cd_static c) (rq_value r []) w) r w s)) \<and>
        hdr CSP (fst (page (\<lambda>r w s. cacheStatic (cd_static c) (rq_value r []) w) r w s)) = hdr CSP w"
      using assms kept_trans by (auto simp: page_def cacheStatic_def file_servers_ok_def)
  qed
  have report: "kept w (fst (page (\<lambda>r w s. reportFiles (cd_reports c) (rq_value r []) w) r w s))" for r w s
  proof -
    have "kept w (SetHeader ''Content-Disposition'' ''inline'' (SetHeader ''X-Content-Type-Options'' ''nosniff''
        (SetHeader ''Cache-Control'' ''public, max-age=3600'' (DelHeader ''Content-Security-Policy'' w))))"
      by (simp add: frame_keys_def)
    then show ?thesis
      using assms kept_trans by (auto simp: page_def reportFiles_def file_servers_ok_def)
  qed
  show ?thesis
    unfolding routes_def
    by (simp add: static report guarded_json guarded_texts guarded_write_part guarded_transfers guarded_pages ad_pages_def)
qed

lemma security_headers:
  "hdr ''X-Frame-Options'' (securityHeaders opt w) = Some ''DENY''"
  "hdr ''Referrer-Policy'' (securityHeaders opt w) = Some ''no-referrer''"
  "hdr ''X-Content-Type-Options'' (securityHeaders opt w) = Some ''nosniff''"
  "EnableHSTS opt \<Longrightarrow> hdr ''Strict-Transport-Security'' (securityHeaders opt w) = Some ''max-age=31536000; includeSubDomains''"
  "hdr CSP (securityHeaders opt w) = Some strictCSP"
  by (simp_all add: securityHeaders_def Let_def CSP_def)

lemma match_report: "match_segs [Lit ''report'', Rest] segs \<noteq> None \<Longrightarrow> hd segs = ''report''"
  by (cases segs) (auto split: if_splits)

lemma mux_guarded:
  assumes "file_servers_ok c" "hs_legacy s = None"
  shows "guarded_response (hs_opt s) w (fst (muxServe c r w s)) \<or>
    ReportDir (hs_opt s) \<noteq> [] \<and> hd (segments (rq_path r)) = ''report'' \<and> kept w (fst (muxServe c r w s))"
proof (cases "cleanPath (rq_path r) = rq_path r")
  case False
  then show ?thesis by (simp add: muxServe_def Let_def)
next
  case True
  let ?P = "\<lambda>(m, ps, h). method_ok m (rq_method r) \<and> match_segs ps (segments (rq_path r)) \<noteq> None"
  show ?thesis
  proof (cases "find ?P (routes c s)")
    case None
    have "kept w (httpError m st w)" for m st by simp
    with None True show ?thesis by (simp add: muxServe_def Let_def guarded_response_def)
  next
    case (Some e)
    obtain m ps h where e: "e = (m, ps, h)" by (cases e)
    have mem: "(m, ps, h) \<in> set (routes c s)" "match_segs ps (segments (rq_path r)) \<noteq> None"
      using find_Some_D [OF Some] e by auto
    obtain r' where eq: "muxServe c r w s = h r' w s"
      using Some True e by (simp add: muxServe_def Let_def)
    have "guarded h \<or> (ReportDir (hs_opt s) \<noteq> [] \<and> ps = [Lit ''report'', Rest] \<and> (\<forall>r w s. kept w (fst (h r w s))))"
      using guarded_routes [OF assms(1), of s] mem(1) by fastforce
    then show ?thesis
      using assms(2) mem(2) match_report by (auto simp: eq guarded_def)
  qed
qed



text \<open>
  The download page itself is one of those pages: with advertising configured, the page that
  carries the share key is sent under the policy that admits third-party scripts.
\<close>

lemma receive_page_admits_ads:
  assumes "rq_cookie r dlCookie = Some key" "key \<noteq> []" "hs_legacy s = None" "AdsenseClient (hs_opt s) \<noteq> []"
  shows "\<exists>d. rs_body (fst (handleReceive r w s)) = Page ''download.html'' d \<and> pg_Key d = key \<and>
    hdr CSP (fst (handleReceive r w s)) = Some adsCSP"
proof -
  obtain v s1 where c: "call (Peek key) s = (v, s1)" by fastforce
  have "hs_legacy s1 = None" "hs_opt s1 = hs_opt s"
    using call_other [OF c] assms(3) by (metis server.select_convs(2,3) server.simps server.surjective)+
  then show ?thesis
    using assms c by (simp add: handleReceive_def Let_def legacyLive_def handleDownloadPage_def ads_csp ads_on_def)
qed

end
