(* ===== verification/Json_Correct.thy ===== *)
theory Json_Correct
  imports Json
begin

text \<open>
  Encoded values are parsed back to themselves, and encoded text can stand inside a script
  element.
\<close>

subsection \<open>Valid sequences\<close>

definition rune_text :: "string option \<Rightarrow> string" where
  "rune_text r = (case r of None \<Rightarrow> rune_error | Some cs \<Rightarrow> cs)"

text \<open>A string with every invalid byte replaced; valid UTF-8 is unchanged.\<close>

definition valid :: "string \<Rightarrow> string" where
  "valid s = concat (map rune_text (runes s))"

definition is_rune :: "string \<Rightarrow> bool" where
  "is_rune cs \<longleftrightarrow> rune_width cs = Some (length cs)"

lemma rune_width_ASCII: "of_char c < (128 :: nat) \<Longrightarrow> rune_width (c # t) = Some 1"
  by (simp add: rune_width_def)

lemma second_range_ge: "second_range b = Some (w, lo, hi) \<Longrightarrow> 2 \<le> w \<and> 128 \<le> lo"
  by (auto simp: second_range_def split: if_splits)

lemma rune_width_append: "rune_width cs = Some w \<Longrightarrow> rune_width (cs @ t) = Some w"
proof -
  assume w: "rune_width cs = Some w"
  then obtain c r where cs: "cs = c # r" by (cases cs) (simp_all add: rune_width_def)
  show ?thesis
  proof (cases "of_char c < (128 :: nat)")
    case True
    then show ?thesis using w by (simp add: cs rune_width_def)
  next
    case False
    then obtain lo hi where sr: "second_range (of_char c) = Some (w, lo, hi)" "w \<le> length cs"
      using w by (auto simp: cs rune_width_def split: option.splits if_splits)
    then have "2 \<le> w" using second_range_ge by blast
    then have "(r @ t) ! 0 = r ! 0" "take (w - 1) (r @ t) = take (w - 1) r" using sr(2) by (auto simp: cs nth_append)
    then show ?thesis using False sr w by (simp add: cs rune_width_def)
  qed
qed

lemma rune_width_take: "rune_width s = Some w \<Longrightarrow> is_rune (take w s)"
proof -
  assume w: "rune_width s = Some w"
  then obtain c r where s: "s = c # r" by (cases s) (simp_all add: rune_width_def)
  show ?thesis
  proof (cases "of_char c < (128 :: nat)")
    case True
    then show ?thesis using w by (auto simp add: s is_rune_def rune_width_def)
  next
    case False
    then obtain lo hi where sr: "second_range (of_char c) = Some (w, lo, hi)" "w \<le> length s"
      and lh: "lo \<le> of_char (r ! 0)" "of_char (r ! 0) \<le> hi"
        "\<forall>x \<in> set (drop 1 (take (w - 1) r)). 128 \<le> (of_char x :: nat) \<and> (of_char x :: nat) \<le> 191"
      using w by (auto simp: s rune_width_def split: option.splits if_splits)
    have "2 \<le> w" using second_range_ge [OF sr(1)] by simp
    then obtain v where v: "w = Suc (Suc v)" by (metis Suc_le_D le_trans numeral_2_eq_2 Suc_le_mono)
    have "take (Suc v) r ! 0 = r ! 0" by simp
    then show ?thesis using False sr lh by (simp add: s is_rune_def rune_width_def v min_def)
  qed
qed

lemma runes_are_runes: "Some cs \<in> set (runes s) \<Longrightarrow> is_rune cs"
proof (induction s rule: runes.induct)
  case (1 s)
  show ?case
    using "1.prems" "1.IH" by (subst (asm) runes.simps) (auto simp: rune_width_take split: if_splits option.splits)
qed

lemma is_rune_bytes:
  assumes "is_rune cs"
  shows "(\<exists>c. cs = [c] \<and> of_char c < (128 :: nat)) \<or> (2 \<le> length cs \<and> (\<forall>x \<in> set cs. 128 \<le> (of_char x :: nat)))"
proof -
  obtain c r where cs: "cs = c # r" using assms by (cases cs) (simp_all add: is_rune_def rune_width_def)
  show ?thesis
  proof (cases "of_char c < (128 :: nat)")
    case True
    then show ?thesis using assms by (simp add: cs is_rune_def rune_width_def)
  next
    case False
    then obtain lo hi where sr: "second_range (of_char c) = Some (length cs, lo, hi)"
      and lh: "lo \<le> of_char (r ! 0)"
        "\<forall>x \<in> set (drop 1 (take (length cs - 1) r)). 128 \<le> (of_char x :: nat) \<and> (of_char x :: nat) \<le> 191"
      using assms by (auto simp: cs is_rune_def rune_width_def split: option.splits if_splits)
    have lo: "128 \<le> lo" "2 \<le> length cs" using second_range_ge [OF sr] by simp_all
    then obtain d r' where r: "r = d # r'" by (cases r) (auto simp: cs)
    have "\<forall>x \<in> set cs. 128 \<le> (of_char x :: nat)" using False lh lo by (auto simp: cs r)
    with lo show ?thesis by blast
  qed
qed

subsection \<open>Strings\<close>

lemma of_char_numerals [simp]:
  "(of_char dquote :: nat) = 34" "(of_char bslash :: nat) = 92"
  by (simp_all add: dquote_def bslash_def)

lemma quote_neq [simp]: "dquote \<noteq> bslash" "bslash \<noteq> dquote"
  by (simp_all add: dquote_def bslash_def)

lemma char_by_nat: "(of_char c :: nat) = n \<Longrightarrow> c = char_of n"
  by auto

lemma control_chars:
  "char_of (8 :: nat) = CHR 0x08" "char_of (12 :: nat) = CHR 0x0C" "char_of (10 :: nat) = CHR 0x0A"
  "char_of (13 :: nat) = CHR 0x0D" "char_of (9 :: nat) = CHR 0x09"
  by code_simp+

lemma lex_string_escape:
  assumes "unescape e = Some (x, t)"
  shows "lex_string (bslash # e) = map_option (apfst ((@) x)) (lex_string t)"
  by (subst lex_string.simps) (simp add: assms)

lemma lex_string_plain:
  assumes "is_rune cs" "hd cs \<noteq> dquote" "hd cs \<noteq> bslash" "\<not> of_char (hd cs) < (32 :: nat)"
  shows "lex_string (cs @ t) = map_option (apfst ((@) cs)) (lex_string t)"
proof -
  obtain c r where cs: "cs = c # r" using assms(1) by (cases cs) (simp_all add: is_rune_def rune_width_def)
  have "rune_width (cs @ t) = Some (length cs)" using assms(1) by (simp add: is_rune_def rune_width_append)
  then show ?thesis using assms(2-4) by (subst lex_string.simps) (simp add: cs)
qed

lemma unescape_hex:
  assumes "a < 16" "b < 16" "c < 16" "d < 16" "n = 4096 * a + 256 * b + 16 * c + d" "n < 55296 \<or> 57344 \<le> n"
  shows "unescape (CHR ''u'' # hex_digit a # hex_digit b # hex_digit c # hex_digit d # t) = Some (encode_rune n, t)"
proof -
  have n: "\<not> (55296 \<le> n \<and> n < 57344)" using assms(6) by linarith
  have "hex4 (hex_digit a # hex_digit b # hex_digit c # hex_digit d # t) = Some (n, t)"
    using assms by (simp add: hex4_def)
  then have "unescape_u (hex_digit a # hex_digit b # hex_digit c # hex_digit d # t) = Some (encode_rune n, t)"
    using n by (auto simp add: unescape_u_def)
  then show ?thesis by (simp add: unescape_def dquote_def bslash_def)
qed

lemma hex_digit_0: "hex_digit 0 = CHR ''0''" by code_simp

lemma lex_string_ASCII:
  assumes "of_char c < (128 :: nat)"
  shows "lex_string (json_escape c @ t) = map_option (apfst ((@) [c])) (lex_string t)"
proof -
  let ?n = "of_char c :: nat"
  have hex: "lex_string ([bslash, CHR ''u'', CHR ''0'', CHR ''0'', hex_digit (?n div 16), hex_digit (?n mod 16)] @ t) =
      map_option (apfst ((@) [c])) (lex_string t)"
  proof -
    have "unescape (CHR ''u'' # hex_digit 0 # hex_digit 0 # hex_digit (?n div 16) # hex_digit (?n mod 16) # t) =
        Some (encode_rune ?n, t)"
      using assms by (intro unescape_hex) simp_all
    moreover have "encode_rune ?n = [c]" using assms by (simp add: encode_rune_def str_def)
    ultimately show ?thesis by (simp add: lex_string_escape hex_digit_0)
  qed
  have short: "unescape (d # t) = Some ([c], t) \<Longrightarrow>
      lex_string ([bslash, d] @ t) = map_option (apfst ((@) [c])) (lex_string t)" for d
    by (simp add: lex_string_escape)
  consider "c = dquote \<or> c = bslash" | "?n \<in> {8, 12, 10, 13, 9}" "c \<noteq> dquote" "c \<noteq> bslash"
    | "?n \<notin> {8, 12, 10, 13, 9}" "?n < 32 \<or> ?n = 60 \<or> ?n = 62 \<or> ?n = 38" "c \<noteq> dquote" "c \<noteq> bslash"
    | "?n \<notin> {8, 12, 10, 13, 9}" "\<not> (?n < 32 \<or> ?n = 60 \<or> ?n = 62 \<or> ?n = 38)" "c \<noteq> dquote" "c \<noteq> bslash"
    by blast
  then show ?thesis
  proof cases
    case 1
    then have "json_escape c = [bslash, c]" by (simp add: json_escape_def)
    moreover have "unescape (c # t) = Some ([c], t)" using 1 by (auto simp add: unescape_def)
    ultimately show ?thesis using short [of c] by simp
  next
    case 2
    then have "c \<in> {CHR 0x08, CHR 0x0C, CHR 0x0A, CHR 0x0D, CHR 0x09}"
      using control_chars by (auto dest!: char_by_nat)
    then show ?thesis
    proof (elim insertE)
      show "c = CHR 0x08 \<Longrightarrow> ?thesis" using short [of "CHR ''b''"] by (simp add: json_escape_def unescape_def dquote_def bslash_def)
      show "c = CHR 0x0C \<Longrightarrow> ?thesis" using short [of "CHR ''f''"] by (simp add: json_escape_def unescape_def dquote_def bslash_def)
      show "c = CHR 0x0A \<Longrightarrow> ?thesis" using short [of "CHR ''n''"] by (simp add: json_escape_def unescape_def dquote_def bslash_def)
      show "c = CHR 0x0D \<Longrightarrow> ?thesis" using short [of "CHR ''r''"] by (simp add: json_escape_def unescape_def dquote_def bslash_def)
      show "c = CHR 0x09 \<Longrightarrow> ?thesis" using short [of "CHR ''t''"] by (simp add: json_escape_def unescape_def dquote_def bslash_def)
    qed simp
  next
    case 3
    then show ?thesis using hex by (auto simp: json_escape_def Let_def)
  next
    case 4
    then have "json_escape c = [c]" by (simp add: json_escape_def Let_def)
    moreover have "is_rune [c]" using assms by (simp add: is_rune_def rune_width_ASCII)
    ultimately show ?thesis using lex_string_plain [of "[c]" t] 4 by simp
  qed
qed

lemma lex_string_multi:
  assumes "is_rune cs" "length cs \<noteq> 1"
  shows "lex_string (cs @ t) = map_option (apfst ((@) cs)) (lex_string t)"
proof -
  have "2 \<le> length cs" "\<forall>x \<in> set cs. 128 \<le> (of_char x :: nat)" using is_rune_bytes [OF assms(1)] assms(2) by auto
  then have "128 \<le> (of_char (hd cs) :: nat)" by (cases cs) auto
  then have "hd cs \<noteq> dquote" "hd cs \<noteq> bslash" "\<not> of_char (hd cs) < (32 :: nat)" by auto
  then show ?thesis by (rule lex_string_plain [OF assms(1)])
qed

lemma unescape_special:
  "unescape (''ufffd'' @ t) = Some (rune_error, t)"
  "unescape (''u2028'' @ t) = Some (line_separator, t)"
  "unescape (''u2029'' @ t) = Some (paragraph_separator, t)"
proof -
  have d: "''fffd'' = map hex_digit [15, 15, 15, 13]" "''2028'' = map hex_digit [2, 0, 2, 8]"
    "''2029'' = map hex_digit [2, 0, 2, 9]" by code_simp+
  have r: "encode_rune 65533 = rune_error" "encode_rune 8232 = line_separator" "encode_rune 8233 = paragraph_separator"
    by (simp_all add: encode_rune_def rune_error_def line_separator_def paragraph_separator_def)
  show "unescape (''ufffd'' @ t) = Some (rune_error, t)" "unescape (''u2028'' @ t) = Some (line_separator, t)"
    "unescape (''u2029'' @ t) = Some (paragraph_separator, t)"
    using unescape_hex [of 15 15 15 13 65533 t] unescape_hex [of 2 0 2 8 8232 t] unescape_hex [of 2 0 2 9 8233 t]
      d r by simp_all
qed

lemma lex_string_rune:
  assumes "r = None \<or> (\<exists>cs. r = Some cs \<and> is_rune cs)"
  shows "lex_string (json_rune r @ t) = map_option (apfst ((@) (rune_text r))) (lex_string t)"
proof (cases r)
  case None
  then show ?thesis
    using lex_string_escape [OF unescape_special(1)] by (simp add: json_rune_def rune_text_def)
next
  case (Some cs)
  then have cs: "is_rune cs" using assms by simp
  consider c where "cs = [c]" "of_char c < (128 :: nat)" | "cs = line_separator" | "cs = paragraph_separator"
    | "length cs \<noteq> 1" "cs \<noteq> line_separator" "cs \<noteq> paragraph_separator"
    using is_rune_bytes [OF cs] by fastforce
  then show ?thesis
  proof cases
    case 1
    then show ?thesis using Some by (simp add: json_rune_def rune_text_def lex_string_ASCII)
  next
    case 2
    moreover have "length line_separator \<noteq> 1" by (simp add: line_separator_def str_def)
    ultimately show ?thesis
      using Some lex_string_escape [OF unescape_special(2)] by (simp add: json_rune_def rune_text_def)
  next
    case 3
    moreover have "length paragraph_separator \<noteq> 1" "paragraph_separator \<noteq> line_separator"
      by (simp_all add: line_separator_def paragraph_separator_def str_def)
    ultimately show ?thesis
      using Some lex_string_escape [OF unescape_special(3)] by (simp add: json_rune_def rune_text_def)
  next
    case 4
    then show ?thesis using Some lex_string_multi [OF cs 4(1)] by (simp add: json_rune_def rune_text_def)
  qed
qed

lemma lex_string_end: "lex_string (dquote # t) = Some ([], t)"
  by (simp add: lex_string.simps)

lemma lex_string_runes:
  "\<forall>r \<in> set rs. r = None \<or> (\<exists>cs. r = Some cs \<and> is_rune cs) \<Longrightarrow>
   lex_string (concat (map json_rune rs) @ dquote # t) = Some (concat (map rune_text rs), t)"
  by (induction rs) (simp_all add: lex_string_end lex_string_rune)

subsection \<open>Tokens\<close>

lemma lex_json_string: "lex (json_string s @ t) = Some (TStr (valid s), t)"
proof -
  have "\<forall>r \<in> set (runes s). r = None \<or> (\<exists>cs. r = Some cs \<and> is_rune cs)"
    using runes_are_runes by (metis not_None_eq)
  then have "lex_string (concat (map json_rune (runes s)) @ dquote # t) = Some (valid s, t)"
    unfolding valid_def by (rule lex_string_runes)
  moreover have "\<not> json_space dquote" by (simp add: json_space_def)
  ultimately show ?thesis by (simp add: lex_def Let_def json_string_def dquote_def)
qed

text \<open>What may follow a number.\<close>

definition delim :: "string \<Rightarrow> bool" where
  "delim t \<longleftrightarrow> (case t of [] \<Rightarrow> True | c # _ \<Rightarrow> \<not> is_digit c \<and> c \<noteq> CHR ''.'' \<and> c \<noteq> CHR ''e'' \<and> c \<noteq> CHR ''E'')"

lemma nat_digits_digits: "\<forall>c \<in> set (nat_digits n). is_digit c"
  by (auto simp: is_digit_def dest: nat_digits_chars)

lemma nat_digits_zero: "hd (nat_digits n) = CHR ''0'' \<Longrightarrow> nat_digits n = ''0''"
proof (induction n rule: nat_digits.induct)
  case (1 n)
  show ?case
  proof (cases "n < 10")
    case True
    then show ?thesis using "1.prems" by (auto simp: nat_digits.simps [of n])
  next
    case False
    then have h: "hd (nat_digits (n div 10)) = CHR ''0''" using "1.prems" by (simp add: nat_digits.simps [of n])
    then have "nat_digits (n div 10) = ''0''" using "1.IH" False by simp
    moreover have "nat_digits 0 = ''0''" by code_simp
    ultimately have "n div 10 = 0" using nat_digits_inject by metis
    then show ?thesis using False by simp
  qed
qed

lemma lex_number_digits:
  assumes "delim t"
  shows "lex_number (nat_digits n @ t) = Some (nat_digits n, t)" "lex_number (''-'' @ nat_digits n @ t) = Some (''-'' @ nat_digits n, t)"
proof -
  let ?d = "nat_digits n"
  obtain c r where cr: "?d = c # r" by (cases ?d) auto
  have tk: "takeWhile is_digit (?d @ t) = ?d"
    using assms nat_digits_digits [of n] by (cases t) (auto simp: takeWhile_append2 delim_def)
  define ip where "ip = (if c = CHR ''0'' then [c] else takeWhile is_digit (?d @ t))"
  have ip: "ip = ?d" using tk nat_digits_zero [of n] cr by (auto simp: ip_def)
  have c: "is_digit c" "c \<noteq> CHR ''-''" using nat_digits_digits [of n] by (auto simp: cr is_digit_def)
  have f: "lex_fraction t = Some ([], t)" "lex_exponent t = Some ([], t)"
    using assms by (auto simp: delim_def lex_fraction_def lex_exponent_def split: list.splits)
  show "lex_number (?d @ t) = Some (?d, t)" "lex_number (''-'' @ ?d @ t) = Some (''-'' @ ?d, t)"
    using c f ip [unfolded ip_def] by (auto simp add: lex_number_def Let_def cr)
qed

lemma lex_not_space:
  assumes "is_digit c \<or> c = CHR ''-''"
  shows "lex (c # s) = map_option (apfst TNum) (lex_number (c # s))"
proof -
  have n: "of_char c = (45 :: nat) \<or> (48 \<le> (of_char c :: nat) \<and> (of_char c :: nat) \<le> 57)"
    using assms by (auto simp: is_digit_def)
  have neq: "c \<noteq> d" if "(of_char d :: nat) \<notin> insert 45 {48..57}" for d
    using n that by auto
  have "c \<noteq> CHR ''{''" "c \<noteq> CHR ''}''" "c \<noteq> CHR ''[''" "c \<noteq> CHR '']''" "c \<noteq> CHR '':''" "c \<noteq> CHR '',''"
    "c \<noteq> CHR 0x22" "c \<noteq> CHR ''n''" "c \<noteq> CHR ''t''" "c \<noteq> CHR ''f''"
    by (rule neq, simp)+
  moreover have "\<not> json_space c" using n by (simp add: json_space_def) linarith
  ultimately show ?thesis by (simp add: lex_def Let_def dquote_def)
qed

lemma lex_FormatInt:
  assumes t: "delim t"
  shows "lex (FormatInt i @ t) = Some (TNum (FormatInt i), t)"
proof (cases "i < 0")
  case True
  have "lex (''-'' @ nat_digits (nat (- i)) @ t) = Some (TNum (''-'' @ nat_digits (nat (- i))), t)"
    using lex_not_space [of "CHR ''-''" "nat_digits (nat (- i)) @ t"] lex_number_digits(2) [OF t, of "nat (- i)"] by simp
  then show ?thesis using True by (simp add: FormatInt_def)
next
  case False
  obtain c r where cr: "nat_digits (nat i) = c # r" by (cases "nat_digits (nat i)") auto
  then have "is_digit c" using nat_digits_digits [of "nat i"] by simp
  then have "lex (nat_digits (nat i) @ t) = Some (TNum (nat_digits (nat i)), t)"
    using lex_not_space [of c "r @ t"] lex_number_digits(1) [OF t, of "nat i"] by (simp add: cr)
  then show ?thesis using False by (simp add: FormatInt_def)
qed

lemma lex_punct [simp]:
  "lex (CHR ''{'' # t) = Some (TLBrace, t)" "lex (CHR ''}'' # t) = Some (TRBrace, t)"
  "lex (CHR ''['' # t) = Some (TLBrack, t)" "lex (CHR '']'' # t) = Some (TRBrack, t)"
  "lex (CHR '':'' # t) = Some (TColon, t)" "lex (CHR '','' # t) = Some (TComma, t)"
  by (simp_all add: lex_def Let_def json_space_def dquote_def)

lemma lex_word_null: "lex (''null'' @ t) = Some (TNull, t)" and lex_word_true: "lex (''true'' @ t) = Some (TTrue, t)" and lex_word_false: "lex (''false'' @ t) = Some (TFalse, t)"
  by (simp_all add: lex_def Let_def json_space_def lex_word_def HasPrefix_def dquote_def)

lemmas lex_words [simp] = lex_word_null [simplified] lex_word_true [simplified] lex_word_false [simplified]

subsection \<open>Values\<close>

text \<open>The document a value is written as: the keys of a map sorted, invalid bytes replaced.\<close>

primrec value_of :: "json \<Rightarrow> jval" where
  "value_of JNull = VNull"
| "value_of (JBool b) = VBool b"
| "value_of (JInt i) = VNum (FormatInt i)"
| "value_of (JStr s) = VStr (valid s)"
| "value_of (JArr vs) = VArr (map value_of vs)"
| "value_of (JObj fs) = VObj (map (apfst valid) (map (map_prod id value_of) fs))"
| "value_of (JMap fs) = VObj (map (apfst valid) (sort_key fst (map (map_prod id value_of) fs)))"

text \<open>How deep the containers of a value are nested.\<close>

primrec depth :: "json \<Rightarrow> nat" where
  "depth JNull = 0"
| "depth (JBool b) = 0"
| "depth (JInt i) = 0"
| "depth (JStr s) = 0"
| "depth (JArr vs) = Suc (foldr max (map depth vs) 0)"
| "depth (JObj fs) = Suc (foldr max (map snd (map (map_prod id depth) fs)) 0)"
| "depth (JMap fs) = Suc (foldr max (map snd (map (map_prod id depth) fs)) 0)"

lemma foldr_max_le: "foldr max ns 0 \<le> (n :: nat) \<longleftrightarrow> (\<forall>x \<in> set ns. x \<le> n)"
  by (induction ns) auto

lemma insort_key_map_prod:
  "insort_key fst (map_prod id f x) (map (map_prod id f) ys) = map (map_prod id f) (insort_key fst x ys)"
  by (induction ys) (simp_all add: map_prod_def split_beta)

lemma sort_key_map_prod: "sort_key fst (map (map_prod id f) xs) = map (map_prod id f) (sort_key fst xs)"
  by (induction xs) (simp_all only: list.map sort_key_simps insort_key_map_prod)

lemma parse_step:
  "st \<noteq> [] \<or> (\<forall>v. m \<noteq> Have v) \<Longrightarrow> lex s = Some (t, r) \<Longrightarrow>
   parse st m s = (case parse_token m t st of None \<Rightarrow> None | Some (st', m') \<Rightarrow> parse st' m' r)"
  by (subst parse.simps) (auto split: list.split mode.split)

text \<open>The parser reads \<open>v\<close>'s text where a value may begin.\<close>

definition reads :: "json \<Rightarrow> bool" where
  "reads j \<longleftrightarrow>
     (\<forall>st t m. m \<in> {NeedValue, ValueOrEnd} \<longrightarrow> delim t \<longrightarrow> length st + depth j \<le> maxNestingDepth \<longrightarrow>
        parse st m (Marshal j @ t) = parse st (Have (value_of j)) t)"

lemma readsD:
  "reads j \<Longrightarrow> m \<in> {NeedValue, ValueOrEnd} \<Longrightarrow> delim t \<Longrightarrow> length st + depth j \<le> maxNestingDepth \<Longrightarrow>
   parse st m (Marshal j @ t) = parse st (Have (value_of j)) t"
  unfolding reads_def by blast

lemma delim_punct [simp]: "delim (CHR '','' # t)" "delim (CHR '']'' # t)" "delim (CHR ''}'' # t)" "delim []" "delim (CHR 0x0A # t)"
  by (simp_all add: delim_def is_digit_def)

lemma join_Cons: "join sep (x # xs) = x @ (if xs = [] then [] else sep @ join sep xs)"
  by (cases xs) simp_all

lemma parse_elems:
  assumes "\<forall>v \<in> set vs. reads v \<and> Suc (length st) + depth v \<le> maxNestingDepth" "vs \<noteq> []" "m \<in> {NeedValue, ValueOrEnd}"
  shows "parse (InArr acc # st) m (join '','' (map Marshal vs) @ CHR '']'' # t) =
    parse st (Have (VArr (acc @ map value_of vs))) t"
  using assms
proof (induction vs arbitrary: acc m)
  case (Cons v vs)
  let ?rest = "(if vs = [] then [] else '','' @ join '','' (map Marshal vs)) @ CHR '']'' # t"
  have v: "parse (InArr acc # st) m (Marshal v @ ?rest) = parse (InArr acc # st) (Have (value_of v)) ?rest"
    using Cons.prems by (intro readsD) auto
  show ?case
  proof (cases "vs = []")
    case True
    then show ?thesis using v by (simp add: join_Cons parse_step)
  next
    case False
    have "parse (InArr acc # st) (Have (value_of v)) ?rest =
        parse (InArr (acc @ [value_of v]) # st) NeedValue (join '','' (map Marshal vs) @ CHR '']'' # t)"
      using False by (simp add: parse_step)
    also have "\<dots> = parse st (Have (VArr (acc @ map value_of (v # vs)))) t"
      using Cons.IH [of NeedValue "acc @ [value_of v]"] Cons.prems(1) False by simp
    finally show ?thesis using v False by (simp add: join_Cons)
  qed
qed simp

lemma parse_fields:
  assumes "\<forall>(k, v) \<in> set fs. reads v \<and> Suc (length st) + depth v \<le> maxNestingDepth" "fs \<noteq> []" "m \<in> {KeyOrEnd, NeedKey}"
  shows "parse (InKey acc # st) m
      (join '','' (map (\<lambda>(k, v). json_string k @ '':'' @ v) (map (map_prod id Marshal) fs)) @ CHR ''}'' # t) =
    parse st (Have (VObj (acc @ map (apfst valid) (map (map_prod id value_of) fs)))) t"
  using assms
proof (induction fs arbitrary: acc m)
  case (Cons kv fs)
  obtain k v where kv: "kv = (k, v)" by fastforce
  let ?txt = "\<lambda>fs. join '','' (map (\<lambda>(k, v). json_string k @ '':'' @ v) (map (map_prod id Marshal) fs))"
  let ?rest = "(if fs = [] then [] else '','' @ ?txt fs) @ CHR ''}'' # t"
  have key: "parse (InKey acc # st) m (json_string k @ u) = parse (InKey acc # st) (NeedColon (valid k)) u" for u
    using Cons.prems(3) by (auto simp: parse_step lex_json_string)
  have colon: "parse (InKey acc # st) (NeedColon (valid k)) (CHR '':'' # u) = parse (InVal acc (valid k) # st) NeedValue u" for u
    by (simp add: parse_step)
  have v: "parse (InVal acc (valid k) # st) NeedValue (Marshal v @ ?rest) =
      parse (InVal acc (valid k) # st) (Have (value_of v)) ?rest"
    using Cons.prems by (intro readsD) (auto simp: kv)
  have start: "parse (InKey acc # st) m (?txt (kv # fs) @ CHR ''}'' # t) =
      parse (InVal acc (valid k) # st) (Have (value_of v)) ?rest"
    using v by (auto simp: kv join_Cons key colon)
  show ?case
  proof (cases "fs = []")
    case True
    then show ?thesis unfolding start by (simp add: kv parse_step)
  next
    case False
    have "parse (InVal acc (valid k) # st) (Have (value_of v)) ?rest =
        parse (InKey (acc @ [(valid k, value_of v)]) # st) NeedKey (?txt fs @ CHR ''}'' # t)"
      using False by (simp add: parse_step)
    also have "\<dots> = parse st (Have (VObj ((acc @ [(valid k, value_of v)]) @
        map (apfst valid) (map (map_prod id value_of) fs)))) t"
      using Cons.prems(1) False by (intro Cons.IH) auto
    also have "\<dots> = parse st (Have (VObj (acc @ map (apfst valid) (map (map_prod id value_of) (kv # fs))))) t"
      by (simp add: kv)
    finally show ?thesis unfolding start .
  qed
qed simp

lemma parse_object:
  assumes "\<forall>(k, v) \<in> set fs. reads v \<and> Suc (length st) + depth v \<le> maxNestingDepth" "m \<in> {NeedValue, ValueOrEnd}"
    and "length st < maxNestingDepth"
  shows "parse st m (json_fields (map (map_prod id Marshal) fs) @ t) =
    parse st (Have (VObj (map (apfst valid) (map (map_prod id value_of) fs)))) t"
proof -
  let ?s = "join '','' (map (\<lambda>(k, v). json_string k @ '':'' @ v) (map (map_prod id Marshal) fs)) @ CHR ''}'' # t"
  have "parse st m (json_fields (map (map_prod id Marshal) fs) @ t) = parse (InKey [] # st) KeyOrEnd ?s"
    using assms(2,3) by (auto simp: json_fields_def parse_step push_def)
  also have "\<dots> = parse st (Have (VObj (map (apfst valid) (map (map_prod id value_of) fs)))) t"
  proof (cases "fs = []")
    case True
    then show ?thesis by (simp add: parse_step)
  next
    case False
    then show ?thesis using parse_fields [OF assms(1) False, of KeyOrEnd "[]" t] by simp
  qed
  finally show ?thesis .
qed

lemma reads_all: "reads j"
proof (induction j)
  case (JArr vs)
  show ?case
    unfolding reads_def
  proof (intro allI impI)
    fix st :: "frame list" and t m
    assume m: "m \<in> {NeedValue, ValueOrEnd}" and d: "length st + depth (JArr vs) \<le> maxNestingDepth"
    have "parse st m (Marshal (JArr vs) @ t) = parse (InArr [] # st) ValueOrEnd (join '','' (map Marshal vs) @ CHR '']'' # t)"
      using m d by (auto simp: parse_step push_def)
    also have "\<dots> = parse st (Have (value_of (JArr vs))) t"
    proof (cases "vs = []")
      case True
      then show ?thesis by (simp add: parse_step)
    next
      case False
      have "\<forall>v \<in> set vs. reads v \<and> Suc (length st) + depth v \<le> maxNestingDepth"
        using JArr d foldr_max_le [of "map depth vs" "maxNestingDepth - Suc (length st)"] by force
      from parse_elems [OF this False, of ValueOrEnd "[]" t] show ?thesis by simp
    qed
    finally show "parse st m (Marshal (JArr vs) @ t) = parse st (Have (value_of (JArr vs))) t" .
  qed
next
  case (JObj fs)
  show ?case
    unfolding reads_def
  proof (intro allI impI)
    fix st :: "frame list" and t m
    assume m: "m \<in> {NeedValue, ValueOrEnd}" and d: "length st + depth (JObj fs) \<le> maxNestingDepth"
    have "\<forall>(k, v) \<in> set fs. reads v \<and> Suc (length st) + depth v \<le> maxNestingDepth"
      using JObj d foldr_max_le [of "map snd (map (map_prod id depth) fs)" "maxNestingDepth - Suc (length st)"] by force
    from parse_object [OF this m, of t] d
    show "parse st m (Marshal (JObj fs) @ t) = parse st (Have (value_of (JObj fs))) t" by simp
  qed
next
  case (JMap fs)
  show ?case
    unfolding reads_def
  proof (intro allI impI)
    fix st :: "frame list" and t m
    assume m: "m \<in> {NeedValue, ValueOrEnd}" and d: "length st + depth (JMap fs) \<le> maxNestingDepth"
    have "\<forall>(k, v) \<in> set (sort_key fst fs). reads v \<and> Suc (length st) + depth v \<le> maxNestingDepth"
      using JMap d foldr_max_le [of "map snd (map (map_prod id depth) fs)" "maxNestingDepth - Suc (length st)"] by force
    from parse_object [OF this m, of t] d
    show "parse st m (Marshal (JMap fs) @ t) = parse st (Have (value_of (JMap fs))) t"
      by (simp add: sort_key_map_prod)
  qed
qed (auto simp: reads_def parse_step lex_FormatInt lex_json_string)

lemma parse_Marshal:
  "depth j \<le> maxNestingDepth \<Longrightarrow> delim t \<Longrightarrow> ParseJSON (Marshal j @ t) = Some (value_of j, t)"
  using readsD [OF reads_all, of NeedValue t "[]" j] by (simp add: ParseJSON_def parse.simps)

text \<open>After an object anything may follow.\<close>

lemma parse_Marshal_object:
  "depth (JObj fs) \<le> maxNestingDepth \<Longrightarrow> ParseJSON (Marshal (JObj fs) @ t) = Some (value_of (JObj fs), t)"
proof -
  assume d: "depth (JObj fs) \<le> maxNestingDepth"
  then have "0 < maxNestingDepth" "\<forall>(k, v) \<in> set fs. reads v \<and> Suc 0 + depth v \<le> maxNestingDepth"
    using reads_all foldr_max_le [of "map snd (map (map_prod id depth) fs)" "maxNestingDepth - 1"] by fastforce+
  then show ?thesis
    using parse_object [of fs "[]" NeedValue t] by (simp add: ParseJSON_def parse.simps)
qed

lemma valid_ASCII [simp]: "\<forall>c \<in> set s. (of_char c :: nat) < 128 \<Longrightarrow> valid s = s"
proof (induction s)
  case (Cons c s)
  then show ?case
    by (simp add: valid_def runes.simps [of "c # s"] rune_width_ASCII rune_text_def)
qed (simp add: valid_def runes.simps)

lemma depth_le:
  "depth (JArr vs) \<le> n \<longleftrightarrow> 0 < n \<and> (\<forall>v \<in> set vs. depth v \<le> n - 1)"
  "depth (JObj fs) \<le> n \<longleftrightarrow> 0 < n \<and> (\<forall>e \<in> set fs. depth (snd e) \<le> n - 1)"
  "depth (JMap fs) \<le> n \<longleftrightarrow> 0 < n \<and> (\<forall>e \<in> set fs. depth (snd e) \<le> n - 1)"
  using foldr_max_le [of "map depth vs" "n - 1"] foldr_max_le [of "map snd (map (map_prod id depth) fs)" "n - 1"]
  by (cases n; auto simp: Suc_le_eq)+

declare depth.simps(5-7) [simp del] depth_le [simp]

end
