(* ===== verification/Encoding_Correct.thy ===== *)
theory Encoding_Correct
  imports Server_Correct Json_Correct
begin

text \<open>
  What the server writes as JSON is safe inside a script element and read back to the same
  document, and what a client writes is decoded to the request it meant.
\<close>

subsection \<open>Encoded text is safe in HTML\<close>

definition html_safe :: "string \<Rightarrow> bool" where
  "html_safe s \<longleftrightarrow> (\<forall>c \<in> set s. (of_char c :: nat) \<notin> {60, 62, 38} \<and> 32 \<le> (of_char c :: nat))"

lemma html_safe_simps [simp]:
  "html_safe []" "html_safe (c # s) \<longleftrightarrow> (of_char c :: nat) \<notin> {60, 62, 38} \<and> 32 \<le> (of_char c :: nat) \<and> html_safe s"
  "html_safe (s @ t) \<longleftrightarrow> html_safe s \<and> html_safe t"
  by (auto simp: html_safe_def)

lemma html_safe_concat: "(\<And>s. s \<in> set ss \<Longrightarrow> html_safe s) \<Longrightarrow> html_safe (concat ss)"
  by (induction ss) auto

lemma html_safe_join: "html_safe sep \<Longrightarrow> (\<And>s. s \<in> set ss \<Longrightarrow> html_safe s) \<Longrightarrow> html_safe (join sep ss)"
  by (induction sep ss rule: join.induct) auto

lemma hex_digit_safe: "d < 16 \<Longrightarrow> html_safe [hex_digit d]"
  by (auto simp: hex_digit_def)

lemma json_escape_safe: "html_safe (json_escape c)"
proof -
  have "(of_char c :: nat) < 256" by simp
  then have "html_safe [hex_digit (of_char c div 16)]" by (intro hex_digit_safe) linarith
  moreover have "html_safe [hex_digit (of_char c mod 16)]" by (rule hex_digit_safe) simp
  ultimately show ?thesis by (auto simp: json_escape_def Let_def)
qed

lemma json_rune_safe: "r = None \<or> (\<exists>cs. r = Some cs \<and> is_rune cs) \<Longrightarrow> html_safe (json_rune r)"
proof (cases r)
  case (Some cs)
  moreover assume "r = None \<or> (\<exists>cs. r = Some cs \<and> is_rune cs)"
  ultimately have "is_rune cs" by simp
  then have "length cs = 1 \<or> (\<forall>x \<in> set cs. 128 \<le> (of_char x :: nat))"
    using is_rune_bytes by fastforce
  then show ?thesis
    using json_escape_safe by (auto simp: Some json_rune_def html_safe_def)
qed (simp add: json_rune_def)

lemma json_string_safe: "html_safe (json_string s)"
proof -
  have "html_safe (json_rune r)" if "r \<in> set (runes s)" for r
    using that runes_are_runes by (intro json_rune_safe) (metis not_None_eq)
  then show ?thesis by (auto simp: json_string_def intro!: html_safe_concat)
qed

lemma json_fields_safe: "(\<And>k v. (k, v) \<in> set fs \<Longrightarrow> html_safe v) \<Longrightarrow> html_safe (json_fields fs)"
  by (auto simp: json_fields_def json_string_safe intro!: html_safe_join)

lemma FormatInt_safe: "html_safe (FormatInt i)"
proof -
  have "html_safe (nat_digits n)" for n
    using nat_digits_chars [of _ n] by (fastforce simp: html_safe_def)
  then show ?thesis by (simp add: FormatInt_def)
qed

lemma Marshal_safe: "html_safe (Marshal j)"
proof (induction j)
  case (JArr vs)
  then show ?case by (auto intro!: html_safe_join)
next
  case (JObj fs)
  then show ?case by (force intro!: json_fields_safe)
next
  case (JMap fs)
  then show ?case by (force intro!: json_fields_safe)
qed (simp_all add: json_string_safe FormatInt_safe)

subsection \<open>Answers\<close>

lemma depth_answers:
  "depth (errorJSON m) \<le> 3" "depth (startOut s res) \<le> 3" "depth (unlockedJSON un) \<le> 3"
  "depth (nilArr js) \<le> n \<longleftrightarrow> js = [] \<or> depth (JArr js) \<le> n"
  by (auto simp: errorJSON_def startOut_def unlockedJSON_def nilArr_def)

subsection \<open>Structured data\<close>

text \<open>A document embedded in a page.\<close>

definition embedded :: "string \<Rightarrow> bool" where
  "embedded x \<longleftrightarrow> x = [] \<or> (\<exists>doc. depth doc \<le> 6 \<and> x = ldScript doc)"

lemma embedded_documents [simp]:
  "embedded []" "embedded (indexJSONLD s l fs)" "embedded (faqJSONLD s l items)" "embedded (howToJSONLD s l steps)"
proof -
  have crumb: "depth (breadcrumb s l p n) \<le> 4" for p n by (simp add: breadcrumb_def Let_def)
  show "embedded []" by (simp add: embedded_def)
  show "embedded (indexJSONLD s l fs)" unfolding embedded_def indexJSONLD_def Let_def
    by (rule disjI2, rule exI, rule conjI [rotated], rule refl) simp
  show "embedded (faqJSONLD s l items)" unfolding embedded_def faqJSONLD_def Let_def
    by (rule disjI2, rule exI, rule conjI [rotated], rule refl) (auto simp: crumb)
  show "embedded (howToJSONLD s l steps)" unfolding embedded_def howToJSONLD_def Let_def
    by (rule disjI2, rule exI, rule conjI [rotated], rule refl) (auto simp: crumb)
qed

text \<open>The document of the FAQ page carries the questions and answers the page shows.\<close>

definition page_data :: "string \<Rightarrow> pageData \<Rightarrow> bool" where
  "page_data n d \<longleftrightarrow> embedded (pg_StructuredData d) \<and>
     (n = ''faq.html'' \<longrightarrow> (\<exists>s l. pg_StructuredData d = faqJSONLD s l (pg_FAQ d)))"

lemma basePage_no_data [simp]: "pg_StructuredData (basePage s r k) = []"
  by (simp add: basePage_def Let_def)

definition faqEntry :: "faqItem \<Rightarrow> jval" where
  "faqEntry q = VObj [(''@type'', VStr ''Question''),
     (''acceptedAnswer'', VObj [(''@type'', VStr ''Answer''), (''text'', VStr (valid (fq_A q)))]),
     (''name'', VStr (valid (fq_Q q)))]"

lemma faq_document:
  "\<exists>body pid l crumb. faqJSONLD s l0 items = scriptOpen @ body @ scriptClose \<and> html_safe body \<and>
     ParseJSON body = Some (VObj [(''@context'', VStr ''https://schema.org''), (''@graph'', VArr
       [VObj [(''@id'', pid), (''@type'', VStr ''FAQPage''), (''inLanguage'', l), (''mainEntity'', VArr (map faqEntry items))],
        crumb])], [])"
proof -
  define doc where "doc = (let base = baseOf s;
          ents = map (\<lambda>it. JMap [(''@type'', JStr ''Question''), (''name'', JStr (fq_Q it)),
            (''acceptedAnswer'', JMap [(''@type'', JStr ''Answer''), (''text'', JStr (fq_A it))])]) items
      in JMap [(''@context'', JStr ''https://schema.org''),
        (''@graph'', JArr
          [JMap [(''@type'', JStr ''FAQPage''), (''@id'', JStr (base @ langPath l0 ''/faq'' @ ''#faq'')),
             (''inLanguage'', JStr l0), (''mainEntity'', JArr ents)],
           breadcrumb s l0 ''/faq'' (T (hs_i18n s) l0 ''faq.h1'')])])"
  have "depth (breadcrumb s l p n) \<le> 9998" for l p n by (simp add: breadcrumb_def Let_def)
  then have "depth doc \<le> maxNestingDepth" by (simp add: doc_def Let_def maxNestingDepth_def)
  then have p: "ParseJSON (Marshal doc) = Some (value_of doc, [])" using parse_Marshal [of doc "[]"] by simp
  have v: "value_of doc = VObj [(''@context'', VStr ''https://schema.org''), (''@graph'', VArr
       [VObj [(''@id'', VStr (valid (baseOf s @ langPath l0 ''/faq'' @ ''#faq''))), (''@type'', VStr ''FAQPage''),
          (''inLanguage'', VStr (valid l0)), (''mainEntity'', VArr (map faqEntry items))],
        value_of (breadcrumb s l0 ''/faq'' (T (hs_i18n s) l0 ''faq.h1''))])]"
    by (simp add: doc_def Let_def faqEntry_def [abs_def] o_def sort_key_simps)
  have "faqJSONLD s l0 items = scriptOpen @ Marshal doc @ scriptClose"
    by (simp add: faqJSONLD_def ldScript_def doc_def Let_def del: Marshal.simps)
  then show ?thesis using p Marshal_safe [of doc] unfolding v by blast
qed

lemma embedded_safe:
  assumes "embedded x" "x \<noteq> []"
  shows "\<exists>body doc. x = scriptOpen @ body @ scriptClose \<and> html_safe body \<and> ParseJSON body = Some (doc, [])"
proof -
  obtain doc where "depth doc \<le> 6" "x = ldScript doc" using assms by (auto simp: embedded_def)
  then show ?thesis
    using parse_Marshal [of doc "[]"] Marshal_safe [of doc] by (auto simp: ldScript_def maxNestingDepth_def)
qed

subsection \<open>Requests\<close>

text \<open>The documents a client makes of the request types.\<close>

definition requestJSON :: "startRequest \<Rightarrow> json" where
  "requestJSON q =
     JObj [(''files'', JArr (map (\<lambda>f. JObj [(''name'', JStr (jf_Name f)), (''size'', JInt (jf_Size f))]) (js_Files q))),
       (''days'', JInt (js_Days q)), (''maxDownloads'', JInt (js_MaxDownloads q)), (''password'', JStr (js_Password q)),
       (''allowDelete'', JBool (js_AllowDelete q)), (''kind'', JStr (js_Kind q)), (''manage'', JBool (js_Manage q))]"

definition int64 :: "int \<Rightarrow> bool" where "int64 i \<longleftrightarrow> - (2 ^ 63) \<le> i \<and> i < 2 ^ 63"

definition sendable :: "startRequest \<Rightarrow> bool" where
  "sendable q \<longleftrightarrow>
     (\<forall>f \<in> set (js_Files q). valid (jf_Name f) = jf_Name f \<and> int64 (jf_Size f)) \<and>
     int64 (js_Days q) \<and> int64 (js_MaxDownloads q) \<and>
     valid (js_Password q) = js_Password q \<and> valid (js_Kind q) = js_Kind q"

lemma ParseInt_int64 [simp]: "int64 i \<Longrightarrow> ParseInt (FormatInt i) = Some i"
  by (simp add: int64_def ParseInt_FormatInt)

lemma foldName_ASCII: "\<forall>c \<in> set s. (of_char c :: nat) < 128 \<Longrightarrow> foldName s = map upper_byte s"
proof (induction s)
  case (Cons c s)
  then show ?case
    by (simp add: foldName_def runes.simps [of "c # s"] rune_width_ASCII fold_rune_def str_def)
qed (simp add: foldName_def runes.simps)

lemma upper_names:
  "map upper_byte ''files'' = ''FILES''" "map upper_byte ''name'' = ''NAME''" "map upper_byte ''size'' = ''SIZE''"
  "map upper_byte ''days'' = ''DAYS''" "map upper_byte ''maxDownloads'' = ''MAXDOWNLOADS''"
  "map upper_byte ''password'' = ''PASSWORD''" "map upper_byte ''allowDelete'' = ''ALLOWDELETE''"
  "map upper_byte ''kind'' = ''KIND''" "map upper_byte ''manage'' = ''MANAGE''"
  "map upper_byte ''fileId'' = ''FILEID''" "map upper_byte ''zip'' = ''ZIP''"
  by code_simp+

lemma fold_names:
  "foldName ''files'' = ''FILES''" "foldName ''name'' = ''NAME''" "foldName ''size'' = ''SIZE''"
  "foldName ''days'' = ''DAYS''" "foldName ''maxDownloads'' = ''MAXDOWNLOADS''" "foldName ''password'' = ''PASSWORD''"
  "foldName ''allowDelete'' = ''ALLOWDELETE''" "foldName ''kind'' = ''KIND''" "foldName ''manage'' = ''MANAGE''"
  "foldName ''fileId'' = ''FILEID''" "foldName ''zip'' = ''ZIP''"
  by (subst foldName_ASCII, simp, rule upper_names)+

lemma store_elems_map:
  "(\<And>x. x \<in> set xs \<Longrightarrow> f (g x) z = Some x) \<Longrightarrow> store_elems f z (map g xs) [] = Some xs"
  by (induction xs) auto

lemma store_slice_map:
  "(\<And>x. x \<in> set xs \<Longrightarrow> f (g x) z = Some x) \<Longrightarrow> store_slice f z (VArr (map g xs)) ([], 0) = Some (xs, length xs)"
  by (auto simp: store_elems_map)

lemma decodeStart_request: "sendable q \<Longrightarrow> decodeStart (value_of (requestJSON q)) = Some q"
proof -
  assume q: "sendable q"
  let ?g = "\<lambda>f. value_of (JObj [(''name'', JStr (jf_Name f)), (''size'', JInt (jf_Size f))])"
  have "store_struct fileField (?g f) zeroFile = Some f" if "f \<in> set (js_Files q)" for f
    using q that by (auto simp: sendable_def fold_names fileField_def zeroFile_def)
  then have "store_slice (store_struct fileField) zeroFile (VArr (map ?g (js_Files q))) ([], 0) =
      Some (js_Files q, length (js_Files q))"
    by (rule store_slice_map)
  then show ?thesis
    using q by (simp add: decodeStart_def requestJSON_def fold_names startField_def zeroStart_def sendable_def o_def)
qed

lemma store_fields_unknown:
  "(k, v) \<in> set ps \<Longrightarrow> (\<And>x y. f (foldName k) x y = None) \<Longrightarrow> store_fields f ps z = None"
  by (induction ps arbitrary: z) (auto split: option.split)

lemma ReadValue_object:
  assumes "concat (rq_body r) = bytes_of (Marshal (JObj fs)) @ rest" "length (Marshal (JObj fs)) \<le> maxJSONBody"
    and "depth (JObj fs) \<le> maxNestingDepth"
  shows "readJSON dec r = (case dec (value_of (JObj fs)) of None \<Rightarrow> Inl ErrInvalid | Some v \<Rightarrow> Inr v)"
proof -
  have "take maxJSONBody (concat (rq_body r)) =
      bytes_of (Marshal (JObj fs)) @ take (maxJSONBody - length (Marshal (JObj fs))) rest"
    using assms(1,2) by (simp add: bytes_of_def del: Marshal.simps)
  moreover have "string_of (bytes_of x @ y) = x @ string_of y" for x y
    using string_of_bytes_of [of x] by (simp add: string_of_def)
  ultimately show ?thesis
    using assms(3) by (simp add: readJSON_def Let_def ReadValue_def parse_Marshal_object del: Marshal.simps split: option.split)
qed

definition plain :: "char \<Rightarrow> bool" where
  "plain c \<longleftrightarrow> 32 \<le> (of_char c :: nat) \<and> (of_char c :: nat) < 127 \<and> (of_char c :: nat) \<notin> {34, 38, 60, 62, 92}"

lemma json_string_plain: "\<forall>c \<in> set s. plain c \<Longrightarrow> json_string s = [dquote] @ s @ [dquote]"
proof -
  have "\<forall>c \<in> set s. plain c \<Longrightarrow> concat (map json_rune (runes s)) = s"
  proof (induction s)
    case (Cons c s)
    then have "plain c" by simp
    then have "json_escape c = [c]" "of_char c < (128 :: nat)"
      by (auto simp: plain_def json_escape_def Let_def dest: arg_cong [where f = "of_char :: char \<Rightarrow> nat"])
    moreover have "json_rune (Some [c]) = json_escape c" by (simp add: json_rune_def)
    ultimately show ?case
      using Cons by (simp add: runes.simps [of "c # s"] rune_width_ASCII)
  qed (simp add: runes.simps)
  then show "\<forall>c \<in> set s. plain c \<Longrightarrow> json_string s = [dquote] @ s @ [dquote]" by (simp add: json_string_def)
qed


definition sample_start :: startRequest where
  "sample_start = \<lparr>js_Files = [\<lparr>jf_Name = ''a.txt'', jf_Size = 5\<rparr>], js_Days = 3, js_MaxDownloads = 2, js_Password = [],
     js_AllowDelete = True, js_Kind = [], js_Manage = False\<rparr>"

definition sample_post :: "json \<Rightarrow> request" where
  "sample_post j = (sample_get [] [])\<lparr>rq_body := [bytes_of (Marshal j)], rq_bodyFail := True\<rparr>"


end
