(* ===== verification/Response_Types.thy ===== *)
theory Response_Types
  imports Encoding_Correct
begin

text \<open>
  Responses are well typed: the kind of the body, the content type that announces it and the
  status go together, for every request.
\<close>

abbreviation content_type :: "response \<Rightarrow> string option" where
  "content_type w \<equiv> hdr ''Content-Type'' w"

definition well_typed :: "response \<Rightarrow> bool" where
  "well_typed w \<longleftrightarrow>
     (case rs_body w of
        NoBody \<Rightarrow> rs_status w \<in> {200, 204, 206}
      | Raw b \<Rightarrow> content_type w = Some ''application/octet-stream'' \<and> rs_status w \<in> {200, 206}
      | Txt t \<Rightarrow> content_type w \<in> {Some ''text/plain; charset=utf-8'', Some ''application/xml; charset=utf-8'',
            Some ''application/manifest+json; charset=utf-8''} \<and>
          rs_status w \<in> {200, 404, 405, 416}
      | Json j \<Rightarrow> content_type w = Some ''application/json; charset=utf-8'' \<and> depth j \<le> 3 \<and>
          rs_status w \<in> {200, 201, 400, 401, 404, 409, 413, 429, 500, 507}
      | Page n d \<Rightarrow> content_type w = Some ''text/html; charset=utf-8'' \<and> rs_status w \<in> {200, 400, 401, 404, 413, 500} \<and>
          page_data n d
      | RedirectTo u \<Rightarrow> rs_status w \<in> {301, 302, 303}
      | Archive es e \<Rightarrow> content_type w = Some ''application/zip'' \<and> rs_status w = 200
      | Script t \<Rightarrow> content_type w = Some ''text/javascript; charset=utf-8'' \<and> rs_status w = 200)"

definition types_well :: "handler \<Rightarrow> bool" where
  "types_well h \<longleftrightarrow>
     (\<forall>r w s. hs_legacy s = None \<and> rs_status w = 200 \<and> rs_body w = NoBody \<longrightarrow> well_typed (fst (h r w s)))"

lemma statusFor_status: "fst (statusFor e) \<in> {404, 401, 413, 400, 500}"
  by (simp add: statusFor_def)

lemma well_typed_simps [simp]:
  "well_typed (writeJSON st v w) = (depth v \<le> 3 \<and> st \<in> {200, 201, 400, 401, 404, 409, 413, 429, 500, 507})"
  "well_typed (render n st d w) = (st \<in> {200, 400, 401, 404, 413, 500} \<and> page_data n d)"
  "well_typed (Redirect u st w) = (st \<in> {301, 302, 303})"
  "well_typed (httpError m st w) = (st \<in> {200, 404, 405, 416})"
  "well_typed (respond st NoBody w) = (st \<in> {200, 204, 206})"
  by (simp_all add: well_typed_def writeJSON_def render_def Redirect_def httpError_def)

lemma well_typed_fail [simp]: "well_typed (failJSON s r e w)" "well_typed (failPage s r e w)"
  using statusFor_status [of e] by (auto simp: failJSON_def failPage_def depth_answers page_data_def split: prod.split)

lemma typed_json:
  "types_well (handleStartUpload c)" "types_well (handleUploadState c)" "types_well (handleFinishUpload c)"
  "types_well (handleCancelUpload c)" "types_well handlePeek" "types_well (handleUnlock c)" "types_well handleSessionFiles"
  "types_well handleLock" "types_well handleIssueTicket" "types_well handleSessionDelete" "types_well handleManageStatus"
  "types_well handleManageDelete" "types_well (handleReport c)" "types_well (moved d)" "types_well (page handleStatus)"
  "types_well (page handleShortLink)" "types_well (page (handleBareKey c))"
  by (simp add: types_well_def handleStartUpload_def handleUploadState_def handleFinishUpload_def
      handleCancelUpload_def handlePeek_def handleUnlock_def handleSessionFiles_def handleLock_def
      handleIssueTicket_def handleSessionDelete_def handleManageStatus_def handleManageDelete_def
      handleReport_def moved_def page_def handleStatus_def handleShortLink_def handleBareKey_def Let_def
      depth_answers split: prod.split sum.split option.split)+

lemma typed_write_part: "types_well (handleWritePart c)"
  by (auto simp: types_well_def handleWritePart_def split: option.split prod.split sum.split err.split)

lemma typed_texts:
  "types_well (page handleI18nJS)" "types_well (page handleRobots)" "types_well (page handleSitemap)"
  "types_well (page (handleManifest c))" "types_well (page handleHealthz)" "types_well (page handleManagePage)"
  by (simp add: types_well_def page_def handleI18nJS_def handleRobots_def handleSitemap_def handleManifest_def
      handleHealthz_def handleManagePage_def page_data_def Let_def, (simp add: well_typed_def)?)+

lemma typed_pages:
  "types_well (page handleIndex)" "n \<noteq> ''faq.html'' \<Longrightarrow> types_well (page (handleStatic n tk dk))" "types_well (page handleFAQ)"
  "types_well (page handleGuide)" "types_well (page handleAbuse)" "types_well handleReceive"
proof -
  have ads: "well_typed (allowAdsCSP opt w) = well_typed w" for opt w
    by (simp add: allowAdsCSP_def well_typed_def split: rbody.split)
  have empty: "rs_status w = 200 \<Longrightarrow> rs_body w = NoBody \<Longrightarrow> well_typed w" for w by (simp add: well_typed_def)
  show "types_well (page handleIndex)" "n \<noteq> ''faq.html'' \<Longrightarrow> types_well (page (handleStatic n tk dk))" "types_well (page handleFAQ)"
    "types_well (page handleGuide)" "types_well (page handleAbuse)"
    by (auto simp: types_well_def page_def handleIndex_def handleStatic_def handleFAQ_def handleGuide_def handleAbuse_def
        gatedContent_def page_data_def Let_def ads empty split: option.split)
  show "types_well handleReceive"
    unfolding types_well_def
  proof (intro allI impI, elim conjE)
    fix r :: request and w :: response and s :: server
    assume leg: "hs_legacy s = None"
    have other: "hs_legacy s1 = None" if "call m s = (v, s1)" for m :: "DropInfo act" and v s1
      using call_other [OF that] leg by (metis server.select_convs(2) server.simps server.surjective)
    show "well_typed (fst (handleReceive r w s))"
      by (auto simp: handleReceive_def Let_def legacyLive_def handleDownloadPage_def page_data_def
          split: option.split prod.split dest!: other)
  qed
qed

lemma typed_transfers: "types_well handleDownload" "types_well handleArchive"
proof -
  have dl: "content_type (downloadHeaders m n w) = Some ''application/octet-stream''"
    "rs_status (downloadHeaders m n w) = rs_status w" "rs_body (downloadHeaders m n w) = rs_body w" for m n w
    by (simp_all add: downloadHeaders_def)
  show "types_well handleDownload"
    unfolding types_well_def
  proof (intro allI impI, elim conjE)
    fix r :: request and w :: response and s :: server
    assume w: "rs_status w = 200" "rs_body w = NoBody"
    define w2 where "w2 p v m n = (if p then respond 206 NoBody (SetHeader ''Content-Range'' v (downloadHeaders m n w))
        else downloadHeaders m n w)" for p v m n
    have w2: "well_typed (w2 p v m n)" "well_typed ((w2 p v m n)\<lparr>rs_body := Raw b\<rparr>)" for p v m n b
      using w by (simp_all add: w2_def well_typed_def dl)
    show "well_typed (fst (handleDownload r w s))"
      unfolding handleDownload_def Let_def w2_def [symmetric]
      by (simp add: w2 split: prod.split sum.split)
  qed
  show "types_well handleArchive"
    by (auto simp: types_well_def handleArchive_def Let_def split: prod.split sum.split)
       (simp add: well_typed_def)
qed

lemma typed_routes:
  "\<forall>(m, ps, h) \<in> set (routes c s). types_well h \<or> ps = [Lit ''report'', Rest] \<or> ps = [Lit ''static'', Rest]"
  unfolding routes_def
  by (simp add: typed_json typed_write_part typed_texts typed_pages typed_transfers)

lemma match_rest: "match_segs [Lit l, Rest] segs \<noteq> None \<Longrightarrow> hd segs = l"
  by (cases segs) (auto split: if_splits)

lemma mux_typed:
  assumes "hs_legacy s = None" "rs_status w = 200" "rs_body w = NoBody"
  shows "well_typed (fst (muxServe c r w s)) \<or> hd (segments (rq_path r)) \<in> {''report'', ''static''}"
proof (cases "cleanPath (rq_path r) = rq_path r")
  case False
  then show ?thesis by (simp add: muxServe_def Let_def)
next
  case True
  let ?P = "\<lambda>(m, ps, h). method_ok m (rq_method r) \<and> match_segs ps (segments (rq_path r)) \<noteq> None"
  show ?thesis
  proof (cases "find ?P (routes c s)")
    case None
    with True show ?thesis by (simp add: muxServe_def Let_def)
  next
    case (Some e)
    obtain m ps h where e: "e = (m, ps, h)" by (cases e)
    have mem: "(m, ps, h) \<in> set (routes c s)" "match_segs ps (segments (rq_path r)) \<noteq> None"
      using find_Some_D [OF Some] e by auto
    obtain r' where eq: "muxServe c r w s = h r' w s"
      using Some True e by (simp add: muxServe_def Let_def)
    have "types_well h \<or> ps = [Lit ''report'', Rest] \<or> ps = [Lit ''static'', Rest]"
      using typed_routes [of c s] mem(1) by fastforce
    then show ?thesis
      using assms mem(2) match_rest by (auto simp: eq types_well_def)
  qed
qed

text \<open>The path the routes see: without the prefix of a language.\<close>

definition routedPath :: "request \<Rightarrow> string" where
  "routedPath r = (case splitLangPrefix (rq_path r) of Some (l, rest) \<Rightarrow> rest | None \<Rightarrow> rq_path r)"

lemma ServeHTTP_typed:
  assumes "hs_legacy s = None"
  shows "well_typed (fst (ServeHTTP c r s)) \<or>
    hd (segments (routedPath r)) \<in> {''report'', ''static''}"
proof -
  have w: "rs_status (securityHeaders (hs_opt s) newResponse) = 200" "rs_body (securityHeaders (hs_opt s) newResponse) = NoBody"
    by (simp_all add: securityHeaders_def newResponse_def Let_def)
  show ?thesis
  proof (cases "splitLangPrefix (rq_path r)")
    case None
    then show ?thesis
      using mux_typed [OF assms w, of c "r\<lparr>rq_lang := Some Default\<rparr>"] by (simp add: ServeHTTP_def routedPath_def)
  next
    case (Some p)
    obtain l rest where p: "p = (l, rest)" by (cases p)
    show ?thesis
      using Some p mux_typed [OF assms w, of c "r\<lparr>rq_path := rest, rq_lang := Some l\<rparr>"]
      by (cases "l = Default") (simp_all add: ServeHTTP_def routedPath_def)
  qed
qed

text \<open>
  C32: Responses are well typed.  For every request outside the two directories of files, the
  body is of the kind its content type announces and the status is one that goes with it: JSON
  values as JSON, pages as HTML, file contents only as opaque octets, archives as ZIP, and a
  redirect never with another body.
\<close>

theorem responses_well_typed:
  assumes "hs_legacy s = None"
  shows "well_typed (fst (ServeHTTP c r s)) \<or> hd (segments (routedPath r)) \<in> {''report'', ''static''}"
  using assms by (rule ServeHTTP_typed)

theorem responses_well_typed_witness:
  "well_typed (fst (ServeHTTP sample_codec (sample_get [] []) (sample_server sample_service)))"
proof -
  have "hs_legacy (sample_server sample_service) = None" by (simp add: sample_server_def)
  moreover have "splitLangPrefix (rq_path (sample_get [] [])) = None"
    by (simp add: sample_get_def splitLangPrefix_def before_first_def IsSupported_def Langs_def)
  moreover have "hd (segments (rq_path (sample_get [] []))) = ''dl''"
    by (simp add: sample_get_def segments_def)
  ultimately show ?thesis
    using responses_well_typed [of "sample_server sample_service" sample_codec "sample_get [] []"]
    by (simp add: routedPath_def)
qed

subsection \<open>What a client reads\<close>

lemma served_typed:
  assumes "hs_legacy s = None" "hd (segments (routedPath r)) \<notin> {''report'', ''static''}"
  shows "well_typed (fst (ServeHTTP c r s))"
  using ServeHTTP_typed [OF assms(1), of c r] assms(2) by blast


definition sample_path :: "string \<Rightarrow> request" where
  "sample_path p = (sample_get [] [])\<lparr>rq_path := p\<rparr>"

lemma sample_split:
  "splitLangPrefix ''/api/status'' = None" "splitLangPrefix ''/faq'' = None"
  by (simp_all add: splitLangPrefix_def before_first_def IsSupported_def Langs_def)

lemma sample_clean:
  "cleanPath ''/api/status'' = ''/api/status''" "segments ''/api/status'' = [''api'', ''status'']"
  "cleanPath ''/faq'' = ''/faq''" "segments ''/faq'' = [''faq'']"
  by (simp_all add: cleanPath_def segments_def)


text \<open>
  C35: Structured data cannot break out of its script element.  In every page the server sends,
  whatever the translated messages and the configured address hold, the structured data is
  absent or an opening tag, a body without angle brackets, ampersands and control characters,
  and the closing tag; the body is one JSON document.  On the FAQ page that document carries
  exactly the questions and answers the page shows, in their order.
\<close>

theorem structured_data_safe:
  assumes "hs_legacy s = None" "hd (segments (routedPath r)) \<notin> {''report'', ''static''}"
    and "rs_body (fst (ServeHTTP c r s)) = Page n d" "pg_StructuredData d \<noteq> []"
  shows "\<exists>body doc. pg_StructuredData d = scriptOpen @ body @ scriptClose \<and> html_safe body \<and>
    ParseJSON body = Some (doc, []) \<and>
    (n = ''faq.html'' \<longrightarrow>
       (\<exists>pid l crumb. doc = VObj [(''@context'', VStr ''https://schema.org''), (''@graph'', VArr
          [VObj [(''@id'', pid), (''@type'', VStr ''FAQPage''), (''inLanguage'', l),
             (''mainEntity'', VArr (map faqEntry (pg_FAQ d)))], crumb])]))"
proof -
  have d: "page_data n d"
    using served_typed [OF assms(1,2), of c] assms(3) by (simp add: well_typed_def)
  show ?thesis
  proof (cases "n = ''faq.html''")
    case True
    then obtain s' l where "pg_StructuredData d = faqJSONLD s' l (pg_FAQ d)" using d by (auto simp: page_data_def)
    then show ?thesis using faq_document [of s' l "pg_FAQ d"] by auto
  next
    case False
    then show ?thesis using d embedded_safe [OF _ assms(4)] by (auto simp: page_data_def)
  qed
qed

definition sample_texts :: server where
  "sample_texts = (sample_server sample_service)\<lparr>hs_i18n :=
     [(Default, [(''faq.h1'', ''FAQ''), (''faq.q1'', ''</script>''), (''faq.a1'', ''no'')])]\<rparr>"

theorem structured_data_safe_witness:
  "\<exists>d body doc. rs_body (fst (ServeHTTP sample_codec (sample_path ''/faq'') sample_texts)) = Page ''faq.html'' d \<and>
     pg_FAQ d = [\<lparr>fq_Q = ''</script>'', fq_A = ''no''\<rparr>] \<and>
     pg_StructuredData d = scriptOpen @ body @ scriptClose \<and> html_safe body \<and> ParseJSON body = Some (doc, [])"
proof -
  let ?c = "[(Default, [(''faq.h1'', ''FAQ''), (''faq.q1'', ''</script>''), (''faq.a1'', ''no'')])]"
  let ?r = "sample_path ''/faq''"
  have n: "nat_digits 1 = ''1''" "nat_digits 2 = ''2''" by code_simp+
  have items: "faqItems ?c Default = Some [\<lparr>fq_Q = ''</script>'', fq_A = ''no''\<rparr>]"
    using n by (simp add: faqItems_def faqItems_from.simps [of _ _ "Suc 0"] faqItems_from.simps [of _ _ 2]
        Has_def T_def message_def numeral_2_eq_2 [symmetric])
  obtain d where d: "rs_body (fst (ServeHTTP sample_codec ?r sample_texts)) = Page ''faq.html'' d"
    "pg_FAQ d = [\<lparr>fq_Q = ''</script>'', fq_A = ''no''\<rparr>]" "pg_StructuredData d \<noteq> []"
    using items
    by (simp add: ServeHTTP_def muxServe_def Let_def routes_def method_ok_def sample_split sample_clean sample_path_def
        sample_get_def sample_server_def sample_options_def sample_texts_def page_def handleFAQ_def gatedContent_def
        gateLangs_def basePage_def lang_def Has_def message_def render_def respond_def faqJSONLD_def ldScript_def scriptOpen_def)
  have "hs_legacy sample_texts = None" "hd (segments (routedPath ?r)) \<notin> {''report'', ''static''}"
    by (simp_all add: sample_texts_def sample_server_def routedPath_def sample_path_def sample_split sample_clean)
  then show ?thesis using structured_data_safe [OF _ _ d(1,3)] d(1,2) by blast
qed

end
