(* ===== verification/Part_Steps.thy ===== *)
theory Part_Steps
  imports Upload_Props
begin

text \<open>
  One upload part as the sequence of its steps: \<open>WriteParts\<close> of
  src/internal/service/upload.go holds no lock, so two calls for the same file may interleave.
  A step is a database call, the opening and positioning of the blob, one round of the copy
  loop, or the sealing of the end.

  The first half shows that a call that runs undisturbed is the atomic operation of
  Service\_Upload, so that its theorems apply; the second half shows what an overlapping call
  can destroy.
\<close>

subsection \<open>The steps of a call\<close>

text \<open>
  A file descriptor writes at its own position.  A blob removed meanwhile is no longer
  reachable by its path, and what is written to it is lost.
\<close>

definition pwrite :: "nat \<Rightarrow> bytes \<Rightarrow> bytes \<Rightarrow> bytes" where
  "pwrite pos p b =
     (if p = [] then b
      else take pos (b @ replicate (pos - length b) 0) @ p @ drop (pos + length p) b)"

definition fdUpdate :: "string \<Rightarrow> (bytes \<Rightarrow> bytes) \<Rightarrow> service \<Rightarrow> service" where
  "fdUpdate path f s =
     (case map_of (fs_files (sv_fs s)) path of
        None \<Rightarrow> s | Some b \<Rightarrow> snd (setBlob path (f b) s))"

record partArgs =
  pa_session :: string
  pa_token :: string
  pa_file :: int
  pa_offset :: int
  pa_body :: "bytes list"
  pa_fail :: bool
  pa_room :: "nat option"

text \<open>
  Where a call stands: nothing done, the session resolved, the file's record read and the
  offset accepted, bytes being copied (the writer, the position of the descriptor, what is left
  of the body and of the limit, and the bytes copied), the file sealed and synced, returned.
  The sink of the writer holds what the current step writes.
\<close>

datatype partCall =
    PStart
  | PResolved UploadSession bytes
  | PChecked File bytes
  | PCopying File writer nat "bytes list" nat nat
  | PSealed int
  | PDone "int res"

text \<open>The writer without what its sink has collected, and the bytes of this step.\<close>

definition drain :: "writer \<Rightarrow> writer" where
  "drain w = w\<lparr>w_dst := (w_dst w)\<lparr>sink_data := []\<rparr>\<rparr>"

definition emitted :: "writer \<Rightarrow> bytes" where "emitted w = sink_data (w_dst w)"

text \<open>Opening and positioning; the descriptor ends up at the end of what is kept.\<close>

definition openPart :: "partArgs \<Rightarrow> File \<Rightarrow> bytes \<Rightarrow> service \<Rightarrow> partCall \<times> service" where
  "openPart a file dek s =
     (case andThen (openCreate (f_BlobPath file))
             (\<lambda>content. writerAt (f_BlobPath file) content dek (pa_offset a) (pa_room a)) s of
        (Inl e, s') \<Rightarrow> (PDone (Inl e), s')
      | (Inr w, s') \<Rightarrow>
          (PCopying file (drain w) (length (emitted w)) (pa_body a)
             (nat (i64 (f_Size file - pa_offset a))) 0, s'))"

text \<open>The end of the body: the final chunk, the check of a non-final part, or the roll-back.\<close>

definition endPart :: "partArgs \<Rightarrow> File \<Rightarrow> writer \<Rightarrow> nat \<Rightarrow> nat \<Rightarrow> service \<Rightarrow> partCall \<times> service" where
  "endPart a file w pos n s =
     (let newLen = i64 (pa_offset a + int n); path = f_BlobPath file in
      if newLen \<ge> f_Size file then
        (case CloseWriter w of (w', e) \<Rightarrow>
           (case e of None \<Rightarrow> PSealed newLen | Some e \<Rightarrow> PDone (Inl e),
            fdUpdate path (pwrite pos (emitted w')) s))
      else
        (case FlushFull w of
           (w', None) \<Rightarrow> (PSealed newLen, fdUpdate path (pwrite pos (emitted w')) s)
         | (w', Some e) \<Rightarrow>
             (PDone (Inl ErrInvalid),
              fdUpdate path (\<lambda>b. Truncate (ciphertextLenFor (pa_offset a)) (pwrite pos (emitted w') b)) s)))"

fun copyPart ::
  "partArgs \<Rightarrow> File \<Rightarrow> writer \<Rightarrow> nat \<Rightarrow> bytes list \<Rightarrow> nat \<Rightarrow> nat \<Rightarrow> service \<Rightarrow> partCall \<times> service" where
  "copyPart a file w pos [] lim n s =
     (if pa_fail a \<and> lim \<noteq> 0 then (PDone (Inl (Other ''read body'')), s) else endPart a file w pos n s)"
| "copyPart a file w pos (p # ps) lim n s =
     (if lim = 0 then endPart a file w pos n s
      else case Write w (take lim p) of (w', m, e) \<Rightarrow>
        (case e of
           Some e \<Rightarrow> PDone (Inl e)
         | None \<Rightarrow> PCopying file (drain w') (pos + length (emitted w')) ps (lim - length (take lim p)) (n + m),
         fdUpdate (f_BlobPath file) (pwrite pos (emitted w')) s))"

fun partStep :: "kdf \<Rightarrow> partArgs \<Rightarrow> partCall \<Rightarrow> service \<Rightarrow> partCall \<times> service" where
  "partStep K a PStart s =
     (case resolveSession K (pa_session a) (pa_token a) s of
        (Inl e, s') \<Rightarrow> (PDone (Inl e), s')
      | (Inr (sess, dek), s') \<Rightarrow> (PResolved sess dek, s'))"
| "partStep K a (PResolved sess dek) s =
     (case notFound (query (FileByID (u_DropID sess) (pa_file a))) s of
        (Inl e, s') \<Rightarrow> (PDone (Inl e), s')
      | (Inr file, s') \<Rightarrow>
          (if f_Received file \<ge> f_Size file then PDone (Inr (f_Received file))
           else if pa_offset a \<noteq> f_Received file
           then PDone (Inl (OffsetMismatch (pa_file a) (f_Received file) (pa_offset a)))
           else PChecked file dek, s'))"
| "partStep K a (PChecked file dek) s = openPart a file dek s"
| "partStep K a (PCopying file w pos ps lim n) s = copyPart a file w pos ps lim n s"
| "partStep K a (PSealed newLen) s =
     (PDone (Inr newLen), snd (db_upd (SetReceived (pa_file a) newLen) s))"
| "partStep K a (PDone r) s = (PDone r, s)"

text \<open>A call runs until it has returned; every step brings it nearer to that.\<close>

fun stepsLeft :: "partArgs \<Rightarrow> partCall \<Rightarrow> nat" where
  "stepsLeft a PStart = length (pa_body a) + 5"
| "stepsLeft a (PResolved sess dek) = length (pa_body a) + 4"
| "stepsLeft a (PChecked file dek) = length (pa_body a) + 3"
| "stepsLeft a (PCopying file w pos ps lim n) = length ps + 2"
| "stepsLeft a (PSealed newLen) = 1"
| "stepsLeft a (PDone r) = 0"

lemma stepsLeft_endPart: "stepsLeft a (fst (endPart a file w pos n s)) \<le> 1"
  by (auto simp: endPart_def Let_def split: prod.split option.split)

lemma stepsLeft_decreases:
  assumes "stepsLeft a c \<noteq> 0"
  shows "stepsLeft a (fst (partStep K a c s)) < stepsLeft a c"
proof (cases c)
  case (PCopying f w pos ps lim n)
  have e: "stepsLeft a (fst (endPart a f w pos n s)) < Suc (Suc m)" for m
    using stepsLeft_endPart [of a f w pos n s] by linarith
  show ?thesis
    unfolding PCopying by (cases ps) (auto simp: e split: prod.split option.split)
qed (use assms in \<open>auto simp: openPart_def split: prod.split sum.split\<close>)

fun partSteps :: "nat \<Rightarrow> kdf \<Rightarrow> partArgs \<Rightarrow> partCall \<times> service \<Rightarrow> partCall \<times> service" where
  "partSteps 0 K a cs = cs"
| "partSteps (Suc n) K a cs = partSteps n K a (partStep K a (fst cs) (snd cs))"

subsection \<open>A writer and what it writes\<close>

text \<open>The writer of a call, with what the file held before in its sink.\<close>

definition over :: "bytes \<Rightarrow> writer \<Rightarrow> writer" where
  "over d w = w\<lparr>w_dst := (w_dst w)\<lparr>sink_data := d @ sink_data (w_dst w)\<rparr>\<rparr>"

lemma over_simps [simp]:
  "w_key (over d w) = w_key w" "w_prefix (over d w) = w_prefix w" "w_buf (over d w) = w_buf w"
  "w_index (over d w) = w_index w" "w_wroteHeader (over d w) = w_wroteHeader w"
  "w_closed (over d w) = w_closed w" "emitted (over d w) = d @ emitted w"
  "emitted (drain w) = []" "over (emitted w) (drain w) = w" "over (d @ emitted w) (drain w) = over d w"
  "sink_data (w_dst (over d w)) = d @ emitted w"
  by (simp_all add: over_def emitted_def drain_def)

lemma sink_write_over:
  "sink_write (w_dst (over d w)) p =
     (case sink_write (w_dst w) p of (k, ok) \<Rightarrow> (k\<lparr>sink_data := d @ sink_data k\<rparr>, ok))"
  by (auto simp: sink_write_def over_def split: option.split)

lemma over_upd:
  "(over d w)\<lparr>w_dst := k\<lparr>sink_data := d @ sink_data k\<rparr>\<rparr> = over d (w\<lparr>w_dst := k\<rparr>)"
  "(over d w)\<lparr>w_wroteHeader := b\<rparr> = over d (w\<lparr>w_wroteHeader := b\<rparr>)"
  "(over d w)\<lparr>w_index := i\<rparr> = over d (w\<lparr>w_index := i\<rparr>)"
  "(over d w)\<lparr>w_buf := p\<rparr> = over d (w\<lparr>w_buf := p\<rparr>)"
  "(over d w)\<lparr>w_closed := b\<rparr> = over d (w\<lparr>w_closed := b\<rparr>)"
  by (simp_all add: over_def)

lemma writeHeader_over:
  "writeHeader (over d w) = (case writeHeader w of (w', e) \<Rightarrow> (over d w', e))"
proof -
  obtain k ok where "sink_write (w_dst w) (magic @ [formatVersion] @ w_prefix w) = (k, ok)" by fastforce
  then show ?thesis by (cases ok) (simp_all add: writeHeader_def Let_def sink_write_over over_upd)
qed

lemma flush_over: "flush b (over d w) = (case flush b w of (w', e) \<Rightarrow> (over d w', e))"
proof (cases "writeHeader w")
  case (Pair w1 e)
  show ?thesis
  proof (cases e)
    case None
    obtain k ok where "sink_write (w_dst w1) (gcm_seal (w_key w1) (nonce (w_prefix w1) (w_index w1) b) (w_buf w1) []) =
        (k, ok)" by fastforce
    then show ?thesis
      using Pair None by (cases ok) (simp_all add: flush_def writeHeader_over Let_def sink_write_over over_upd)
  next
    case (Some x)
    then show ?thesis using Pair by (simp add: flush_def writeHeader_over)
  qed
qed

lemma Write_loop_over:
  "Write_loop (over d w) p m = (case Write_loop w p m of (w', k, e) \<Rightarrow> (over d w', k, e))"
proof (induction w p m rule: Write_loop.induct)
  case (1 w p m)
  obtain w1 e where f: "(if length (w_buf w) = ChunkSize then flush False w else (w, None)) = (w1, e)"
    by fastforce
  have f': "(if length (w_buf w) = ChunkSize then flush False (over d w) else (over d w, None)) = (over d w1, e)"
    using f by (auto simp: flush_over split: if_splits)
  show ?case
  proof (cases "p = [] \<or> e \<noteq> None \<or> ChunkSize < length (w_buf w1)")
    case True
    then show ?thesis
      by (subst (1 2) Write_loop.simps) (auto simp: f f' split: option.split)
  next
    case False
    then have e: "p \<noteq> []" "e = None" "\<not> ChunkSize < length (w_buf w1)" by auto
    show ?thesis
      using "1.IH" [OF e(1) f [symmetric] e(2,3) refl] e
      by (subst (1 2) Write_loop.simps) (simp add: f f' over_upd Let_def)
  qed
qed

lemma Write_over: "Write (over d w) p = (case Write w p of (w', k, e) \<Rightarrow> (over d w', k, e))"
  by (simp add: Write_def Write_loop_over)

lemma FlushFull_over: "FlushFull (over d w) = (case FlushFull w of (w', e) \<Rightarrow> (over d w', e))"
  by (simp add: FlushFull_def flush_over writeHeader_over)

lemma CloseWriter_over: "CloseWriter (over d w) = (case CloseWriter w of (w', e) \<Rightarrow> (over d w', e))"
  by (simp add: CloseWriter_def over_upd flush_over)

subsection \<open>A call on its own\<close>

lemma setBlob_setBlob [simp]: "snd (setBlob path b (snd (setBlob path c s))) = snd (setBlob path b s)"
  by (simp add: setBlob_def tab_put_def)

lemma andThen_setBlob: "andThen (setBlob path b) k s = k () (snd (setBlob path b s))"
  by (simp add: andThen_def setBlob_def)

lemma andThen_db_upd: "andThen (db_upd g) k s = k () (snd (db_upd g s))"
  by (simp add: andThen_def db_upd_def)

lemma pwrite_end [simp]: "pwrite (length d) p d = d @ p"
  by (simp add: pwrite_def)

lemma fdUpdate_set [simp]: "fdUpdate path f (snd (setBlob path b s)) = snd (setBlob path (f b) s)"
proof -
  have "map_of (fs_files (sv_fs (snd (setBlob path b s)))) path = Some b"
    by (simp add: setBlob_def map_of_tab_put)
  then show ?thesis by (simp add: fdUpdate_def)
qed

text \<open>The atomic call from the copy loop on, with the blob at \<open>d\<close> and the writer at its end.\<close>

definition copyRest :: "partArgs \<Rightarrow> File \<Rightarrow> writer \<Rightarrow> bytes list \<Rightarrow> nat \<Rightarrow> nat \<Rightarrow> int act" where
  "copyRest a f w ps lim n =
     (case CopyBody w ps (pa_fail a) lim n of
        (w1, n1, Some e) \<Rightarrow> andThen (setBlob (f_BlobPath f) (emitted w1)) (\<lambda>_. fail e)
      | (w1, n1, None) \<Rightarrow>
          sealPart (f_BlobPath f) (pa_offset a) (f_Size f) w1 (pa_file a) (i64 (pa_offset a + int n1)))"

lemma endPart_seals:
  assumes "emitted w = []"
  shows "\<exists>k. partSteps k K a (endPart a f w (length d) n (snd (setBlob (f_BlobPath f) d s))) =
      (case sealPart (f_BlobPath f) (pa_offset a) (f_Size f) (over d w) (pa_file a) (i64 (pa_offset a + int n)) s of
         (r, s') \<Rightarrow> (PDone r, s'))"
proof -
  let ?p = "f_BlobPath f" and ?s = "snd (setBlob (f_BlobPath f) d s)" and ?n = "i64 (pa_offset a + int n)"
  consider w' e where "f_Size f \<le> ?n" "CloseWriter w = (w', Some e)"
    | w' where "f_Size f \<le> ?n" "CloseWriter w = (w', None)"
    | w' e where "\<not> f_Size f \<le> ?n" "FlushFull w = (w', Some e)"
    | w' where "\<not> f_Size f \<le> ?n" "FlushFull w = (w', None)"
    by (metis option.exhaust surj_pair)
  then show ?thesis
  proof cases
    case 1
    then show ?thesis
      by (intro exI [of _ 0]) (simp add: endPart_def sealPart_def Let_def CloseWriter_over andThen_setBlob fail_def)
  next
    case 2
    then show ?thesis
      by (intro exI [of _ 1]) (simp add: endPart_def sealPart_def Let_def CloseWriter_over andThen_setBlob
          andThen_db_upd db_upd_def ret_def)
  next
    case 3
    then show ?thesis
      by (intro exI [of _ 0]) (simp add: endPart_def sealPart_def Let_def FlushFull_over andThen_setBlob fail_def)
  next
    case 4
    then show ?thesis
      by (intro exI [of _ 1]) (simp add: endPart_def sealPart_def Let_def FlushFull_over andThen_setBlob
          andThen_db_upd db_upd_def ret_def)
  qed
qed

lemma partSteps_add: "partSteps (m + n) K a cs = partSteps n K a (partSteps m K a cs)"
  by (induction m arbitrary: cs) simp_all

lemma copyPart_runs:
  assumes "emitted w = []"
  shows "\<exists>k. partSteps k K a (PCopying f w (length d) ps lim n, snd (setBlob (f_BlobPath f) d s)) =
      (case copyRest a f (over d w) ps lim n s of (r, s') \<Rightarrow> (PDone r, s'))"
  using assms
proof (induction ps arbitrary: w d lim n)
  case Nil
  let ?s = "snd (setBlob (f_BlobPath f) d s)"
  show ?case
  proof (cases "pa_fail a \<and> lim \<noteq> 0")
    case True
    then show ?thesis
      by (intro exI [of _ 1]) (simp add: copyRest_def andThen_setBlob fail_def Nil)
  next
    case False
    then have c: "copyRest a f (over d w) [] lim n s =
        sealPart (f_BlobPath f) (pa_offset a) (f_Size f) (over d w) (pa_file a) (i64 (pa_offset a + int n)) s"
      by (auto simp: copyRest_def)
    from endPart_seals [OF Nil] obtain k where
      "partSteps k K a (endPart a f w (length d) n ?s) = (case copyRest a f (over d w) [] lim n s of (r, s') \<Rightarrow> (PDone r, s'))"
      unfolding c by blast
    with False show ?thesis by (intro exI [of _ "Suc k"]) auto
  qed
next
  case (Cons p ps)
  let ?s = "snd (setBlob (f_BlobPath f) d s)"
  show ?case
  proof (cases "lim = 0")
    case True
    then have c: "copyRest a f (over d w) (p # ps) lim n s =
        sealPart (f_BlobPath f) (pa_offset a) (f_Size f) (over d w) (pa_file a) (i64 (pa_offset a + int n)) s"
      by (simp add: copyRest_def)
    from endPart_seals [OF Cons.prems] obtain k where
      "partSteps k K a (endPart a f w (length d) n ?s) =
         (case copyRest a f (over d w) (p # ps) lim n s of (r, s') \<Rightarrow> (PDone r, s'))"
      unfolding c by blast
    with True show ?thesis by (intro exI [of _ "Suc k"]) simp
  next
    case False
    obtain w' m e where w: "Write w (take lim p) = (w', m, e)" by (metis prod_cases3)
    show ?thesis
    proof (cases e)
      case (Some x)
      then show ?thesis
        using False by (intro exI [of _ 1])
          (simp add: w copyRest_def Write_over andThen_setBlob fail_def Cons.prems)
    next
      case None
      have em: "emitted (drain w') = []" by simp
      from Cons.IH [OF em, of "d @ emitted w'" "lim - length (take lim p)" "n + m"] obtain k where
        k: "partSteps k K a (PCopying f (drain w') (length (d @ emitted w')) ps (lim - length (take lim p)) (n + m),
              snd (setBlob (f_BlobPath f) (d @ emitted w') s)) =
            (case copyRest a f (over d w') ps (lim - length (take lim p)) (n + m) s of (r, s') \<Rightarrow> (PDone r, s'))"
        by (simp only: over_simps) blast
      have "copyRest a f (over d w) (p # ps) lim n s =
          copyRest a f (over d w') ps (lim - length (take lim p)) (n + m) s"
        using False None by (simp add: copyRest_def Write_over w)
      with k show ?thesis using False None by (intro exI [of _ "Suc k"]) (simp add: w)
    qed
  qed
qed

lemma writerAt_position:
  assumes "writerAt path c dek off room s = (Inr w, s')"
  shows "\<exists>s0. s' = snd (setBlob path (emitted w) s0)"
proof (cases "off = 0")
  case True
  then obtain t where "emitted w = []" "s' = (snd (setBlob path [] s))\<lparr>sv_rand := t\<rparr>"
    using assms
    by (auto simp: writerAt_def andThen_setBlob newWriter_def newGCM_def fail_def andThen_def draw_def
        lift_res_def NewWriter_def emitted_def split: if_splits sum.splits prod.splits)
  then have "s' = snd (setBlob path (emitted w) (s\<lparr>sv_rand := t\<rparr>))" by (simp add: setBlob_def)
  then show ?thesis by blast
next
  case False
  then show ?thesis
    using assms
    by (auto simp: writerAt_def andThen_setBlob Let_def fail_def lift_res_def NewResumeWriter_def newGCM_def emitted_def
        split: if_splits sum.splits)
qed

lemma openPart_runs:
  "\<exists>k. partSteps k K a (openPart a f dek s) =
     (case andThen (openCreate (f_BlobPath f)) (\<lambda>content.
         andThen (writerAt (f_BlobPath f) content dek (pa_offset a) (pa_room a)) (\<lambda>w.
         copyRest a f w (pa_body a) (nat (i64 (f_Size f - pa_offset a))) 0)) s of
       (r, s') \<Rightarrow> (PDone r, s'))"
proof (cases "openCreate (f_BlobPath f) s")
  case (Pair r s1)
  show ?thesis
  proof (cases r)
    case (Inl e)
    then show ?thesis using Pair by (intro exI [of _ 0]) (simp add: openPart_def andThen_def)
  next
    case (Inr content)
    show ?thesis
    proof (cases "writerAt (f_BlobPath f) content dek (pa_offset a) (pa_room a) s1")
      case (Pair r2 s2)
      show ?thesis
      proof (cases r2)
        case (Inl e)
        then show ?thesis
          using Pair Inr \<open>openCreate (f_BlobPath f) s = (r, s1)\<close>
          by (intro exI [of _ 0]) (simp add: openPart_def andThen_def)
      next
        case (Inr w)
        obtain s0 where s0: "s2 = snd (setBlob (f_BlobPath f) (emitted w) s0)"
          using writerAt_position Pair Inr by blast
        have same: "copyRest a f w ps lim n s2 = copyRest a f w ps lim n s0" for ps lim n
          unfolding s0 by (auto simp: copyRest_def andThen_setBlob sealPart_def Let_def
              split: prod.split option.split)
        have em: "emitted (drain w) = []" by simp
        show ?thesis
          using copyPart_runs [OF em, of K a f "emitted w" "pa_body a" "nat (i64 (f_Size f - pa_offset a))" 0 s0]
            Pair Inr \<open>openCreate (f_BlobPath f) s = (r, s1)\<close> \<open>r = Inr content\<close>
          by (simp add: openPart_def andThen_def same) (simp add: s0)
      qed
    qed
  qed
qed

lemma part_runs:
  "\<exists>k. partSteps k K a (PStart, s) =
     (case WriteParts K (pa_session a) (pa_token a) (pa_file a) (pa_offset a) (pa_body a) (pa_fail a) (pa_room a) s of
        (r, s') \<Rightarrow> (PDone r, s'))"
proof (cases "resolveSession K (pa_session a) (pa_token a) s")
  case (Pair r s1)
  show ?thesis
  proof (cases r)
    case (Inl e)
    then show ?thesis using Pair by (intro exI [of _ 1]) (simp add: WriteParts_def andThen_def)
  next
    case (Inr x)
    obtain sess dek where x: "x = (sess, dek)" by fastforce
    let ?q = "notFound (query (FileByID (u_DropID sess) (pa_file a))) s1"
    obtain r2 s2 where q: "?q = (r2, s2)" by fastforce
    show ?thesis
    proof (cases r2)
      case (Inl e)
      then show ?thesis using Pair Inr x q by (intro exI [of _ 2]) (simp add: numeral_2_eq_2 WriteParts_def andThen_def)
    next
      case (Inr f)
      show ?thesis
      proof (cases "f_Size f \<le> f_Received f \<or> pa_offset a \<noteq> f_Received f")
        case True
        then show ?thesis using Pair \<open>r = Inr x\<close> x q Inr
          by (intro exI [of _ 2]) (auto simp add: numeral_2_eq_2 WriteParts_def andThen_def ret_def fail_def)
      next
        case False
        have "\<exists>k. partSteps k K a (openPart a f dek s2) =
            (case andThen (openCreate (f_BlobPath f)) (\<lambda>content.
                andThen (writerAt (f_BlobPath f) content dek (pa_offset a) (pa_room a)) (\<lambda>w.
                copyRest a f w (pa_body a) (nat (i64 (f_Size f - pa_offset a))) 0)) s2 of
              (r, s') \<Rightarrow> (PDone r, s'))"
          by (rule openPart_runs)
        then obtain k where k: "partSteps k K a (openPart a f dek s2) =
            (case WriteParts K (pa_session a) (pa_token a) (pa_file a) (pa_offset a) (pa_body a) (pa_fail a) (pa_room a) s of
              (r, s') \<Rightarrow> (PDone r, s'))"
          using False Pair \<open>r = Inr x\<close> x q Inr
          by (auto simp: WriteParts_def andThen_def [of "resolveSession _ _ _"] andThen_def [of "notFound _"]
              Let_def copyRest_def [abs_def] emitted_def)
        show ?thesis
          using False Pair \<open>r = Inr x\<close> x q Inr k by (intro exI [of _ "Suc (Suc (Suc k))"]) simp
      qed
    qed
  qed
qed

text \<open>The number of steps is bounded by the number of pieces of the body.\<close>

lemma partSteps_returned [simp]: "partSteps n K a (PDone r, s) = (PDone r, s)"
  by (induction n) simp_all

lemma partSteps_returns:
  "stepsLeft a c \<le> n \<Longrightarrow> \<exists>r s'. partSteps n K a (c, s) = (PDone r, s')"
proof (induction n arbitrary: c s)
  case 0
  then show ?case by (cases c) simp_all
next
  case (Suc n)
  obtain c' s' where c': "partStep K a c s = (c', s')" by fastforce
  have "stepsLeft a c' \<le> n"
    using Suc.prems stepsLeft_decreases [of a c K s] c' by (cases "stepsLeft a c = 0"; cases c) auto
  then show ?case using Suc.IH [of c' s'] c' by simp
qed

lemma partSteps_stable:
  assumes "partSteps m K a cs = (PDone r, s)" "partSteps n K a cs = (PDone r', s')"
  shows "r' = r \<and> s' = s"
proof -
  have "partSteps (m + n) K a cs = (PDone r, s)" by (simp add: partSteps_add assms(1))
  moreover have "partSteps (n + m) K a cs = (PDone r', s')" by (simp add: partSteps_add assms(2))
  ultimately show ?thesis by (simp add: add.commute)
qed

lemma part_returns_atomic:
  assumes "WriteParts K (pa_session a) (pa_token a) (pa_file a) (pa_offset a) (pa_body a) (pa_fail a) (pa_room a) s = (r, s')"
  shows "partSteps (length (pa_body a) + 5) K a (PStart, s) = (PDone r, s')"
proof -
  obtain k where k: "partSteps k K a (PStart, s) = (PDone r, s')" using part_runs [of K a s] assms by auto
  obtain r2 s2 where "partSteps (length (pa_body a) + 5) K a (PStart, s) = (PDone r2, s2)"
    using partSteps_returns [of a PStart "length (pa_body a) + 5" K s] by auto
  with partSteps_stable [OF k this] show ?thesis by simp
qed


subsection \<open>Two calls for the same file\<close>

text \<open>Two calls and the order of their steps: the first one moves on \<open>True\<close>.\<close>

fun raceSteps ::
  "kdf \<Rightarrow> partArgs \<Rightarrow> partArgs \<Rightarrow> bool list \<Rightarrow> partCall \<times> partCall \<times> service \<Rightarrow> partCall \<times> partCall \<times> service" where
  "raceSteps K a b [] x = x"
| "raceSteps K a b (first # sched) (c, d, s) =
     raceSteps K a b sched
       (if first then (case partStep K a c s of (c', s') \<Rightarrow> (c', d, s'))
        else (case partStep K b d s of (d', s') \<Rightarrow> (c, d', s')))"

lemma raceSteps_append: "raceSteps K a b (xs @ ys) x = raceSteps K a b ys (raceSteps K a b xs x)"
  by (induction K a b xs x rule: raceSteps.induct) (simp_all split: prod.split)

lemma raceSteps_first:
  "raceSteps K a b (replicate n True) (c, d, s) = (case partSteps n K a (c, s) of (c', s') \<Rightarrow> (c', d, s'))"
  by (induction n arbitrary: c s) (simp_all split: prod.split)

lemma authed_only_blob:
  "only_blob path (s\<lparr>sv_st := SetReceived k n (sv_st s)\<rparr>) s' \<Longrightarrow> authed K sid tok i dek s' = authed K sid tok i dek s"
  by (auto simp: only_blob_def authed_def UploadSessionByID_def SetReceived_def)

text \<open>
  C26: Two overlapping parts can destroy a finished file.  A first call for a new file has read
  its record when a second call for the same part (a retry, say) stores the whole file and
  reports it complete; the first call then truncates the blob, and when its connection breaks
  off the file is empty.  The database still says complete, so from then on every part for the
  file, with any offset and content, is answered as already stored and changes nothing: the
  upload cannot be repaired, and a share with this file can be published.
\<close>

theorem concurrent_part_destroys_file:
  fixes K sid tok i dek s k f pieces
  assumes "authed K sid tok i dek s" "FileByID i k (sv_st s) = Inr f" "file_has dek [] f s"
    and "0 < f_Size f" "f_Size f \<le> int (length (concat pieces))"
    and "2 * noncePrefixSize \<le> length (sv_rand s)"
  defines "a \<equiv> \<lparr>pa_session = sid, pa_token = tok, pa_file = k, pa_offset = 0, pa_body = pieces,
    pa_fail = False, pa_room = None\<rparr>"
  defines "sched \<equiv> [False, False] @ replicate (length pieces + 5) True @ [False, False]"
  shows "\<exists>s'. raceSteps K a (a\<lparr>pa_body := [], pa_fail := True\<rparr>) sched (PStart, PStart, s) =
      (PDone (Inr (f_Size f)), PDone (Inl (Other ''read body'')), s') \<and>
    FileByID i k (sv_st s') = Inr (f\<lparr>f_Received := f_Size f\<rparr>) \<and> blob (f_BlobPath f) s' = Some [] \<and>
    (\<forall>off ps bf room. WriteParts K sid tok k off ps bf room s' = (Inr (f_Size f), s'))"
proof -
  let ?b = "a\<lparr>pa_body := [], pa_fail := True\<rparr>" and ?path = "f_BlobPath f"
  obtain u where u: "resolveSession K sid tok s = (Inr (u, dek), s)" "u_DropID u = i"
    using assms(1) authed_resolve by blast
  have rec: "f_Received f = 0" using file_has_received [OF assms(3)] by simp
  have first: "raceSteps K a ?b [False, False] (PStart, PStart, s) = (PStart, PChecked f dek, s)"
    using u assms(2,4) rec by (simp add: a_def notFound_def query_def)
  have "append_part (nat (f_Size f)) [] (concat pieces) = Inr (take (nat (f_Size f)) (concat pieces))"
    using assms(5) by (auto simp: append_part_def)
  moreover have "int (length (take (nat (f_Size f)) (concat pieces))) = f_Size f" using assms(4,5) by simp
  ultimately obtain s1 where s1: "WriteParts K sid tok k 0 pieces False None s = (Inr (f_Size f), s1)" "drew s s1"
      "only_blob ?path (s\<lparr>sv_st := SetReceived k (f_Size f) (sv_st s)\<rparr>) s1"
      "file_has dek (take (nat (f_Size f)) (concat pieces)) (f\<lparr>f_Received := f_Size f\<rparr>) s1"
    using WriteParts_refines [OF assms(1-3), of pieces] assms(4,6) by auto
  have second: "partSteps (length pieces + 5) K a (PStart, s) = (PDone (Inr (f_Size f)), s1)"
    using part_returns_atomic [of K a s] s1(1) by (simp add: a_def)
  obtain c where c: "blob ?path s1 = Some c"
    using s1(4) assms(4,5) by (auto simp: file_has_def blob_def)
  have "noncePrefixSize \<le> length (sv_rand s1)" using s1(2) assms(6) by (simp add: drew_def)
  then obtain w pfx s2 where w: "writerAt ?path c dek 0 None s1 = (Inr w, s2)"
      "s2 = (snd (setBlob ?path [] s1))\<lparr>sv_rand := drop noncePrefixSize (sv_rand s1)\<rparr>"
    using writerAt_start [OF authed_key [OF assms(1)], of s1 ?path c] by metis
  have sz: "f_Size f < 2 ^ 61" using assms(3) by (simp add: file_has_def)
  have third: "raceSteps K a ?b [False, False] (PDone (Inr (f_Size f)), PChecked f dek, s1) =
      (PDone (Inr (f_Size f)), PDone (Inl (Other ''read body'')), s2)"
    using w(1) c assms(4) sz by (simp add: openPart_def andThen_def openCreate_def blob_def a_def)
  have race: "raceSteps K a ?b sched (PStart, PStart, s) =
      (PDone (Inr (f_Size f)), PDone (Inl (Other ''read body'')), s2)"
    unfolding sched_def by (simp only: raceSteps_append first raceSteps_first second third prod.case)
  have st: "sv_st s2 = SetReceived k (f_Size f) (sv_st s)" and ob: "only_blob ?path (s\<lparr>sv_st := SetReceived k (f_Size f) (sv_st s)\<rparr>) s2"
    using s1(3) only_blob_rand [OF only_blob_trans [OF s1(3) only_blob_setBlob]] by (simp_all add: w(2) only_blob_def setBlob_def)
  have recorded: "FileByID i k (sv_st s2) = Inr (f\<lparr>f_Received := f_Size f\<rparr>)"
    unfolding st by (rule FileByID_SetReceived [OF assms(2)])
  have "blob ?path s2 = Some []" by (simp add: w(2) blob_def setBlob_def map_of_tab_put)
  moreover obtain u' where "resolveSession K sid tok s2 = (Inr (u', dek), s2)" "u_DropID u' = i"
    using authed_only_blob [OF ob] assms(1) authed_resolve by blast
  then have "WriteParts K sid tok k off ps bf room s2 = (Inr (f_Size f), s2)" for off ps bf room
    using recorded by (simp add: WriteParts_def andThen_def notFound_def query_def ret_def)
  ultimately show ?thesis using race recorded by blast
qed

theorem concurrent_part_destroys_file_witness:
  "\<exists>(b :: partArgs) (f :: File) s s'. svc_reachable sample_kdf linear_interp s \<and>
     raceSteps sample_kdf b (b\<lparr>pa_body := [], pa_fail := True\<rparr>)
       ([False, False] @ replicate 6 True @ [False, False]) (PStart, PStart, s) =
       (PDone (Inr 3), PDone (Inl (Other ''read body'')), s') \<and> blob (f_BlobPath f) s' = Some []"
proof (rule sample_uploading [of 3])
  fix x :: StartResult and s i dek f
  assume a: "authed sample_kdf (x_SessionID x) (x_Token x) i dek s" "FileByID i (f_ID f) (sv_st s) = Inr f"
    "file_has dek [] f s" "f_Size f = 3" "sv_rand s = replicate 338 0" "svc_reachable sample_kdf linear_interp s"
  have n: "0 < f_Size f" "f_Size f \<le> int (length (concat [[1, 2, 3 :: byte]]))" "2 * noncePrefixSize \<le> length (sv_rand s)"
    using a(4,5) by (simp_all add: noncePrefixSize_def)
  have six: "length [[1, 2, 3 :: byte]] + 5 = 6" by simp
  show ?thesis
    using concurrent_part_destroys_file [OF a(1-3) n] a(6) unfolding a(4) six by blast
qed simp_all

end
