(* ===== verification/Retention.thy ===== *)
theory Retention
  imports Download_Props
begin

text \<open>
  What every operation of the service keeps of the rows of the table of shares, and with it the
  promise of retention: after a sweep no share is left whose time is over, and no operation
  brings one back.
\<close>

text \<open>
  \<open>P\<close> holds of every share, the clock is between \<open>t0\<close> and \<open>t1\<close>, the configuration is \<open>cfg\<close>, and the host lets directories be removed.
\<close>

definition promised :: "(drop_row \<Rightarrow> bool) \<Rightarrow> time \<Rightarrow> time \<Rightarrow> Config \<Rightarrow> service \<Rightarrow> bool" where
  "promised P t0 t1 cfg s \<longleftrightarrow>
     (\<forall>r \<in> set (drops (sv_st s)). P r) \<and> t0 \<le> sv_now s \<and> sv_now s \<le> t1 \<and> sv_cfg s = cfg \<and> fs_denied (sv_fs s) = []"

locale row_promise =
  fixes P :: "drop_row \<Rightarrow> bool" and t0 t1 :: time and cfg :: Config
  assumes created: "length key = keyLength \<Longrightarrow> 1 \<le> sr_Days req \<Longrightarrow> t0 \<le> now \<Longrightarrow>
      P (new_drop (draft_drop req key wrapped mh now, kind, h, ip) i)"
    and finalized: "P r \<Longrightarrow> P (r\<lparr>dr_status := StatusReady, dr_total_bytes := n\<rparr>)"
    and claimed: "P r \<Longrightarrow> P (r\<lparr>dr_downloads := k\<rparr>)"
    and blocked: "P r \<Longrightarrow> P (r\<lparr>dr_blocked_at := Some b\<rparr>)"
begin

abbreviation inv :: "service \<Rightarrow> bool" where "inv \<equiv> promised P t0 t1 cfg"

definition pres :: "'a act \<Rightarrow> bool" where
  "pres m \<longleftrightarrow> (\<forall>s. inv s \<longrightarrow> inv (snd (m s)))"

lemma presD: "pres m \<Longrightarrow> inv s \<Longrightarrow> inv (snd (m s))"
  by (simp add: pres_def)

lemma pres_andThen: "pres m \<Longrightarrow> (\<And>x. pres (f x)) \<Longrightarrow> pres (andThen m f)"
  unfolding pres_def andThen_def by (fastforce split: prod.splits sum.splits)

lemma pres_result:
  "pres m \<Longrightarrow> (\<And>s x s'. m s = (Inr x, s') \<Longrightarrow> Q x) \<Longrightarrow> (\<And>x. Q x \<Longrightarrow> pres (f x)) \<Longrightarrow> pres (andThen m f)"
  unfolding pres_def andThen_def by (fastforce split: prod.splits sum.splits)

lemma pres_clock: "(\<And>now. t0 \<le> now \<Longrightarrow> pres (f now)) \<Longrightarrow> pres (andThen clock f)"
  by (auto simp: pres_def andThen_def clock_def promised_def)

lemma pres_if: "pres m \<Longrightarrow> pres m' \<Longrightarrow> pres (if b then m else m')"
  by simp

lemma pres_sum: "(\<And>e. pres (f e)) \<Longrightarrow> (\<And>x. pres (g x)) \<Longrightarrow> pres (case r of Inl e \<Rightarrow> f e | Inr x \<Rightarrow> g x)"
  by (cases r) auto

lemma pres_prod: "(\<And>a b. pres (f a b)) \<Longrightarrow> pres (case x of (a, b) \<Rightarrow> f a b)"
  by (cases x) simp

lemma pres_opt: "pres f \<Longrightarrow> (\<And>x. pres (g x)) \<Longrightarrow> pres (case r of None \<Rightarrow> f | Some x \<Rightarrow> g x)"
  by (cases r) auto

lemma pres_pointwise:
  "pres m \<Longrightarrow> pres n \<Longrightarrow> pres (\<lambda>s. if b s then m s else n s)"
  "(\<And>e. pres (f e)) \<Longrightarrow> (\<And>x. pres (g x)) \<Longrightarrow> pres (\<lambda>s. case q s of Inl e \<Rightarrow> f e s | Inr x \<Rightarrow> g x s)"
  by (auto simp: pres_def split: sum.split)

lemma pres_notFound: "pres m \<Longrightarrow> pres (notFound m)"
  unfolding pres_def notFound_def by (fastforce split: prod.splits sum.splits)

lemma pres_frame:
  assumes "\<And>s. sv_st (snd (m s)) = sv_st s" "\<And>s. sv_now (snd (m s)) = sv_now s" "\<And>s. sv_cfg (snd (m s)) = sv_cfg s"
    and "\<And>s. fs_denied (sv_fs (snd (m s))) = fs_denied (sv_fs s)"
  shows "pres m"
  using assms by (simp add: pres_def promised_def)

lemma pres_basic:
  "pres (ret x)" "pres (fail e)" "pres (lift_res r)" "pres (draw rd)" "pres (query q)" "pres clock" "pres config"
  "pres (setBlob p b)" "pres (openCreate p)" "pres (openBlob p)" "pres (MkdirAll d)" "pres (RemoveAll d)"
  "pres (\<lambda>s. (Inr (), s\<lparr>sv_down := g s\<rparr>))" "pres (\<lambda>s. (Inr (), s\<lparr>sv_tickets := h s\<rparr>))"
  by (rule pres_frame; simp add: act_defs draw_def setBlob_def openCreate_def openBlob_def MkdirAll_def RemoveAll_def
      andThen_def split: prod.split option.split)+

lemmas pres_intros = pres_clock pres_andThen pres_if pres_sum pres_prod pres_opt pres_notFound pres_basic

subsection \<open>The database\<close>

lemma pres_rows:
  assumes "\<And>st. \<forall>r \<in> set (drops st). P r \<Longrightarrow> \<forall>r \<in> set (drops (f st)). P r"
  shows "pres (db_upd f)"
  unfolding pres_def
proof (intro allI impI)
  fix s assume "inv s"
  then show "inv (snd (db_upd f s))" using assms [of "sv_st s"] by (auto simp: promised_def db_upd_def)
qed

lemma pres_db_err:
  assumes "\<And>st. \<forall>r \<in> set (drops st). P r \<Longrightarrow> \<forall>r \<in> set (drops (snd (f st))). P r"
  shows "pres (db_err f)"
  unfolding pres_def
proof (intro allI impI)
  fix s assume "inv s"
  then show "inv (snd (db_err f s))"
    using assms [of "sv_st s"] by (auto simp: promised_def db_err_def split: prod.split option.split)
qed

lemma pres_db:
  assumes "\<And>st. \<forall>r \<in> set (drops st). P r \<Longrightarrow> \<forall>r \<in> set (drops (snd (f st))). P r"
  shows "pres (db f)"
  unfolding pres_def
proof (intro allI impI)
  fix s assume "inv s"
  then show "inv (snd (db f s))"
    using assms [of "sv_st s"] by (auto simp: promised_def db_def split: prod.split)
qed

lemma pres_store:
  "pres (db (AddFile x))" "pres (db_upd (SetBlobPath i p))" "pres (db_upd (SetReceived i n))"
  "pres (db_err (Finalize i))" "pres (db_err (CreateUploadSession u now))" "pres (db_upd (DeleteDrop i))"
  "pres (db_upd (BlockDrop i now))" "pres (db_err (CreateReport rep))" "pres (db_upd (BumpUsage day a b c))"
  by (rule pres_db pres_db_err pres_rows; auto simp: AddFile_def SetBlobPath_def SetReceived_def Finalize_def CreateUploadSession_def
      DeleteDrop_def BlockDrop_def CreateReport_def BumpUsage_def insert_row_def Let_def update_where_def delete_where_def
      finalized blocked split: option.split)+

lemma pres_CreateDrop:
  "length key = keyLength \<Longrightarrow> 1 \<le> sr_Days req \<Longrightarrow> t0 \<le> now \<Longrightarrow>
   pres (db (CreateDrop (draft_drop req key wrapped mh now) h ip))"
  by (rule pres_db) (auto simp: CreateDrop_def insert_row_def Let_def created)

subsection \<open>The operations\<close>

lemmas pres_rules = pres_intros pres_store

lemma pres_validateStart: "pres (validateStart ip req)"
  unfolding validateStart_def by (intro pres_rules)

lemma validateStart_days: "validateStart ip req s = (Inr x, s') \<Longrightarrow> 1 \<le> sr_Days req"
  by (rule ccontr) (auto simp: validateStart_def andThen_def act_defs split: if_splits)

lemma pres_uniqueKey: "pres uniqueKey"
proof -
  have "pres (uniqueKey_loop n)" for n
  proof (induction n)
    case (Suc n)
    have "pres (\<lambda>s. case DropByKey key (sv_st s) of
         Inl e \<Rightarrow> if e = StoreNotFound then ret key s else fail e s
       | Inr d \<Rightarrow> uniqueKey_loop n s)" for key
      using Suc by (auto simp: pres_def ret_def fail_def split: sum.splits)
    then show ?case by (auto intro: pres_rules)
  qed (simp add: pres_basic)
  then show ?thesis by (simp add: uniqueKey_def)
qed

lemma uniqueKey_length: "uniqueKey s = (Inr key, s') \<Longrightarrow> length key = keyLength"
proof -
  have "uniqueKey_loop n s = (Inr key, s') \<Longrightarrow> length key = keyLength" for n s
  proof (induction n arbitrary: s)
    case (Suc n)
    obtain k s1 where k: "draw NewDropKey s = (Inr k, s1)"
      "(case DropByKey k (sv_st s1) of
         Inl e \<Rightarrow> if e = StoreNotFound then ret k s1 else fail e s1
       | Inr d \<Rightarrow> uniqueKey_loop n s1) = (Inr key, s')"
      using Suc.prems by (auto elim: andThen_Inr_E)
    then have "length k = keyLength"
      using randomString_shape [of keyAlphabet keyLength] by (fastforce simp: draw_def NewDropKey_def split: prod.splits)
    with k(2) Suc.IH show ?case by (auto simp: ret_def fail_def split: sum.splits if_splits)
  qed (simp add: fail_def)
  then show "uniqueKey s = (Inr key, s') \<Longrightarrow> length key = keyLength" by (simp add: uniqueKey_def)
qed

lemma pres_newWriter: "pres (newWriter d k)"
  unfolding newWriter_def by (intro pres_rules)

lemma pres_startFiles: "pres (startFiles key dek i n frs)"
proof (induction frs arbitrary: n)
  case (Cons fr frs)
  have "pres (startFile key dek i n fr)"
    unfolding startFile_def writeEmptyBlob_def by (intro pres_rules pres_newWriter)
  then show ?case using Cons by (auto intro: pres_rules)
qed (simp add: pres_basic)

lemma pres_StartUpload: "pres (StartUpload K ip req)"
  unfolding StartUpload_def manageSecret_def
  by (rule pres_result [OF pres_validateStart], erule validateStart_days, (rule pres_andThen, intro pres_rules)+,
      rule pres_result [OF pres_uniqueKey], erule uniqueKey_length)
     (auto simp: Let_def intro!: pres_rules pres_startFiles pres_CreateDrop)

lemma pres_resolveSession: "pres (resolveSession K i tok)"
  unfolding resolveSession_def by (intro pres_rules)

lemma pres_UploadState: "pres (UploadState K i tok)"
  unfolding UploadState_def by (intro pres_rules pres_resolveSession)

lemma pres_WriteParts: "pres (WriteParts K i tok k off ps bf room)"
  unfolding WriteParts_def writerAt_def sealPart_def Let_def
  by (intro pres_rules pres_resolveSession pres_newWriter)

lemma pres_DeleteDropAct: "pres (DeleteDropAct d)"
  unfolding DeleteDropAct_def by (intro pres_rules)

lemma pres_FinishUpload: "pres (FinishUpload K i tok)"
proof -
  have "pres (\<lambda>s. case db_err (Finalize d) s of (Inl e, s') \<Rightarrow> (Inl ErrInvalid, s') | (Inr x, s') \<Rightarrow> (Inr x, s'))" for d
    unfolding pres_def using presD [OF pres_store(4) [of d]] by (auto split: prod.split sum.split) (metis snd_conv)+
  then show ?thesis unfolding FinishUpload_def by (intro pres_rules pres_resolveSession)
qed

lemma pres_CancelUpload: "pres (CancelUpload K i tok)"
  unfolding CancelUpload_def by (intro pres_rules pres_resolveSession pres_DeleteDropAct)

lemma pres_Peek: "pres (Peek key)"
  unfolding Peek_def by (intro pres_rules)

lemma pres_Unlock: "pres (Unlock K key pw)"
  unfolding Unlock_def Let_def by (intro pres_rules)

lemma pres_getSession: "pres (getSession tok)"
  by (rule pres_frame) (simp_all add: getSession_def split: prod.split option.split)

lemma pres_SessionFiles: "pres (SessionFiles tok)"
  unfolding SessionFiles_def by (intro pres_rules pres_getSession)

lemma pres_claimSession: "pres (claimSession tok x)"
  unfolding pres_def
  by (auto simp: promised_def claimSession_def claimOnce_def claimDownload_def ClaimDownload_def BumpUsage_def Let_def
      update_where_def claimed split: prod.splits option.splits sum.splits if_splits)

lemma pres_OpenFile: "pres (OpenFile tok k off)"
  unfolding OpenFile_def Let_def by (intro pres_rules pres_getSession pres_claimSession)

lemma pres_DeleteBySession: "pres (DeleteBySession tok)"
  unfolding DeleteBySession_def by (intro pres_rules pres_getSession pres_DeleteDropAct)

lemma pres_redeem: "pres (redeem i)"
  by (rule pres_frame) (simp_all add: redeem_def split: prod.split option.split)

lemma pres_tickets: "pres (OpenTicket i off)" "pres (StatTicket i)" "pres (TicketSession i)"
  unfolding OpenTicket_def StatTicket_def TicketSession_def
  by (intro pres_rules pres_redeem pres_OpenFile pres_getSession)+

lemma pres_IssueTicket: "pres (IssueTicket tok k)"
  unfolding IssueTicket_def Let_def by (intro pres_andThen pres_getSession pres_pointwise pres_rules)

lemma pres_manage: "pres (ManageStatus tok)" "pres (ManageDelete tok)"
  unfolding ManageStatus_def ManageDelete_def resolveManage_def by (intro pres_rules pres_DeleteDropAct)+

lemma pres_ReportAct: "pres (ReportAct key reason who addr)"
  unfolding ReportAct_def Let_def by (intro pres_if pres_clock pres_pointwise pres_rules)

lemma inv_archiveFiles: "inv s \<Longrightarrow> inv (snd (archiveFiles tok used fs s))"
proof (induction fs arbitrary: used s)
  case (Cons f fs)
  have "inv (snd (OpenFile tok (uf_ID f) 0 s))" by (rule presD [OF pres_OpenFile Cons.prems])
  then show ?case
    by (auto split: prod.splits sum.splits option.splits) (metis Cons.IH snd_conv)
qed simp

lemma inv_WriteArchive:
  assumes "inv s"
  shows "inv (snd (WriteArchive i s))"
proof -
  obtain r s1 where r: "redeem i s = (r, s1)" by (cases "redeem i s") auto
  have s1: "inv s1" using presD [OF pres_redeem assms, of i] r by simp
  have "inv (snd (SessionFiles tok s1))" for tok by (rule presD [OF pres_SessionFiles s1])
  then show ?thesis
    using r s1 inv_archiveFiles
    by (auto simp: WriteArchive_def split: prod.splits sum.splits) (metis snd_conv)+
qed

lemma inv_sweepDrops: "inv s \<Longrightarrow> inv (snd (snd (sweepDrops ds s)))"
proof (induction ds arbitrary: s)
  case (Cons d ds)
  have "inv (snd (DeleteDropAct d s))" by (rule presD [OF pres_DeleteDropAct Cons.prems])
  with Cons.IH show ?case by (auto split: prod.splits sum.splits) (metis snd_conv)+
qed simp

lemma inv_Sweep: "inv s \<Longrightarrow> inv (snd (Sweep s))"
proof -
  assume "inv s"
  then have "inv (s\<lparr>sv_down := snd (sweepSessions (sv_now s) (sv_down s)),
    sv_tickets := snd (sweepTickets (sv_now s) (sv_tickets s))\<rparr>)" by (simp add: promised_def)
  from inv_sweepDrops [OF this] show ?thesis by (simp add: Sweep_def Let_def case_prod_unfold)
qed

lemmas pres_ops = pres_StartUpload pres_UploadState pres_WriteParts pres_FinishUpload pres_CancelUpload pres_Peek
  pres_Unlock pres_SessionFiles pres_OpenFile pres_DeleteBySession pres_IssueTicket pres_tickets pres_manage
  pres_ReportAct

lemma inv_op: "svc_op K ip s s' \<Longrightarrow> inv s \<Longrightarrow> inv s'"
  by (induction rule: svc_op.induct) (simp_all add: pres_ops [THEN presD] inv_WriteArchive inv_Sweep,
      simp add: promised_def Lock_def)

lemma inv_ops: "(svc_op K ip)\<^sup>*\<^sup>* s s' \<Longrightarrow> inv s \<Longrightarrow> inv s'"
  by (induction rule: rtranclp_induct) (auto intro: inv_op)

end

subsection \<open>What a sweep leaves\<close>

text \<open>
  A row that a sweep at \<open>t\<close> leaves: its key is well formed, and unless the share is blocked, its
  time was not over at \<open>t\<close> and it was not abandoned then.
\<close>

definition kept_row :: "time \<Rightarrow> Config \<Rightarrow> drop_row \<Rightarrow> bool" where
  "kept_row t cfg r \<longleftrightarrow>
     length (dr_key r) = keyLength \<and>
     (dr_blocked_at r = None \<longrightarrow>
        Unix t < dr_expires_at r \<and>
        (Second \<le> UploadTTL cfg \<and> dr_status r = StatusPending \<longrightarrow> Unix (t - UploadTTL cfg) < dr_created_at r))"

abbreviation keyed_row :: "drop_row \<Rightarrow> bool" where
  "keyed_row r \<equiv> length (dr_key r) = keyLength"

interpretation keyed: row_promise keyed_row t t1 cfg for t t1 cfg
  by unfold_locales (simp_all add: new_drop_def draft_drop_def)

lemma Unix_later: "Second \<le> d \<Longrightarrow> Unix t < Unix (t + d)"
  by (simp add: Unix_def Second_def)

interpretation kept: row_promise "kept_row t cfg" t t1 cfg for t t1 cfg
proof
  fix key :: string and req :: StartRequest and now :: time and wrapped mh h :: bytes and kind addr :: string and i :: int
  assume a: "length key = keyLength" "1 \<le> sr_Days req" "t \<le> now"
  have mono: "Unix t \<le> Unix now" using a(3) by (simp add: Unix_def zdiv_mono1 Second_def)
  have "Second \<le> sr_Days req * (24 * Hour)" using a(2) by (simp add: duration_defs)
  then have "Unix t < Unix (AddDays now (sr_Days req))"
    using mono Unix_later [of "sr_Days req * (24 * Hour)" now] by (simp add: AddDays_def)
  moreover have "Second \<le> UploadTTL cfg \<Longrightarrow> Unix (t - UploadTTL cfg) < Unix now"
    using mono Unix_later [of "UploadTTL cfg" "t - UploadTTL cfg"] by simp
  ultimately show "kept_row t cfg (new_drop (draft_drop req key wrapped mh now, kind, h, addr) i)"
    using a(1) by (simp add: kept_row_def new_drop_def draft_drop_def)
qed (simp_all add: kept_row_def StatusReady_def StatusPending_def)

lemma sweep_keeps:
  assumes "promised keyed_row t0 t1 cfg s" "0 \<le> e"
  shows "promised (kept_row (sv_now s) cfg) (sv_now s) (sv_now s + e) cfg (snd (Sweep s))"
proof -
  have inv: "promised keyed_row (sv_now s) (sv_now s + e) cfg (snd (Sweep s))"
    using assms by (intro keyed.inv_Sweep) (simp add: promised_def)
  define s1 where "s1 = s\<lparr>sv_down := snd (sweepSessions (sv_now s) (sv_down s)),
    sv_tickets := snd (sweepTickets (sv_now s) (sv_tickets s))\<rparr>"
  define due where "due = reapable (sv_now s) (sv_now s - UploadTTL cfg)"
  define ds where "ds = map toDrop (filter due (drops (sv_st s)))"
  have k: "\<forall>d \<in> set ds. 2 \<le> length (d_Key d)" "fs_denied (sv_fs s1) = []"
    using assms by (auto simp: ds_def promised_def s1_def keyLength_def)
  have sw: "snd (Sweep s) = snd (snd (sweepDrops ds s1))"
    using assms by (simp add: Sweep_def Let_def case_prod_unfold Reapable_def promised_def ds_def due_def s1_def)
  obtain s' where s': "sweepDrops ds s1 = (length ds, 0, s')"
      "drops (sv_st s') = filter (\<lambda>r. dr_id r \<notin> d_ID ` set ds) (drops (sv_st s1))"
    using sweepDrops_ok [OF k] by blast
  have "dr_id r \<in> d_ID ` set ds" if "r \<in> set (drops (sv_st s))" "due r" for r
  proof -
    have "dr_id r = d_ID (toDrop r)" by (simp add: toDrop_def scanDrop_def)
    with that show ?thesis by (simp add: ds_def image_iff) blast
  qed
  then have "\<forall>r \<in> set (drops (sv_st s')). keyed_row r \<and> \<not> due r"
    using assms unfolding s'(2) by (auto simp: s1_def promised_def)
  then show ?thesis
    using inv unfolding sw s'(1) by (force simp: promised_def kept_row_def due_def reapable_def)
qed

end
