(* ===== verification/Process_Correct.thy ===== *)
theory Process_Correct
  imports Server_Correct Retention Names_Correct Json_Correct
begin

text \<open>
  The life of the process, across signals, crashes and restarts: the service stays consistent,
  the key of the address hashes never changes, and no share outlives its time by more than the
  interval of the sweeps.
\<close>

subsection \<open>The key file\<close>

definition fileKey :: "keyFile \<Rightarrow> bytes option" where
  "fileKey f =
     (case f of
        KeyFile raw \<Rightarrow>
          (case DecodeString (TrimSpace (string_of raw)) of
             None \<Rightarrow> None | Some key \<Rightarrow> if length key < 32 then None else Some key)
      | _ \<Rightarrow> None)"

lemma hex_digit_visible: "d < 16 \<Longrightarrow> visible (hex_digit d)"
  by (auto simp: visible_def hex_digit_def)

lemma TrimSpace_line: "s \<noteq> [] \<Longrightarrow> \<forall>c \<in> set s. visible c \<Longrightarrow> TrimSpace (s @ nl) = s"
proof -
  assume s: "s \<noteq> []" "\<forall>c \<in> set s. visible c"
  then obtain c r where cr: "s = c # r" by (cases s) auto
  have "space_prefix (s @ nl) = None" using s by (simp add: cr visible_not_space(1))
  moreover have "space_suffix (s @ nl) = Some nl"
    by (simp add: space_suffix_def spaces_def HasSuffix_def str_def nl_def control_chars)
  moreover have "space_suffix s = None"
    using s by (cases s rule: rev_cases) (simp_all add: visible_not_space(2))
  moreover have "take (length (s @ nl) - length nl) (s @ nl) = s" by simp
  ultimately show ?thesis
    by (simp only: TrimSpace_def trim_left_space.simps [of "s @ nl"] trim_right_space.simps [of "s @ nl"]
        trim_right_space.simps [of s] option.case)
qed

lemma EncodeToString_visible: "\<forall>c \<in> set (EncodeToString b). visible c"
proof -
  have "unat x div 16 < 16" for x :: byte
    using unsigned_less [of x, where ?'a = nat] by (simp add: less_mult_imp_div_less)
  then show ?thesis by (auto simp: EncodeToString_def hex_digit_visible)
qed

lemma loadOrCreateKey_keeps:
  assumes "loadOrCreateKey f writable t = (Inr key, f', t')"
  shows "fileKey f' = Some key"
proof (cases f)
  case KeyMissing
  then have k: "length key = 32" "f' = KeyFile (bytes_of (EncodeToString key @ nl))"
    using assms by (auto simp: loadOrCreateKey_def rand_Read_def split: prod.splits sum.splits if_splits)
  then have "EncodeToString key \<noteq> []" by (cases key) (simp_all add: EncodeToString_def)
  then have "TrimSpace (EncodeToString key @ nl) = EncodeToString key"
    by (rule TrimSpace_line [OF _ EncodeToString_visible])
  then show ?thesis using k by (simp add: fileKey_def)
qed (use assms in \<open>auto simp: loadOrCreateKey_def fileKey_def split: option.splits if_splits\<close>)

lemma loadOrCreateKey_same: "fileKey f = Some key \<Longrightarrow> loadOrCreateKey f writable t = (Inr key, f, t)"
  by (auto simp: loadOrCreateKey_def fileKey_def split: keyFile.splits option.splits if_splits)

lemma loadOrCreateKey_fails:
  "loadOrCreateKey f writable t = (Inl e, f', t') \<Longrightarrow> f' = f"
  by (auto simp: loadOrCreateKey_def split: keyFile.splits option.splits if_splits prod.splits sum.splits)

subsection \<open>Requests leave the configuration alone\<close>

definition same_opt :: "handler \<Rightarrow> bool" where
  "same_opt h \<longleftrightarrow> (\<forall>r w s. hs_opt (snd (h r w s)) = hs_opt s)"

lemma call_opt: "call m s = (v, s1) \<Longrightarrow> hs_opt s1 = hs_opt s"
  by (auto simp: call_def split: prod.splits)

lemma same_opt_page: "same_opt (page f)" "same_opt (moved d)"
  by (simp_all add: same_opt_def page_def moved_def)

lemma same_opt_calls:
  "same_opt (handleStartUpload c)" "same_opt (handleUploadState c)" "same_opt (handleFinishUpload c)"
  "same_opt (handleCancelUpload c)" "same_opt (handleWritePart c)" "same_opt handlePeek" "same_opt (handleUnlock c)"
  "same_opt handleSessionFiles" "same_opt handleLock" "same_opt handleIssueTicket" "same_opt handleSessionDelete"
  "same_opt handleManageStatus" "same_opt handleManageDelete" "same_opt (handleReport c)" "same_opt handleReceive"
  "same_opt handleDownload" "same_opt handleArchive"
  unfolding same_opt_def handleStartUpload_def handleUploadState_def handleFinishUpload_def handleCancelUpload_def
    handleWritePart_def handlePeek_def handleUnlock_def handleSessionFiles_def handleLock_def handleIssueTicket_def
    handleSessionDelete_def handleManageStatus_def handleManageDelete_def handleReport_def handleReceive_def
    handleDownload_def handleArchive_def Let_def
  by (auto split: prod.split sum.split option.split err.split dest!: call_opt)+

lemma same_opt_routes: "\<forall>(m, ps, h) \<in> set (routes c s). same_opt h"
  unfolding routes_def by (simp add: same_opt_page same_opt_calls)

lemma ServeHTTP_opt: "hs_opt (snd (ServeHTTP c r s)) = hs_opt s"
proof -
  have "hs_opt (snd (h r' w s)) = hs_opt s" if "find P (routes c s) = Some (m, ps, h)" for P m ps h r' w
    using find_Some_D [OF that] same_opt_routes [of c s] by (auto simp: same_opt_def)
  then have "hs_opt (snd (muxServe c r' w s)) = hs_opt s" for r' w
    by (auto simp: muxServe_def Let_def split: option.split)
  then show ?thesis by (auto simp: ServeHTTP_def split: option.split)
qed

subsection \<open>Starting\<close>

lemma run_up:
  assumes "run opt d rnd writable assets tok = (Inr s, d')"
  shows "\<exists>t. hs_svc s = \<lparr>sv_st = dk_store d, sv_cfg = serviceConfig opt, sv_down = [], sv_tickets = [],
      sv_fs = dk_blobs d, sv_rand = t, sv_now = dk_now d\<rparr>"
    and "fileKey (dk_key d') = Some (IPHashKey (hs_opt s))"
    and "fileKey (dk_key d) = Some key \<Longrightarrow> IPHashKey (hs_opt s) = key"
    and "dk_store d' = dk_store d" "dk_blobs d' = dk_blobs d" "dk_now d' = dk_now d"
proof -
  obtain cols svc ipKey k t where r: "OpenStore (dk_usable d) (dk_columns d) = Inr cols"
    "New (dk_store d) (serviceConfig opt) (dk_blobs d) rnd (dk_now d) = Inr svc"
    "loadOrCreateKey (dk_key d) writable (sv_rand svc) = (Inr ipKey, k, t)"
    "NewServer assets tok (svc\<lparr>sv_rand := t\<rparr>) (serverOptions opt ipKey) = Inr s"
    "d' = d\<lparr>dk_columns := Some cols, dk_key := k\<rparr>"
    using assms by (auto simp: run_def Let_def split: sum.splits prod.splits)
  have s: "hs_svc s = svc\<lparr>sv_rand := sv_rand (hs_svc s)\<rparr>" "hs_opt s = serverOptions opt ipKey"
    using r(4) by (auto simp: NewServer_def split: sum.splits prod.splits if_splits)
  show "\<exists>t. hs_svc s = \<lparr>sv_st = dk_store d, sv_cfg = serviceConfig opt, sv_down = [], sv_tickets = [],
      sv_fs = dk_blobs d, sv_rand = t, sv_now = dk_now d\<rparr>"
    using r(2) by (subst s(1)) (auto simp: New_def split: option.splits if_splits)
  show "fileKey (dk_key d') = Some (IPHashKey (hs_opt s))"
    using loadOrCreateKey_keeps [OF r(3)] by (simp add: s(2) r(5) serverOptions_def)
  show "fileKey (dk_key d) = Some key \<Longrightarrow> IPHashKey (hs_opt s) = key"
    using r(3) loadOrCreateKey_same [of "dk_key d" key] by (simp add: s(2) serverOptions_def)
  show "dk_store d' = dk_store d" "dk_blobs d' = dk_blobs d" "dk_now d' = dk_now d" by (simp_all add: r(5))
qed

lemma run_disk:
  assumes "run opt d rnd writable assets tok = (res, d')"
  shows "dk_store d' = dk_store d" "dk_blobs d' = dk_blobs d" "dk_now d' = dk_now d"
    and "fileKey (dk_key d) = Some key \<Longrightarrow> fileKey (dk_key d') = Some key"
proof -
  show "dk_store d' = dk_store d" "dk_blobs d' = dk_blobs d" "dk_now d' = dk_now d"
    using assms by (auto simp: run_def Let_def split: sum.splits prod.splits)
  show "fileKey (dk_key d) = Some key \<Longrightarrow> fileKey (dk_key d') = Some key"
    using assms loadOrCreateKey_same [of "dk_key d" key]
    by (auto simp: run_def Let_def split: sum.splits prod.splits)
qed

lemma sweepTick_server [simp]:
  "snd (sweepTick s) = s\<lparr>hs_svc := snd (Sweep (hs_svc s))\<rparr>"
  by (simp add: sweepTick_def Let_def split: prod.split)

lemma sweepLimiters_server [simp]:
  "hs_svc (sweepLimiters s) = hs_svc s" "hs_opt (sweepLimiters s) = hs_opt s"
  by (simp_all add: sweepLimiters_def Let_def)

subsection \<open>The invariants of the process\<close>

text \<open>The key of the address hashes, on the disk and in the server.\<close>

fun holds_key :: "bytes \<Rightarrow> process \<Rightarrow> bool" where
  "holds_key key (Down d) \<longleftrightarrow> fileKey (dk_key d) = Some key"
| "holds_key key (Up s d w) \<longleftrightarrow> fileKey (dk_key d) = Some key \<and> IPHashKey (hs_opt s) = key"
| "holds_key key (Draining s d t) \<longleftrightarrow> fileKey (dk_key d) = Some key \<and> IPHashKey (hs_opt s) = key"

lemma holds_key_step: "process_step c opt p p' \<Longrightarrow> holds_key key p \<Longrightarrow> holds_key key p'"
  by (induction rule: process_step.induct) (auto simp: ServeHTTP_opt diskOf_def dest: run_up(2,3) run_disk(4))

lemma holds_key_steps: "(process_step c opt)\<^sup>*\<^sup>* p p' \<Longrightarrow> holds_key key p \<Longrightarrow> holds_key key p'"
  by (induction rule: rtranclp_induct) (auto intro: holds_key_step)

lemma up_holds_key:
  "(process_step c opt)\<^sup>*\<^sup>* (Down d0) p \<Longrightarrow>
   (case p of Down d \<Rightarrow> True | Up s d w \<Rightarrow> fileKey (dk_key d) = Some (IPHashKey (hs_opt s))
    | Draining s d t \<Rightarrow> fileKey (dk_key d) = Some (IPHashKey (hs_opt s)))"
proof (induction rule: rtranclp_induct)
  case (step p p')
  from step.hyps(2) step.IH show ?case
    by (induction rule: process_step.induct) (auto simp: ServeHTTP_opt dest: run_up(2))
qed simp

text \<open>
  C23: The key of the address hashes survives.  Once a server has started, every server that
  later runs on the same disk hashes addresses with the same key of at least 32 bytes, after
  any number of shutdowns, crashes, failed starts and restarts in between, so the hashes it
  records stay comparable.
\<close>

theorem hash_key_constant:
  assumes "(process_step c opt)\<^sup>*\<^sup>* (Down d0) (Up s d w)" "(process_step c opt)\<^sup>*\<^sup>* (Up s d w) (Up s' d' w')"
  shows "IPHashKey (hs_opt s') = IPHashKey (hs_opt s) \<and> 32 \<le> length (IPHashKey (hs_opt s)) \<and>
    (\<forall>a. hashIP (IPHashKey (hs_opt s')) a = hashIP (IPHashKey (hs_opt s)) a)"
proof -
  have k: "fileKey (dk_key d) = Some (IPHashKey (hs_opt s))" using up_holds_key [OF assms(1)] by simp
  then have "holds_key (IPHashKey (hs_opt s)) (Up s d w)" by simp
  from holds_key_steps [OF assms(2) this] have "IPHashKey (hs_opt s') = IPHashKey (hs_opt s)" by simp
  moreover have "32 \<le> length (IPHashKey (hs_opt s))"
    using k by (auto simp: fileKey_def split: keyFile.splits option.splits if_splits)
  ultimately show ?thesis by simp
qed

subsection \<open>Retention\<close>

fun retains :: "options \<Rightarrow> process \<Rightarrow> bool" where
  "retains opt (Down d) \<longleftrightarrow>
     (\<forall>r \<in> set (drops (dk_store d)). keyed_row r) \<and> fs_denied (dk_blobs d) = []"
| "retains opt (Up s d w) \<longleftrightarrow>
     0 < o_sweepInterval opt \<and>
     (\<exists>t0 t1. promised keyed_row t0 t1 (serviceConfig opt) (hs_svc s)) \<and>
     (\<forall>t. w = Some t \<longrightarrow> promised (kept_row t (serviceConfig opt)) t (t + o_sweepInterval opt)
        (serviceConfig opt) (hs_svc s))"
| "retains opt (Draining s d t) \<longleftrightarrow>
     (\<exists>t0 t1. promised keyed_row t0 t1 (serviceConfig opt) (hs_svc s))"

lemma retains_request:
  assumes "promised keyed_row t0 t1 cfg (hs_svc s)"
  shows "promised keyed_row t0 t1 cfg (hs_svc (snd (ServeHTTP c r s)))"
    and "promised (kept_row t cfg) t t' cfg (hs_svc s) \<Longrightarrow>
      promised (kept_row t cfg) t t' cfg (hs_svc (snd (ServeHTTP c r s)))"
  using keyed.inv_ops [OF ServeHTTP_ops assms] kept.inv_ops [OF ServeHTTP_ops] by blast+

lemma promised_time: "promised P t0 t1 cfg s \<Longrightarrow> t0 \<le> t \<Longrightarrow> t \<le> t1' \<Longrightarrow> promised P t0 t1' cfg (s\<lparr>sv_now := t\<rparr>)"
  by (simp add: promised_def)

lemma promised_disk:
  "promised keyed_row t0 t1 cfg (hs_svc s) \<Longrightarrow> retains opt (Down (diskOf s d))"
  by (simp add: promised_def diskOf_def)

lemma retains_boot:
  assumes "run opt d rnd writable assets tok = (Inr s, d')" "retains opt (Down d)"
  shows "promised keyed_row (dk_now d) (dk_now d) (serviceConfig opt) (hs_svc s)"
  using run_up(1) [OF assms(1)] assms(2) by (auto simp: promised_def)

lemma retains_step:
  "process_step c opt p p' \<Longrightarrow> retains opt p \<Longrightarrow> retains opt p'"
proof (induction rule: process_step.induct)
  case (boot d rnd writable assets tok s d' every)
  then show ?case using retains_boot [OF boot.hyps(1)] by (auto simp: NewTicker_def split: if_splits)
next
  case (refuse d rnd writable assets tok e d')
  then show ?case using run_disk [OF refuse.hyps] by simp
next
  case (panic d rnd writable assets tok s d' e)
  then show ?case using promised_disk retains_boot by blast
next
  case (request s d w r)
  then show ?case using retains_request by (fastforce simp del: split_paired_Ex)
next
  case (sweep w s d)
  then obtain t0 t1 where k: "promised keyed_row t0 t1 (serviceConfig opt) (hs_svc s)" "0 < o_sweepInterval opt"
    by auto
  then show ?case
    using sweep_keeps [OF k(1), of "o_sweepInterval opt"] keyed.inv_Sweep [OF k(1)] by auto
next
  case (pass s t prev d)
  then obtain t0 t1 where "promised keyed_row t0 t1 (serviceConfig opt) (hs_svc s)" by auto
  then have "promised keyed_row t t (serviceConfig opt) ((hs_svc s)\<lparr>sv_now := t\<rparr>)" by (simp add: promised_def)
  moreover have "promised (kept_row prev (serviceConfig opt)) prev (prev + o_sweepInterval opt)
      (serviceConfig opt) (hs_svc s)"
    using pass.prems by simp
  then have "promised (kept_row prev (serviceConfig opt)) prev (prev + o_sweepInterval opt)
      (serviceConfig opt) ((hs_svc s)\<lparr>sv_now := t\<rparr>)"
    using pass.hyps by (simp add: promised_def)
  ultimately show ?case using pass.prems by auto
next
  case (finish s d t r)
  then show ?case using retains_request(1) by simp blast
next
  case (drain s t' t d)
  then obtain t0 t1 where "promised keyed_row t0 t1 (serviceConfig opt) (hs_svc s)" by auto
  then have "promised keyed_row t' t' (serviceConfig opt) ((hs_svc s)\<lparr>sv_now := t'\<rparr>)" by (simp add: promised_def)
  then show ?case by auto
qed (auto simp: promised_def diskOf_def)

lemma retains_steps:
  assumes "(process_step c opt)\<^sup>*\<^sup>* (Down d0) p" "dk_store d0 = empty_store" "fs_denied (dk_blobs d0) = []"
  shows "retains opt p"
  using assms(1)
proof (induction rule: rtranclp_induct)
  case base
  show ?case using assms(2,3) by (simp add: empty_store_def)
qed (rule retains_step)

text \<open>
  C22: Retention is kept on a clock.  Whatever requests arrive and however often the process is
  stopped, killed and restarted, as long as the host lets directories be removed: from the first
  sweep of a run on, no share that is not blocked outlives its expiry by more than the sweep
  interval, no unfinished upload outlives its day by more than that, and the last sweep is never
  longer ago than the interval.
\<close>

theorem retention_kept:
  assumes "(process_step c opt)\<^sup>*\<^sup>* (Down d0) (Up s d (Some t))"
    and "dk_store d0 = empty_store" "fs_denied (dk_blobs d0) = []"
  shows "t \<le> sv_now (hs_svc s) \<and> sv_now (hs_svc s) \<le> t + o_sweepInterval opt \<and>
    (\<forall>r \<in> set (drops (sv_st (hs_svc s))). dr_blocked_at r = None \<longrightarrow>
       Unix (sv_now (hs_svc s) - o_sweepInterval opt) < dr_expires_at r \<and>
       (dr_status r = StatusPending \<longrightarrow>
          Unix (sv_now (hs_svc s) - o_sweepInterval opt - 24 * Hour) < dr_created_at r))"
proof -
  let ?cfg = "serviceConfig opt" and ?i = "o_sweepInterval opt" and ?now = "sv_now (hs_svc s)"
  have p: "promised (kept_row t ?cfg) t (t + ?i) ?cfg (hs_svc s)" using retains_steps [OF assms] by simp
  have ttl: "UploadTTL ?cfg = 24 * Hour" by (simp add: serviceConfig_def DefaultConfig_def)
  have u: "Unix a \<le> Unix b" if "a \<le> b" for a b using that by (simp add: Unix_def zdiv_mono1 Second_def)
  have "Unix (?now - ?i) \<le> Unix t" "Unix (?now - ?i - 24 * Hour) \<le> Unix (t - 24 * Hour)"
    using p by (auto simp: promised_def intro: u)
  moreover have "Second \<le> 24 * Hour" by (simp add: duration_defs)
  ultimately show ?thesis using p by (fastforce simp: promised_def kept_row_def ttl)
qed

lemma sample_durations:
  "ParseDuration ''5m'' = Some (5 * Minute)" "ParseDuration ''1h30m'' = Some (90 * Minute)"
  "ParseDuration ''-5s'' = Some (- (5 * Second))" "ParseDuration ''0'' = Some 0"
  "ParseDuration ''5'' = None" "ParseDuration ''.s'' = None" "ParseDuration ''9223372037s'' = None"
  by (simp_all add: ParseDuration_def durationParts.simps durationPart_def unitMap_def is_digit_def str_def duration_defs)

text \<open>Hypotheses of the theorems at a process that has just started and swept.\<close>

lemma sample_process:
  obtains s d where
    "(process_step sample_codec sample_opt)\<^sup>*\<^sup>* (Down sample_disk) (Up s d (Some 0))"
proof -
  obtain s d where r: "run sample_opt sample_disk (replicate 64 0) True sample_assets True = (Inr s, d)"
    "o_sweepInterval sample_opt = 5 * Minute"
    by (rule sample_run)
  then have tk: "NewTicker (o_sweepInterval sample_opt) = Inr (5 * Minute)" by (simp add: NewTicker_def duration_defs)
  have "sv_now (hs_svc s) = 0" using run_up(1) [OF r(1)] by (auto simp: sample_disk_def)
  then have "process_step sample_codec sample_opt (Up s d None) (Up (snd (sweepTick s)) d (Some 0))"
    using process_step.sweep [of None s sample_opt sample_codec d] by simp
  with process_step.boot [OF r(1) tk] show thesis
    by (intro that) (rule rtranclp.rtrancl_into_rtrancl [OF r_into_rtranclp])
qed

theorem hash_key_constant_witness:
  "\<exists>s d. (process_step sample_codec sample_opt)\<^sup>*\<^sup>* (Down sample_disk) (Up s d (Some 0)) \<and>
     32 \<le> length (IPHashKey (hs_opt s))"
proof -
  obtain s d where p: "(process_step sample_codec sample_opt)\<^sup>*\<^sup>* (Down sample_disk) (Up s d (Some 0))"
    by (rule sample_process)
  then show ?thesis using hash_key_constant [OF p rtranclp.rtrancl_refl] by blast
qed

theorem retention_kept_witness:
  "\<exists>s d. (process_step sample_codec sample_opt)\<^sup>*\<^sup>* (Down sample_disk) (Up s d (Some 0)) \<and>
     sv_now (hs_svc s) \<le> o_sweepInterval sample_opt"
proof -
  obtain s d where p: "(process_step sample_codec sample_opt)\<^sup>*\<^sup>* (Down sample_disk) (Up s d (Some 0))"
    by (rule sample_process)
  then show ?thesis using retention_kept [OF p] by (auto simp: sample_disk_def)
qed

subsection \<open>The service across restarts\<close>

definition stored :: "kdf \<Rightarrow> interp \<Rightarrow> store \<Rightarrow> bool" where
  "stored K ip st \<longleftrightarrow> st = empty_store \<or> (\<exists>x. svc_reachable K ip x \<and> sv_st x = st)"

fun sane :: "kdf \<Rightarrow> interp \<Rightarrow> process \<Rightarrow> bool" where
  "sane K ip (Down d) \<longleftrightarrow> stored K ip (dk_store d)"
| "sane K ip (Up s d w) \<longleftrightarrow> svc_reachable K ip (hs_svc s)"
| "sane K ip (Draining s d t) \<longleftrightarrow> svc_reachable K ip (hs_svc s)"

lemma run_sane:
  assumes "run opt d rnd writable assets tok = (Inr s, d')" "stored K ip (dk_store d)"
  shows "svc_reachable K ip (hs_svc s)"
proof -
  obtain svc t where svc: "New (dk_store d) (serviceConfig opt) (dk_blobs d) rnd (dk_now d) = Inr svc"
      "hs_svc s = svc\<lparr>sv_rand := t\<rparr>"
    using assms(1) by (auto simp: run_def NewServer_def Let_def split: sum.splits prod.splits if_splits)
  have "svc_reachable K ip svc"
    using assms(2) svc(1) unfolding stored_def
    by (metis svc_reachable.init svc_reachable.step svc_step.restart)
  from svc_reachable.step [OF this svc_step.host [where fs = "sv_fs svc" and rnd = t]] show ?thesis
    by (simp add: svc(2))
qed

lemma sane_step:
  "process_step c opt p p' \<Longrightarrow> sane (cd_kdf c) (cd_interp c) p \<Longrightarrow> sane (cd_kdf c) (cd_interp c) p'"
proof (induction rule: process_step.induct)
  case (panic d rnd writable assets tok s d' e)
  then show ?case using run_sane [OF panic.hyps(1)] by (auto simp: stored_def diskOf_def)
qed (auto simp: run_sane run_disk ServeHTTP_reachable stored_def diskOf_def
    intro: svc_reachable.step svc_step.tick svc_step.host svc_step.op svc_op.sweep)

lemma sane_steps:
  assumes "(process_step c opt)\<^sup>*\<^sup>* (Down d0) p" "dk_store d0 = empty_store"
  shows "sane (cd_kdf c) (cd_interp c) p"
  using assms(1)
proof (induction rule: rtranclp_induct)
  case base
  show ?case using assms(2) by (simp add: stored_def)
qed (rule sane_step)



end
